(* ===== verification/Go_Base.thy ===== *)
theory Go_Base
  imports Main "HOL-Library.Word" "HOL-Library.Signed_Division" "HOL-Library.Multiset"
begin

text \<open>
  The prelude: the Go values every component shares.

  \<^item> Machine integers: Go's \<open>int64\<close>, \<open>int\<close> (64 bits wide on the targets the release
    workflow builds) and \<open>uint64\<close> are \<open>64 word\<close>s; \<open>+\<close> and \<open>-\<close> wrap, the signed reading is
    \<open>sint\<close> and signed comparison is \<open><s\<close>. Signed division truncates towards zero.
  \<^item> \<open>[2]int64\<close>, the (up, down) pairs of the traffic maps, is a pair of such words.
  \<^item> An \<open>error\<close> value is a constructor per way the source makes one; a call that returns only
    an \<open>error\<close> has an \<open>outcome\<close>, which also has the run-time panic.
  \<^item> A Go string is its bytes: a \<open>char list\<close>.
\<close>

section \<open>Integers\<close>

type_synonym i64 = "64 word"
type_synonym u64 = "64 word"

type_synonym pair64 = "i64 \<times> i64"

definition i64_div :: "i64 \<Rightarrow> i64 \<Rightarrow> i64" where
  "i64_div a b = word_of_int (sint a sdiv sint b)"

definition add2 :: "pair64 \<Rightarrow> pair64 \<Rightarrow> pair64" where
  "add2 p q = (fst p + fst q, snd p + snd q)"

definition sub2 :: "pair64 \<Rightarrow> pair64 \<Rightarrow> pair64" where
  "sub2 p q = (fst p - fst q, snd p - snd q)"

definition zero2 :: pair64 where
  "zero2 = (0, 0)"

definition sum2 :: "pair64 list \<Rightarrow> pair64" where
  "sum2 ps = foldr add2 ps zero2"

named_theorems pair64_simps

text \<open>
  Pairs of a group are a group, so the library's laws and its sums of lists and multisets apply to the
  counters: \<open>add2\<close>, \<open>sub2\<close> and \<open>zero2\<close> are its operations.
\<close>

instantiation prod :: (ab_group_add, ab_group_add) ab_group_add
begin

definition zero_prod :: "'a \<times> 'b" where
  "zero_prod = (0, 0)"

definition plus_prod :: "'a \<times> 'b \<Rightarrow> 'a \<times> 'b \<Rightarrow> 'a \<times> 'b" where
  "plus_prod p q = (fst p + fst q, snd p + snd q)"

definition minus_prod :: "'a \<times> 'b \<Rightarrow> 'a \<times> 'b \<Rightarrow> 'a \<times> 'b" where
  "minus_prod p q = (fst p - fst q, snd p - snd q)"

definition uminus_prod :: "'a \<times> 'b \<Rightarrow> 'a \<times> 'b" where
  "uminus_prod p = (- fst p, - snd p)"

instance
  by standard (simp_all add: zero_prod_def plus_prod_def minus_prod_def uminus_prod_def add.assoc add.commute)

end

lemma pair_group: "add2 = (+)" "sub2 = (-)" "zero2 = 0"
  by (simp_all add: fun_eq_iff add2_def sub2_def zero2_def plus_prod_def minus_prod_def zero_prod_def)

lemma sum2_sum_list: "sum2 = sum_list"
  by (simp add: sum2_def pair_group sum_list.eq_foldr fun_eq_iff)

lemma add2_zero [simp]: "add2 zero2 p = p" "add2 p zero2 = p"
  by (simp_all add: pair_group)

lemma add2_assoc: "add2 (add2 p q) r = add2 p (add2 q r)"
  and add2_commute: "add2 p q = add2 q p"
  and add2_left_commute: "add2 p (add2 q r) = add2 q (add2 p r)"
  by (simp_all add: pair_group ac_simps)

lemmas add2_ac = add2_assoc add2_commute add2_left_commute

lemma sub2_add2 [pair64_simps]: "sub2 (add2 p q) p = q" "sub2 (add2 q p) p = q"
  by (simp_all add: pair_group)

lemma add2_sub2 [pair64_simps]: "add2 p (sub2 q p) = q" "add2 (sub2 q p) p = q"
  by (simp_all add: pair_group)

lemma sub2_self [simp]: "sub2 p p = zero2"
  by (simp add: pair_group)

lemma sub2_zero [simp]: "sub2 p zero2 = p"
  by (simp add: pair_group)

lemma sub2_eq_iff: "sub2 p q = r \<longleftrightarrow> p = add2 q r"
  unfolding pair_group by (metis add.commute diff_eq_eq)

lemma sum2_simps [simp]: "sum2 [] = zero2" "sum2 (p # ps) = add2 p (sum2 ps)"
  by (simp_all add: sum2_def)

lemma sum2_append [simp]: "sum2 (ps @ qs) = add2 (sum2 ps) (sum2 qs)"
  by (simp add: sum2_sum_list pair_group)

lemma sum2_perm: "mset ps = mset qs \<Longrightarrow> sum2 ps = sum2 qs"
  by (metis sum2_sum_list sum_mset_sum_list)

section \<open>Errors\<close>

text \<open>
  \<open>Errorf fmt args\<close> is \<open>fmt.Errorf\<close> (or \<open>errors.New\<close>) with the format's text and its string
  arguments, \<open>Wrap msg e\<close> is \<open>fmt.Errorf("msg: %w", e)\<close>, \<open>Extern\<close> an error of a package or of
  the system.
\<close>

datatype error =
    Errorf string "string list"
  | Wrap string error
  | ErrLimiterClosed
  | ErrShortWrite
  | Extern string

text \<open>
  What a call that returns an \<open>error\<close> does: return nil, return an error, or panic (the
  goroutine and with it the process dies).
\<close>

datatype outcome = NoError | Failed error | Panicked string

definition returned :: "error option \<Rightarrow> outcome" where
  "returned e = (case e of None \<Rightarrow> NoError | Some err \<Rightarrow> Failed err)"

end
