(* ===== verification/Go_Maps.thy ===== *)
theory Go_Maps
  imports Go_Base "HOL-Library.AList"
begin

text \<open>
  Go maps. A map value is an association list with distinct keys: \<open>mget\<close> is indexing with the
  comma-ok form, \<open>mput\<close> assignment, \<open>mdel\<close> \<open>delete\<close>. A \<open>range\<close> loop runs along the list. Go
  leaves the iteration order open, so a fact proved for every list with distinct keys holds for
  every order Go may choose; \<open>mget_perm\<close> says that two lists with the same entries are the same
  map.

  The interface is the locale \<open>go_map\<close>: what a lookup returns after an assignment and a
  deletion. The loops of the source that fill a map are \<open>fold\<close>s of \<open>put\<close>; the locale proves
  once what such a loop leaves behind.
\<close>

type_synonym ('k, 'v) gomap = "('k \<times> 'v) list"

definition mget :: "('k, 'v) gomap \<Rightarrow> 'k \<Rightarrow> 'v option" where
  "mget m k = map_of m k"

definition mput :: "'k \<Rightarrow> 'v \<Rightarrow> ('k, 'v) gomap \<Rightarrow> ('k, 'v) gomap" where
  "mput k v m = AList.update k v m"

definition mdel :: "'k \<Rightarrow> ('k, 'v) gomap \<Rightarrow> ('k, 'v) gomap" where
  "mdel k m = filter (\<lambda>e. fst e \<noteq> k) m"

definition mkeys :: "('k, 'v) gomap \<Rightarrow> 'k list" where
  "mkeys m = map fst m"

definition wf_map :: "('k, 'v) gomap \<Rightarrow> bool" where
  "wf_map m \<longleftrightarrow> distinct (map fst m)"

text \<open>Indexing a possibly missing key gives the zero value of the element type.\<close>

definition mget_or :: "'v \<Rightarrow> ('k, 'v) gomap \<Rightarrow> 'k \<Rightarrow> 'v" where
  "mget_or z m k = (case mget m k of None \<Rightarrow> z | Some v \<Rightarrow> v)"

text \<open>A loop keeps what each of its passes keeps.\<close>

lemma fold_invariant: "P out \<Longrightarrow> (\<And>x out. x \<in> set xs \<Longrightarrow> P out \<Longrightarrow> P (f x out)) \<Longrightarrow> P (fold f xs out)"
  by (induction xs arbitrary: out) auto

section \<open>The interface\<close>

locale go_map =
  fixes empty :: 'm
    and get :: "'m \<Rightarrow> 'k \<Rightarrow> 'v option"
    and put :: "'k \<Rightarrow> 'v \<Rightarrow> 'm \<Rightarrow> 'm"
    and del :: "'k \<Rightarrow> 'm \<Rightarrow> 'm"
    and inv :: "'m \<Rightarrow> bool"
  assumes get_empty: "get empty k = None"
    and get_put: "get (put k v m) k' = (if k' = k then Some v else get m k')"
    and get_del: "get (del k m) k' = (if k' = k then None else get m k')"
    and inv_empty: "inv empty"
    and inv_put: "inv m \<Longrightarrow> inv (put k v m)"
    and inv_del: "inv m \<Longrightarrow> inv (del k m)"
begin

lemma inv_fold_put:
  "inv m \<Longrightarrow> inv (fold (\<lambda>(k, v) m. put k (f k v m) m) xs m)"
  by (induction xs arbitrary: m) (auto intro: inv_put)

lemma inv_fold_del: "inv m \<Longrightarrow> inv (fold del ks m)"
  by (induction ks arbitrary: m) (auto intro: inv_del)

lemma get_fold_del: "get (fold del ks m) k = (if k \<in> set ks then None else get m k)"
  by (induction ks arbitrary: m) (auto simp: get_del)

text \<open>A loop that assigns each key of a map once.\<close>

lemma get_fold_put_distinct:
  "distinct (map fst xs) \<Longrightarrow>
   get (fold (\<lambda>(k, v) m. put k (f k v) m) xs m) k
   = (case map_of xs k of None \<Rightarrow> get m k | Some v \<Rightarrow> Some (f k v))"
proof (induction xs arbitrary: m)
  case Nil
  show ?case by simp
next
  case (Cons x xs)
  obtain k0 v0 where x: "x = (k0, v0)" by (cases x)
  have "get (fold (\<lambda>(k, v) m. put k (f k v) m) xs (put k0 (f k0 v0) m)) k
      = (case map_of xs k of None \<Rightarrow> get (put k0 (f k0 v0) m) k | Some v \<Rightarrow> Some (f k v))"
    using Cons by (simp add: x)
  moreover have "k = k0 \<Longrightarrow> map_of xs k = None"
    using Cons.prems by (simp add: x map_of_eq_None_iff)
  ultimately show ?case
    by (auto simp: x get_put split: option.splits)
qed

text \<open>A loop that accumulates under keys that may repeat.\<close>

lemma get_fold_acc:
  "get (fold (\<lambda>(k, v) m. put k (f (get m k) v) m) xs m) k
   = (case filter (\<lambda>e. fst e = k) xs of
        [] \<Rightarrow> get m k
      | ys \<Rightarrow> fold (\<lambda>e acc. Some (f acc (snd e))) ys (get m k))"
  by (induction xs arbitrary: m) (auto simp: get_put split: list.splits)

lemma dom_fold_acc:
  "dom (get (fold (\<lambda>(k, v) m. put k (f (get m k) v) m) xs m)) = fst ` set xs \<union> dom (get m)"
  by (induction xs arbitrary: m) (auto simp: get_put dom_def)

end

section \<open>The provider: association lists\<close>

named_theorems gomap_simps

lemma mget_mput: "mget (mput k v m) k' = (if k' = k then Some v else mget m k')"
  by (simp add: mget_def mput_def update_conv')

lemma mget_mdel: "mget (mdel k m) k' = (if k' = k then None else mget m k')"
  by (induction m) (auto simp: mget_def mdel_def)

lemma wf_mput: "wf_map m \<Longrightarrow> wf_map (mput k v m)"
  by (simp add: wf_map_def mput_def distinct_update)

lemma wf_filter: "wf_map m \<Longrightarrow> wf_map (filter P m)"
  by (induction m) (auto simp: wf_map_def)

lemma wf_mdel: "wf_map m \<Longrightarrow> wf_map (mdel k m)"
  by (simp add: mdel_def wf_filter)

interpretation gm: go_map "[]" mget mput mdel wf_map
  by unfold_locales (auto simp: mget_mput mget_mdel wf_mput wf_mdel, simp_all add: mget_def wf_map_def)

lemma mget_Nil [simp]: "mget [] k = None"
  by (simp add: mget_def)

lemma wf_map_Nil [simp]: "wf_map []"
  by (simp add: wf_map_def)

lemma mget_Cons [simp]: "mget ((k, v) # m) k' = (if k' = k then Some v else mget m k')"
  by (simp add: mget_def)

lemma wf_map_Cons [simp]: "wf_map ((k, v) # m) \<longleftrightarrow> mget m k = None \<and> wf_map m"
  by (auto simp: wf_map_def mget_def map_of_eq_None_iff)

lemma mput_Nil [simp]: "mput k v [] = [(k, v)]"
  by (simp add: mput_def)

lemma mput_Cons [simp]:
  "mput k v ((k', v') # m) = (if k' = k then (k, v) # m else (k', v') # mput k v m)"
  by (simp add: mput_def)

lemma mput_not_Nil [simp]: "mput k v m \<noteq> []"
  by (simp add: mput_def)

lemma mdel_Nil [simp]: "mdel k [] = []"
  by (simp add: mdel_def)

lemma mdel_Cons [simp]:
  "mdel k ((k', v') # m) = (if k' = k then mdel k m else (k', v') # mdel k m)"
  by (simp add: mdel_def)

lemma mkeys_simps [simp]: "mkeys [] = []" "mkeys ((k, v) # m) = k # mkeys m"
  by (simp_all add: mkeys_def)

declare mget_mput [gomap_simps] mget_mdel [gomap_simps] wf_mput [gomap_simps] wf_mdel [gomap_simps]

lemma mget_or_mput [gomap_simps]: "mget_or z (mput k v m) k' = (if k' = k then v else mget_or z m k')"
  by (simp add: mget_or_def mget_mput)

lemma mget_in_set: "mget m k = Some v \<Longrightarrow> (k, v) \<in> set m"
  by (simp add: mget_def map_of_SomeD)

lemma in_set_mget: "wf_map m \<Longrightarrow> (k, v) \<in> set m \<Longrightarrow> mget m k = Some v"
  by (simp add: mget_def wf_map_def)

lemma mget_iff_in_set: "wf_map m \<Longrightarrow> mget m k = Some v \<longleftrightarrow> (k, v) \<in> set m"
  by (blast intro: in_set_mget mget_in_set)

lemma mget_None_iff: "mget m k = None \<longleftrightarrow> k \<notin> set (mkeys m)"
  by (simp add: mget_def mkeys_def map_of_eq_None_iff)

lemma set_mkeys: "set (mkeys m) = dom (mget m)"
  by (auto simp: mget_None_iff dom_def)

lemma mget_filter_keys: "mget (filter (\<lambda>e. P (fst e)) m) k = (if P k then mget m k else None)"
  by (induction m) (auto simp: mget_def)

lemma mget_map_values: "mget (map (\<lambda>(k, v). (k, f k v)) m) k = map_option (f k) (mget m k)"
  by (induction m) auto

lemma wf_map_values: "wf_map m \<Longrightarrow> wf_map (map (\<lambda>(k, v). (k, f k v)) m)"
  by (induction m) (auto simp: mget_map_values)

lemma mget_perm:
  assumes "wf_map m" and "mset m = mset m'"
  shows "mget m = mget m'"
proof -
  have "mset (map fst m) = mset (map fst m')"
    by (simp add: assms(2))
  then have "distinct (map fst m) = distinct (map fst m')"
    by (metis mset_eq_imp_distinct_iff)
  with assms(1) have "wf_map m'" by (simp add: wf_map_def)
  moreover have "set m = set m'"
    using assms(2) by (metis set_mset_mset)
  ultimately show ?thesis
    using assms(1) by (intro ext) (metis mget_iff_in_set option.exhaust)
qed

lemma wf_map_perm: "wf_map m \<Longrightarrow> mset m = mset m' \<Longrightarrow> wf_map m'"
  by (metis mset_map mset_eq_imp_distinct_iff wf_map_def)

lemma mput_absent: "mget m k = None \<Longrightarrow> mput k v m = m @ [(k, v)]"
  by (induction m) auto

lemma mget_append: "mget (m @ m') k = (case mget m k of None \<Rightarrow> mget m' k | Some v \<Rightarrow> Some v)"
  by (induction m) (auto split: option.splits)

lemma wf_map_snoc: "wf_map (m @ [(k, v)]) \<longleftrightarrow> wf_map m \<and> mget m k = None"
  by (auto simp: wf_map_def mget_def map_of_eq_None_iff)

text \<open>
  A loop that copies into a map the entries of a map it keeps, changing the values: with
  distinct keys it is a filter and a map.
\<close>

lemma fold_put_select:
  assumes "wf_map xs"
  shows "fold (\<lambda>(k, v) m. if P k v then mput k (f k v) m else m) xs []
         = map (\<lambda>(k, v). (k, f k v)) (filter (\<lambda>(k, v). P k v) xs)"
proof -
  have "fold (\<lambda>(k, v) m. if P k v then mput k (f k v) m else m) xs acc
      = acc @ map (\<lambda>(k, v). (k, f k v)) (filter (\<lambda>(k, v). P k v) xs)"
    if "wf_map xs" and "\<forall>k \<in> set (mkeys xs). mget acc k = None" for acc
    using that
  proof (induction xs arbitrary: acc)
    case Nil
    then show ?case by simp
  next
    case (Cons x xs)
    obtain k v where x: "x = (k, v)" by (cases x)
    have keys: "\<forall>k' \<in> set (mkeys xs). mget (acc @ [(k, f k v)]) k' = None"
      using Cons.prems by (auto simp: x mget_append mget_None_iff split: option.splits)
    show ?case
      using Cons.prems Cons.IH [of acc] Cons.IH [of "acc @ [(k, f k v)]"] keys
      by (simp add: x mput_absent)
  qed
  from this [of "[]"] assms show ?thesis by simp
qed

lemma mget_select:
  "wf_map xs \<Longrightarrow>
   mget (map (\<lambda>(k, v). (k, f k v)) (filter (\<lambda>(k, v). P k v) xs)) k
   = (case mget xs k of None \<Rightarrow> None | Some v \<Rightarrow> if P k v then Some (f k v) else None)"
proof (induction xs)
  case Nil
  then show ?case by simp
next
  case (Cons x xs)
  obtain k0 v0 where x: "x = (k0, v0)" by (cases x)
  show ?case
    using Cons by (cases "k = k0") (auto simp: x split: option.splits)
qed

lemma wf_select: "wf_map xs \<Longrightarrow> wf_map (map (\<lambda>(k, v). (k, f k v)) (filter (\<lambda>(k, v). P k v) xs))"
  by (rule wf_map_values) (rule wf_filter)

section \<open>Range loops over the maps of a function\<close>

text \<open>
  Where the code ranges over a map it has filled itself, so that no list is given from outside, the order
  is \<open>ranged rank\<close>: the runtime ranks the entries as it likes. It can be every order.
\<close>

definition ranged :: "(nat \<Rightarrow> nat) \<Rightarrow> 'a list \<Rightarrow> 'a list" where
  "ranged rank m = map snd (sort_key (\<lambda>e. rank (fst e)) (enumerate 0 m))"

lemma mset_ranged [simp]: "mset (ranged rank m) = mset m"
proof -
  have "mset (ranged rank m) = mset (map snd (enumerate 0 m))"
    unfolding ranged_def by (simp only: mset_map mset_sort)
  then show ?thesis by simp
qed

lemma set_ranged [simp]: "set (ranged rank m) = set m"
  by (metis mset_ranged set_mset_mset)

lemma ranged_Nil [simp]: "ranged rank [] = []" "[] = ranged rank m \<longleftrightarrow> m = []" "ranged rank m = [] \<longleftrightarrow> m = []"
  by (metis mset_ranged mset_zero_iff)+

lemma distinct_ranged [simp]: "distinct (ranged rank m) = distinct m"
  by (rule mset_eq_imp_distinct_iff) simp

lemma wf_map_ranged [simp]: "wf_map (ranged rank m) = wf_map m"
  by (metis mset_ranged wf_map_perm)

lemma mget_ranged [simp]: "wf_map m \<Longrightarrow> mget (ranged rank m) = mget m"
  by (rule mget_perm [symmetric]) simp_all

lemma mset_map_split: "mset (map f xs) = mset ys \<Longrightarrow> \<exists>zs. mset zs = mset xs \<and> map f zs = ys"
proof (induction ys arbitrary: xs)
  case Nil
  then have "xs = []" by simp
  then show ?case by simp
next
  case (Cons y ys)
  then have "y \<in> set (map f xs)" by (metis list.set_intros(1) set_mset_mset)
  then obtain a x b where x: "xs = a @ x # b" "y = f x" by (auto dest: split_list)
  then have "mset (map f (a @ b)) = mset ys" using Cons.prems by simp
  from Cons.IH [OF this] obtain zs where zs: "mset zs = mset (a @ b)" "map f zs = ys" by blast
  show ?case by (rule exI [of _ "x # zs"]) (simp add: x zs)
qed

lemma ranged_every_order:
  assumes "mset ys = mset xs"
  shows "\<exists>rank. ranged rank xs = ys"
proof -
  have "mset (map snd (enumerate 0 xs)) = mset ys" by (simp add: assms)
  from mset_map_split [OF this] obtain zs where zs: "mset zs = mset (enumerate 0 xs)" "map snd zs = ys" by blast
  have "distinct (map fst (enumerate 0 xs))" by simp
  then have dist: "distinct (map fst zs)"
    using zs(1) by (metis mset_map mset_eq_imp_distinct_iff)
  define rank where "rank i = the (map_of (zip (map fst zs) [0..<length zs]) i)" for i
  have rank: "rank (fst (zs ! j)) = j" if "j < length zs" for j
  proof -
    have "map_of (zip (map fst zs) [0..<length zs]) (map fst zs ! j) = Some ([0..<length zs] ! j)"
      by (rule map_of_zip_nth) (simp_all add: dist that)
    then show ?thesis using that by (simp add: rank_def)
  qed
  have "map (\<lambda>e. rank (fst e)) zs = [0..<length zs]" by (rule nth_equalityI) (simp_all add: rank)
  then have ranks: "distinct (map (\<lambda>e. rank (fst e)) zs)" "sorted (map (\<lambda>e. rank (fst e)) zs)" by simp_all
  then have "inj_on (\<lambda>e. rank (fst e)) (set zs)" by (simp add: distinct_map)
  then have "sort_key (\<lambda>e. rank (fst e)) (enumerate 0 xs) = zs"
    using zs(1) ranks(2) by (metis sort_key_inj_key_eq set_mset_mset)
  then have "ranged rank xs = ys" by (simp add: ranged_def zs(2))
  then show ?thesis by blast
qed

section \<open>Maps of maps\<close>

definition mget2 :: "('a, ('b, 'v) gomap) gomap \<Rightarrow> 'a \<Rightarrow> 'b \<Rightarrow> 'v option" where
  "mget2 m a b = (case mget m a of None \<Rightarrow> None | Some inner \<Rightarrow> mget inner b)"

definition wf_map2 :: "('a, ('b, 'v) gomap) gomap \<Rightarrow> bool" where
  "wf_map2 m \<longleftrightarrow> wf_map m \<and> (\<forall>e \<in> set m. wf_map (snd e))"

lemma mget2_Nil [simp]: "mget2 [] a b = None"
  by (simp add: mget2_def)

lemma wf_map2_Nil [simp]: "wf_map2 []"
  by (simp add: wf_map2_def)

lemma wf_map2D: "wf_map2 m \<Longrightarrow> wf_map m" "wf_map2 m \<Longrightarrow> mget m a = Some inner \<Longrightarrow> wf_map inner"
  by (auto simp: wf_map2_def dest!: mget_in_set)

end
