(* ===== verification/Go_Strings.thy ===== *)
theory Go_Strings
  imports Go_Maps
begin

text \<open>
  The functions of Go's \<open>strings\<close> and \<open>strconv\<close> packages that the agent calls, on byte strings.

  \<open>TrimSpace\<close> strips the UTF-8 encodings of the Unicode white space characters, which is what
  \<open>unicode.IsSpace\<close> accepts. \<open>ToLower\<close> maps the ASCII letters and leaves every other byte: it
  agrees with Go on every string whose non-ASCII characters have no lower-case form. The
  functions that split do so at ASCII separators, where bytes and runes agree.
\<close>

section \<open>Characters\<close>

abbreviation byte :: "char \<Rightarrow> nat" where
  "byte c \<equiv> of_char c"

definition is_digit :: "char \<Rightarrow> bool" where
  "is_digit c \<longleftrightarrow> 48 \<le> byte c \<and> byte c \<le> 57"

definition digit_val :: "char \<Rightarrow> nat" where
  "digit_val c = byte c - 48"

definition digit_char :: "nat \<Rightarrow> char" where
  "digit_char d = char_of (48 + d)"

lemma byte_digit_char: "d < 10 \<Longrightarrow> byte (digit_char d) = 48 + d"
  by (simp add: digit_char_def)

lemma digit_char_digit [simp]: "d < 10 \<Longrightarrow> is_digit (digit_char d)" "d < 10 \<Longrightarrow> digit_val (digit_char d) = d"
  by (simp_all add: is_digit_def digit_val_def byte_digit_char)

definition lower_char :: "char \<Rightarrow> char" where
  "lower_char c = (if 65 \<le> byte c \<and> byte c \<le> 90 then char_of (byte c + 32) else c)"

definition ToLower :: "string \<Rightarrow> string" where
  "ToLower s = map lower_char s"

lemma lower_char_idem [simp]: "lower_char (lower_char c) = lower_char c"
  by (auto simp: lower_char_def)

lemma ToLower_idem [simp]: "ToLower (ToLower s) = ToLower s"
  by (simp add: ToLower_def)

section \<open>Prefixes, search, splitting\<close>

definition HasPrefix :: "string \<Rightarrow> string \<Rightarrow> bool" where
  "HasPrefix s p \<longleftrightarrow> take (length p) s = p"

fun Contains :: "string \<Rightarrow> string \<Rightarrow> bool" where
  "Contains [] sub = (sub = [])"
| "Contains (c # cs) sub = (HasPrefix (c # cs) sub \<or> Contains cs sub)"

fun LastIndex :: "string \<Rightarrow> string \<Rightarrow> nat option" where
  "LastIndex [] sub = (if sub = [] then Some 0 else None)"
| "LastIndex (c # cs) sub =
     (case LastIndex cs sub of
        Some i \<Rightarrow> Some (Suc i)
      | None \<Rightarrow> if HasPrefix (c # cs) sub then Some 0 else None)"

fun SplitBy :: "(char \<Rightarrow> bool) \<Rightarrow> string \<Rightarrow> string list" where
  "SplitBy p [] = [[]]"
| "SplitBy p (c # cs) =
     (if p c then [] # SplitBy p cs
      else (case SplitBy p cs of [] \<Rightarrow> [[c]] | f # fs \<Rightarrow> (c # f) # fs))"

definition FieldsFunc :: "(char \<Rightarrow> bool) \<Rightarrow> string \<Rightarrow> string list" where
  "FieldsFunc p s = filter (\<lambda>f. f \<noteq> []) (SplitBy p s)"

text \<open>\<open>strings.SplitN(s, sep, 2)\<close> for a one-byte separator: \<open>None\<close> when it yields one part.\<close>

definition SplitN2 :: "char \<Rightarrow> string \<Rightarrow> (string \<times> string) option" where
  "SplitN2 sep s =
     (if sep \<in> set s then Some (takeWhile (\<lambda>c. c \<noteq> sep) s, tl (dropWhile (\<lambda>c. c \<noteq> sep) s))
      else None)"

definition TrimRightChar :: "char \<Rightarrow> string \<Rightarrow> string" where
  "TrimRightChar x s = rev (dropWhile (\<lambda>c. c = x) (rev s))"

lemma HasPrefix_append [simp]: "HasPrefix (p @ s) p"
  by (simp add: HasPrefix_def)

lemma HasPrefix_length: "HasPrefix s p \<Longrightarrow> length p \<le> length s"
  by (metis HasPrefix_def length_take min.absorb_iff1 min.commute)

lemma HasPrefix_nth: "HasPrefix s p \<Longrightarrow> i < length p \<Longrightarrow> s ! i = p ! i"
  by (metis HasPrefix_def nth_take)

lemma LastIndex_prefix: "LastIndex s sub = Some i \<Longrightarrow> i \<le> length s \<and> HasPrefix (drop i s) sub"
  by (induction s arbitrary: i) (auto simp: HasPrefix_def split: option.splits if_splits)

lemma LastIndex_None: "LastIndex s sub = None \<Longrightarrow> j \<le> length s \<Longrightarrow> \<not> HasPrefix (drop j s) sub"
proof (induction s arbitrary: j)
  case Nil
  then show ?case by (auto simp: HasPrefix_def split: if_splits)
next
  case (Cons c cs)
  then show ?case by (cases j) (auto split: option.splits if_splits)
qed

lemma LastIndex_last:
  "LastIndex s sub = Some i \<Longrightarrow> i < j \<Longrightarrow> j \<le> length s \<Longrightarrow> \<not> HasPrefix (drop j s) sub"
proof (induction s arbitrary: i j)
  case Nil
  then show ?case by simp
next
  case (Cons c cs)
  then obtain j' where j: "j = Suc j'" by (cases j) auto
  show ?case
  proof (cases "LastIndex cs sub")
    case None
    with Cons.prems j show ?thesis by (auto dest: LastIndex_None)
  next
    case (Some i')
    with Cons.prems j show ?thesis using Cons.IH [OF Some] by auto
  qed
qed

lemma LastIndex_eqI:
  assumes "i \<le> length s" and "HasPrefix (drop i s) sub"
    and "\<And>j. i < j \<Longrightarrow> j \<le> length s \<Longrightarrow> \<not> HasPrefix (drop j s) sub"
  shows "LastIndex s sub = Some i"
proof (cases "LastIndex s sub")
  case None
  with assms(1,2) show ?thesis by (auto dest: LastIndex_None)
next
  case (Some k)
  with assms have "\<not> i < k" "\<not> k < i"
    by (auto dest: LastIndex_prefix LastIndex_last)
  with Some show ?thesis by simp
qed

lemma SplitBy_not_Nil [simp]: "SplitBy p s \<noteq> []"
  by (induction s) (auto split: list.splits)

lemma SplitBy_no_sep: "f \<in> set (SplitBy p s) \<Longrightarrow> c \<in> set f \<Longrightarrow> \<not> p c \<and> c \<in> set s"
proof (induction s arbitrary: f)
  case Nil
  then show ?case by simp
next
  case (Cons a s)
  then show ?case by (fastforce split: if_splits list.splits)
qed

lemma FieldsFunc_no_sep: "f \<in> set (FieldsFunc p s) \<Longrightarrow> c \<in> set f \<Longrightarrow> \<not> p c \<and> c \<in> set s"
  by (auto simp: FieldsFunc_def dest: SplitBy_no_sep)

lemma SplitN2_Some: "SplitN2 sep s = Some (a, b) \<longleftrightarrow> s = a @ sep # b \<and> sep \<notin> set a"
proof
  assume "SplitN2 sep s = Some (a, b)"
  then have in_s: "sep \<in> set s" and a: "a = takeWhile (\<lambda>c. c \<noteq> sep) s"
    and b: "b = tl (dropWhile (\<lambda>c. c \<noteq> sep) s)"
    by (auto simp: SplitN2_def split: if_splits)
  from in_s have ne: "dropWhile (\<lambda>c. c \<noteq> sep) s \<noteq> []" by (simp add: dropWhile_eq_Nil_conv)
  then have "hd (dropWhile (\<lambda>c. c \<noteq> sep) s) = sep"
    by (metis (mono_tags) hd_dropWhile)
  with ne b have "dropWhile (\<lambda>c. c \<noteq> sep) s = sep # b" by (metis list.collapse)
  with a show "s = a @ sep # b \<and> sep \<notin> set a"
    by (metis set_takeWhileD takeWhile_dropWhile_id)
next
  assume s: "s = a @ sep # b \<and> sep \<notin> set a"
  then have "takeWhile (\<lambda>c. c \<noteq> sep) s = a" "dropWhile (\<lambda>c. c \<noteq> sep) s = sep # b"
    by (auto simp: takeWhile_append dropWhile_append)
  with s show "SplitN2 sep s = Some (a, b)" by (simp add: SplitN2_def)
qed

section \<open>White space\<close>

definition space_encodings :: "string list" where
  "space_encodings =
     [[CHR 0x09], [CHR 0x0A], [CHR 0x0B], [CHR 0x0C], [CHR 0x0D], [CHR 0x20],
      [CHR 0xC2, CHR 0x85], [CHR 0xC2, CHR 0xA0], [CHR 0xE1, CHR 0x9A, CHR 0x80]]
     @ map (\<lambda>b. [CHR 0xE2, CHR 0x80, b])
         [CHR 0x80, CHR 0x81, CHR 0x82, CHR 0x83, CHR 0x84, CHR 0x85, CHR 0x86, CHR 0x87,
          CHR 0x88, CHR 0x89, CHR 0x8A, CHR 0xA8, CHR 0xA9, CHR 0xAF]
     @ [[CHR 0xE2, CHR 0x81, CHR 0x9F], [CHR 0xE3, CHR 0x80, CHR 0x80]]"

text \<open>The length of the element of \<open>encs\<close> that \<open>s\<close> starts with, 0 when there is none.\<close>

definition lead_len :: "string list \<Rightarrow> string \<Rightarrow> nat" where
  "lead_len encs s = (case find (HasPrefix s) encs of None \<Rightarrow> 0 | Some e \<Rightarrow> length e)"

function trim_lead :: "string list \<Rightarrow> string \<Rightarrow> string" where
  "trim_lead encs s =
     (if lead_len encs s = 0 \<or> s = [] then s else trim_lead encs (drop (lead_len encs s) s))"
  by pat_completeness auto
termination
  by (relation "measure (\<lambda>(encs, s). length s)") auto

declare trim_lead.simps [simp del]

definition TrimSpace :: "string \<Rightarrow> string" where
  "TrimSpace s = rev (trim_lead (map rev space_encodings) (rev (trim_lead space_encodings s)))"

lemma trim_lead_suffix: "\<exists>p. s = p @ trim_lead encs s"
proof (induction encs s rule: trim_lead.induct)
  case (1 encs s)
  show ?case
  proof (cases "lead_len encs s = 0 \<or> s = []")
    case True
    then show ?thesis by (auto simp: trim_lead.simps [of encs s])
  next
    case False
    with "1.IH" obtain p where "drop (lead_len encs s) s = p @ trim_lead encs (drop (lead_len encs s) s)"
      by blast
    with False have "s = (take (lead_len encs s) s @ p) @ trim_lead encs s"
      by (metis append.assoc append_take_drop_id trim_lead.simps)
    then show ?thesis by blast
  qed
qed

lemma trim_lead_set: "set (trim_lead encs s) \<subseteq> set s"
  using trim_lead_suffix [of s encs] by (metis le_supI2 set_append subset_refl)

lemma TrimSpace_set: "set (TrimSpace s) \<subseteq> set s"
  using trim_lead_set [of "map rev space_encodings" "rev (trim_lead space_encodings s)"]
    trim_lead_set [of space_encodings s]
  by (auto simp: TrimSpace_def)

lemma trim_lead_Nil [simp]: "trim_lead encs [] = []"
  by (simp add: trim_lead.simps)

lemma TrimSpace_Nil [simp]: "TrimSpace [] = []"
  by (simp add: TrimSpace_def)

text \<open>A string whose bytes are all printable ASCII other than the blank is left as it is.\<close>

definition graphic :: "char \<Rightarrow> bool" where
  "graphic c \<longleftrightarrow> 33 \<le> byte c \<and> byte c \<le> 126"

lemma lead_len_graphic:
  assumes "list_all graphic s" and "\<forall>e \<in> set encs. e \<noteq> [] \<and> \<not> graphic (hd e)"
  shows "lead_len encs s = 0"
proof -
  have "\<not> HasPrefix s e" if "e \<in> set encs" for e
  proof (cases s)
    case Nil
    with assms that show ?thesis by (auto simp: HasPrefix_def)
  next
    case (Cons c s')
    with assms(1) have "graphic c" by simp
    with assms(2) that show ?thesis by (cases e) (auto simp: HasPrefix_def Cons)
  qed
  then have "find (HasPrefix s) encs = None" by (auto simp: find_None_iff)
  then show ?thesis by (simp add: lead_len_def)
qed

lemma space_encodings_heads:
  "\<forall>e \<in> set space_encodings. e \<noteq> [] \<and> \<not> graphic (hd e)"
  "\<forall>e \<in> set (map rev space_encodings). e \<noteq> [] \<and> \<not> graphic (hd e)"
  by (simp_all add: space_encodings_def graphic_def)

lemma TrimSpace_graphic: "list_all graphic s \<Longrightarrow> TrimSpace s = s"
  by (simp add: TrimSpace_def trim_lead.simps [of space_encodings s]
      trim_lead.simps [of _ "rev s"] lead_len_graphic space_encodings_heads list_all_rev
      del: list.map)

section \<open>Decimal numbers\<close>

fun show_nat :: "nat \<Rightarrow> string" where
  "show_nat n = (if n < 10 then [digit_char n] else show_nat (n div 10) @ [digit_char (n mod 10)])"

declare show_nat.simps [simp del]

text \<open>\<open>strconv.Itoa\<close>, and \<open>fmt.Sprint\<close> of an \<open>int\<close>.\<close>

definition Itoa :: "i64 \<Rightarrow> string" where
  "Itoa x = (if sint x < 0 then CHR ''-'' # show_nat (nat (- sint x)) else show_nat (nat (sint x)))"

definition digits_val :: "string \<Rightarrow> nat" where
  "digits_val s = foldl (\<lambda>n c. 10 * n + digit_val c) 0 s"

definition parse_digits :: "string \<Rightarrow> nat option" where
  "parse_digits s = (if s = [] \<or> \<not> list_all is_digit s then None else Some (digits_val s))"

text \<open>\<open>strconv.Atoi\<close>; \<open>None\<close> is any of its errors (syntax, range).\<close>

definition Atoi :: "string \<Rightarrow> i64 option" where
  "Atoi s =
     (let neg = (s \<noteq> [] \<and> hd s = CHR ''-'');
          ds = (if s \<noteq> [] \<and> (hd s = CHR ''-'' \<or> hd s = CHR ''+'') then tl s else s)
      in case parse_digits ds of
           None \<Rightarrow> None
         | Some n \<Rightarrow>
             (let v = (if neg then - int n else int n)
              in if - (2 ^ 63) \<le> v \<and> v < 2 ^ 63 then Some (word_of_int v) else None))"

text \<open>\<open>strconv.ParseUint(s, 10, bits)\<close>.\<close>

definition ParseUint :: "nat \<Rightarrow> string \<Rightarrow> nat option" where
  "ParseUint bits s =
     (case parse_digits s of
        None \<Rightarrow> None
      | Some n \<Rightarrow> if n < 2 ^ bits then Some n else None)"

lemma show_nat_digits: "list_all is_digit (show_nat n)"
  by (induction n rule: show_nat.induct) (subst show_nat.simps, simp)

lemma show_nat_not_Nil [simp]: "show_nat n \<noteq> []"
  by (subst show_nat.simps) simp

lemma digits_val_snoc: "digits_val (s @ [c]) = 10 * digits_val s + digit_val c"
  by (simp add: digits_val_def)

lemma digits_val_show_nat: "digits_val (show_nat n) = n"
proof (induction n rule: show_nat.induct)
  case (1 n)
  show ?case
  proof (cases "n < 10")
    case True
    then show ?thesis by (simp add: show_nat.simps [of n] digits_val_def)
  next
    case False
    with "1.IH" show ?thesis by (simp add: show_nat.simps [of n] digits_val_snoc)
  qed
qed

lemma parse_digits_show_nat [simp]: "parse_digits (show_nat n) = Some n"
  by (simp add: parse_digits_def show_nat_digits digits_val_show_nat)

lemma show_nat_hd: "is_digit (hd (show_nat n))"
  using show_nat_digits [of n] by (cases "show_nat n") auto

lemma sint_i64_bounds: "- (2 ^ 63) \<le> sint (x :: i64)" "sint (x :: i64) < 2 ^ 63"
  using sint_greater_eq [of x] sint_less [of x] by simp_all

lemma Atoi_Itoa [simp]: "Atoi (Itoa x) = Some x"
proof (cases "sint x < 0")
  case True
  then show ?thesis
    using sint_i64_bounds [of x] by (simp add: Atoi_def Itoa_def)
next
  case False
  then have "hd (show_nat (nat (sint x))) \<noteq> CHR ''-''" "hd (show_nat (nat (sint x))) \<noteq> CHR ''+''"
    using show_nat_hd [of "nat (sint x)"] by (auto simp: is_digit_def)
  with False show ?thesis
    using sint_i64_bounds [of x] by (simp add: Atoi_def Itoa_def)
qed

lemma Itoa_inject [simp]: "Itoa x = Itoa y \<longleftrightarrow> x = y"
  by (metis Atoi_Itoa option.inject)

lemma Itoa_not_Nil [simp]: "Itoa x \<noteq> []"
  by (simp add: Itoa_def)

end
