(* ===== verification/Netip.thy ===== *)
theory Netip
  imports Go_Strings "HOL-Library.Code_Target_Nat"
begin

unbundle bit_operations_syntax

text \<open>
  Go's \<open>net/netip\<close> addresses and prefixes and \<open>net.SplitHostPort\<close>, as far as the agent uses
  them: \<open>ParseAddr\<close>, \<open>Addr.String\<close>, \<open>ParsePrefix\<close>, \<open>PrefixFrom\<close>, \<open>Prefix.Masked\<close>,
  \<open>Prefix.Contains\<close>. An error is \<open>None\<close>: the agent only tests for it or quotes its text.

  An address is its 32 or 128 bits with the zone of an IPv6 address; \<open>ParseAddr\<close> of an
  IPv4-mapped address gives an IPv6 address. The lemmas show that printing an IPv4 address and
  parsing it gives the address back, and that a prefix contains exactly the addresses of its
  family that agree with it on the leading bits.
\<close>

datatype addr = IPv4 "32 word" | IPv6 "128 word" string

section \<open>Parsing\<close>

definition parse_octet :: "string \<Rightarrow> nat option" where
  "parse_octet f =
     (if f = [] \<or> \<not> list_all is_digit f \<or> (1 < length f \<and> hd f = CHR ''0'') \<or> 255 < digits_val f
      then None else Some (digits_val f))"

definition parseIPv4Fields :: "string \<Rightarrow> nat list option" where
  "parseIPv4Fields s =
     (case map parse_octet (SplitBy (\<lambda>c. c = CHR ''.'') s) of
        [Some a, Some b, Some c, Some d] \<Rightarrow> Some [a, b, c, d]
      | _ \<Rightarrow> None)"

definition bytes_val :: "nat list \<Rightarrow> nat" where
  "bytes_val bs = foldl (\<lambda>n b. 256 * n + b) 0 bs"

definition hex_val :: "char \<Rightarrow> nat option" where
  "hex_val c =
     (if is_digit c then Some (byte c - 48)
      else if 97 \<le> byte c \<and> byte c \<le> 102 then Some (byte c - 87)
      else if 65 \<le> byte c \<and> byte c \<le> 70 then Some (byte c - 55)
      else None)"

definition hexes_val :: "string \<Rightarrow> nat" where
  "hexes_val s = foldl (\<lambda>n c. 16 * n + the (hex_val c)) 0 s"

text \<open>
  The loop of \<open>parseIPv6\<close>: \<open>ell\<close> is the position of the ellipsis, \<open>ip\<close> the bytes so far, \<open>s\<close>
  what is left of the input. The result has the same parts.
\<close>

function v6_loop :: "nat option \<Rightarrow> nat list \<Rightarrow> string \<Rightarrow> (nat option \<times> nat list \<times> string) option" where
  "v6_loop ell ip s =
     (if length ip < 16 then
        (let ds = takeWhile (\<lambda>c. hex_val c \<noteq> None) s; off = length ds
         in if 4 < off \<or> off = 0 then None
            else if off < length s \<and> s ! off = CHR ''.'' then
              (if ell = None \<and> length ip \<noteq> 12 then None
               else if 16 < length ip + 4 then None
               else map_option (\<lambda>f. (ell, ip @ f, [])) (parseIPv4Fields s))
            else
              (let ip = ip @ [hexes_val ds div 256, hexes_val ds mod 256]; s = drop off s
               in if s = [] then Some (ell, ip, s)
                  else if hd s \<noteq> CHR '':'' \<or> length s = 1 then None
                  else
                    (let s = tl s
                     in if hd s = CHR '':'' then
                          (if ell \<noteq> None then None
                           else if tl s = [] then Some (Some (length ip), ip, [])
                           else v6_loop (Some (length ip)) ip (tl s))
                        else v6_loop ell ip s)))
      else Some (ell, ip, s))"
  by pat_completeness auto
termination
  by (relation "measure (\<lambda>(ell, ip, s). 16 - length ip)") auto

declare v6_loop.simps [simp del]

definition expand_v6 :: "nat option \<times> nat list \<times> string \<Rightarrow> nat list option" where
  "expand_v6 r =
     (case r of (ell, ip, s) \<Rightarrow>
        if s \<noteq> [] then None
        else if length ip < 16 then
          (case ell of
             None \<Rightarrow> None
           | Some e \<Rightarrow> Some (take e ip @ replicate (16 - length ip) 0 @ drop e ip))
        else if ell \<noteq> None then None
        else Some ip)"

definition parseIPv6 :: "string \<Rightarrow> addr option" where
  "parseIPv6 input =
     (let (s, zone) = (case SplitN2 CHR ''%'' input of None \<Rightarrow> (input, None) | Some (s, z) \<Rightarrow> (s, Some z))
      in if zone = Some [] then None
         else
           (let z = (case zone of None \<Rightarrow> [] | Some z \<Rightarrow> z);
                (ell, s') = (if HasPrefix s ''::'' then (Some 0, drop 2 s) else (None, s))
            in if ell = Some 0 \<and> s' = [] then Some (IPv6 0 z)
               else
                 (case Option.bind (v6_loop ell [] s') expand_v6 of
                    None \<Rightarrow> None
                  | Some bs \<Rightarrow> Some (IPv6 (of_nat (bytes_val bs)) z))))"

definition parseIPv4 :: "string \<Rightarrow> addr option" where
  "parseIPv4 s = map_option (\<lambda>f. IPv4 (of_nat (bytes_val f))) (parseIPv4Fields s)"

definition ParseAddr :: "string \<Rightarrow> addr option" where
  "ParseAddr s =
     (case find (\<lambda>c. c \<in> {CHR ''.'', CHR '':'', CHR ''%''}) s of
        None \<Rightarrow> None
      | Some c \<Rightarrow>
          if c = CHR ''.'' then parseIPv4 s
          else if c = CHR '':'' then parseIPv6 s
          else None)"

section \<open>Printing\<close>

definition octet :: "nat \<Rightarrow> nat \<Rightarrow> nat" where
  "octet n k = n div 256 ^ k mod 256"

fun join :: "string \<Rightarrow> string list \<Rightarrow> string" where
  "join sep [] = []"
| "join sep [x] = x"
| "join sep (x # y # xs) = x @ sep @ join sep (y # xs)"

definition string4 :: "32 word \<Rightarrow> string" where
  "string4 w = join ''.'' (map (\<lambda>k. show_nat (octet (unat w) k)) [3, 2, 1, 0])"

definition hex_char :: "nat \<Rightarrow> char" where
  "hex_char d = (if d < 10 then digit_char d else char_of (87 + d))"

fun show_hex :: "nat \<Rightarrow> string" where
  "show_hex n = (if n < 16 then [hex_char n] else show_hex (n div 16) @ [hex_char (n mod 16)])"

declare show_hex.simps [simp del]

definition groups6 :: "128 word \<Rightarrow> nat list" where
  "groups6 w = map (\<lambda>k. unat w div 65536 ^ k mod 65536) [7, 6, 5, 4, 3, 2, 1, 0]"

text \<open>The first longest run of at least two zero groups: its start and its end.\<close>

definition zero_run :: "nat list \<Rightarrow> (nat \<times> nat) option" where
  "zero_run gs =
     foldl (\<lambda>best i.
         let l = length (takeWhile (\<lambda>g. g = 0) (drop i gs))
         in if 2 \<le> l \<and> (case best of None \<Rightarrow> 0 | Some (a, e) \<Rightarrow> e - a) < l then Some (i, i + l) else best)
       None [0..<length gs]"

definition string6 :: "128 word \<Rightarrow> string" where
  "string6 w =
     (let gs = groups6 w; hs = map show_hex gs
      in case zero_run gs of
           None \<Rightarrow> join '':'' hs
         | Some (a, e) \<Rightarrow> join '':'' (take a hs) @ ''::'' @ join '':'' (drop e hs))"

definition Is4In6 :: "128 word \<Rightarrow> bool" where
  "Is4In6 w \<longleftrightarrow> drop_bit 32 w = 0xFFFF"

definition zone_suffix :: "string \<Rightarrow> string" where
  "zone_suffix z = (if z = [] then [] else CHR ''%'' # z)"

fun Addr_String :: "addr \<Rightarrow> string" where
  "Addr_String (IPv4 w) = string4 w"
| "Addr_String (IPv6 w z) =
     (if Is4In6 w then ''::ffff:'' @ string4 (ucast w) @ zone_suffix z
      else string6 w @ zone_suffix z)"

section \<open>Prefixes\<close>

datatype prefix = Prefix addr nat

fun withoutZone :: "addr \<Rightarrow> addr" where
  "withoutZone (IPv4 w) = IPv4 w"
| "withoutZone (IPv6 w z) = IPv6 w []"

fun BitLen :: "addr \<Rightarrow> nat" where
  "BitLen (IPv4 w) = 32"
| "BitLen (IPv6 w z) = 128"

fun hasZone :: "addr \<Rightarrow> bool" where
  "hasZone (IPv4 w) = False"
| "hasZone (IPv6 w z) = (z \<noteq> [])"

definition PrefixFrom :: "addr \<Rightarrow> nat \<Rightarrow> prefix" where
  "PrefixFrom a bits = Prefix (withoutZone a) bits"

definition ParsePrefix :: "string \<Rightarrow> prefix option" where
  "ParsePrefix s =
     (case LastIndex s ''/'' of
        None \<Rightarrow> None
      | Some i \<Rightarrow>
          (case ParseAddr (take i s) of
             None \<Rightarrow> None
           | Some ip \<Rightarrow>
               if hasZone ip then None
               else
                 (let bitsStr = drop (i + 1) s
                  in if 1 < length bitsStr \<and> \<not> (49 \<le> byte (hd bitsStr) \<and> byte (hd bitsStr) \<le> 57) then None
                     else
                       (case Atoi bitsStr of
                          None \<Rightarrow> None
                        | Some bits \<Rightarrow>
                            if sint bits < 0 \<or> int (BitLen ip) < sint bits then None
                            else Some (PrefixFrom ip (nat (sint bits)))))))"

fun Masked :: "prefix \<Rightarrow> prefix" where
  "Masked (Prefix (IPv4 w) b) = Prefix (IPv4 (push_bit (32 - b) (drop_bit (32 - b) w))) b"
| "Masked (Prefix (IPv6 w z) b) = Prefix (IPv6 (push_bit (128 - b) (drop_bit (128 - b) w)) z) b"

fun Prefix_Contains :: "prefix \<Rightarrow> addr \<Rightarrow> bool" where
  "Prefix_Contains (Prefix (IPv4 p) b) (IPv4 w) = (drop_bit (32 - b) (w XOR p) = 0)"
| "Prefix_Contains (Prefix (IPv6 p _) b) (IPv6 w z) = (z = [] \<and> drop_bit (128 - b) (w XOR p) = 0)"
| "Prefix_Contains _ _ = False"

section \<open>Host and port\<close>

definition SplitHostPort :: "string \<Rightarrow> (string \<times> string) option" where
  "SplitHostPort hp =
     (case LastIndex hp '':'' of
        None \<Rightarrow> None
      | Some i \<Rightarrow>
          if hd hp = CHR ''['' then
            (if CHR '']'' \<notin> set hp then None
             else
               (let e = length (takeWhile (\<lambda>c. c \<noteq> CHR '']'') hp)
                in if e + 1 \<noteq> i then None
                   else if CHR ''['' \<in> set (drop 1 hp) \<or> CHR '']'' \<in> set (drop (e + 1) hp) then None
                   else Some (drop 1 (take e hp), drop (i + 1) hp)))
          else if CHR '':'' \<in> set (take i hp) then None
          else if CHR ''['' \<in> set hp \<or> CHR '']'' \<in> set hp then None
          else Some (take i hp, drop (i + 1) hp))"

section \<open>IPv4 addresses print and parse back\<close>

lemma SplitBy_append: "list_all (\<lambda>c. \<not> p c) a \<Longrightarrow> p sep \<Longrightarrow> SplitBy p (a @ sep # b) = a # SplitBy p b"
  by (induction a) auto

lemma SplitBy_none: "list_all (\<lambda>c. \<not> p c) a \<Longrightarrow> SplitBy p a = [a]"
  by (induction a) auto

lemma show_nat_no_zero: "0 < n \<Longrightarrow> hd (show_nat n) \<noteq> CHR ''0''"
proof (induction n rule: show_nat.induct)
  case (1 n)
  show ?case
  proof (cases "n < 10")
    case True
    with "1.prems" show ?thesis
      using byte_digit_char [of n] by (auto simp: show_nat.simps [of n] dest: arg_cong [where f = byte])
  next
    case False
    with "1.IH" show ?thesis by (simp add: show_nat.simps [of n])
  qed
qed

lemma parse_octet_show_nat: "n < 256 \<Longrightarrow> parse_octet (show_nat n) = Some n"
  using show_nat_no_zero [of n]
  using digits_val_show_nat [of n] show_nat_digits [of n]
  by (cases "n = 0") (auto simp: parse_octet_def show_nat.simps [of 0])

lemma show_nat_no_sep: "\<not> is_digit sep \<Longrightarrow> list_all (\<lambda>c. \<not> c = sep) (show_nat n)"
  using show_nat_digits [of n] by (auto simp: list_all_iff)

lemma octet_less [simp]: "octet n k < 256"
  by (simp add: octet_def)

lemma bytes_val_octets:
  assumes "n < 2 ^ 32"
  shows "bytes_val [octet n 3, octet n 2, octet n 1, octet n 0] = n"
proof -
  have "n div 256 ^ 3 < 256" using assms by (simp add: less_mult_imp_div_less)
  then have "n div 16777216 mod 256 = n div 16777216" by simp
  moreover have "n div 65536 = 256 * (n div 16777216) + n div 65536 mod 256"
    using mult_div_mod_eq [of 256 "n div 65536"] by (simp flip: div_mult2_eq)
  moreover have "n div 256 = 256 * (n div 65536) + n div 256 mod 256"
    using mult_div_mod_eq [of 256 "n div 256"] by (simp flip: div_mult2_eq)
  moreover have "n = 256 * (n div 256) + n mod 256" by simp
  ultimately show ?thesis by (simp add: bytes_val_def octet_def)
qed

lemma parseIPv4Fields_string4:
  "parseIPv4Fields (string4 w) = Some (map (octet (unat w)) [3, 2, 1, 0])"
  by (simp add: parseIPv4Fields_def string4_def SplitBy_append SplitBy_none show_nat_no_sep
      is_digit_def parse_octet_show_nat)

lemma find_first: "list_all (\<lambda>c. \<not> p c) a \<Longrightarrow> p x \<Longrightarrow> find p (a @ x # b) = Some x"
  by (induction a) auto

lemma string4_first: "find (\<lambda>c. c \<in> {CHR ''.'', CHR '':'', CHR ''%''}) (string4 w) = Some CHR ''.''"
proof -
  have "list_all (\<lambda>c. c \<notin> {CHR ''.'', CHR '':'', CHR ''%''}) (show_nat n)" for n
    using show_nat_digits [of n] by (auto simp: list_all_iff is_digit_def)
  from find_first [OF this] show ?thesis by (simp add: string4_def)
qed

lemma ParseAddr_string4: "ParseAddr (string4 w) = Some (IPv4 w)"
proof -
  have "unat w < 2 ^ 32" by (rule order.strict_trans2 [OF unsigned_less]) simp
  from bytes_val_octets [OF this] have "parseIPv4 (string4 w) = Some (IPv4 w)"
    by (simp add: parseIPv4_def parseIPv4Fields_string4)
  with string4_first show ?thesis by (simp add: ParseAddr_def)
qed

section \<open>What a prefix contains\<close>

lemma drop_bit_eq_0_iff:
  "drop_bit (LENGTH('a) - b) (w XOR p) = 0 \<longleftrightarrow> (\<forall>i < b. bit w (LENGTH('a) - 1 - i) = bit p (LENGTH('a) - 1 - i))"
  if "b \<le> LENGTH('a)" for w p :: "'a::len word"
proof
  assume z: "drop_bit (LENGTH('a) - b) (w XOR p) = 0"
  show "\<forall>i < b. bit w (LENGTH('a) - 1 - i) = bit p (LENGTH('a) - 1 - i)"
  proof (intro allI impI)
    fix i assume i: "i < b"
    from z have "\<not> bit (drop_bit (LENGTH('a) - b) (w XOR p)) (b - 1 - i)" by simp
    moreover have "LENGTH('a) - b + (b - 1 - i) = LENGTH('a) - 1 - i" using that i by simp
    ultimately show "bit w (LENGTH('a) - 1 - i) = bit p (LENGTH('a) - 1 - i)"
      by (simp add: bit_simps)
  qed
next
  assume same: "\<forall>i < b. bit w (LENGTH('a) - 1 - i) = bit p (LENGTH('a) - 1 - i)"
  have "bit w (LENGTH('a) - b + n) = bit p (LENGTH('a) - b + n)" for n
  proof (cases "n < b")
    case True
    then have "LENGTH('a) - 1 - (b - 1 - n) = LENGTH('a) - b + n" "b - 1 - n < b" using that by auto
    with same show ?thesis by metis
  next
    case False
    then have "LENGTH('a) \<le> LENGTH('a) - b + n" using that by simp
    then show ?thesis by (metis bit_imp_le_length not_le)
  qed
  then show "drop_bit (LENGTH('a) - b) (w XOR p) = 0"
    by (intro bit_word_eqI) (simp add: bit_simps)
qed

lemma drop_bit_masked: "drop_bit n (push_bit n (drop_bit n p)) = drop_bit n (p :: 'a::len word)"
  by (rule bit_word_eqI) (auto simp: bit_simps dest: bit_imp_le_length)

lemma Masked_Masked [simp]: "Masked (Masked p) = Masked p"
  by (cases p rule: Masked.cases) (simp_all add: drop_bit_masked)

lemma Contains_Masked: "Prefix_Contains (Masked p) a = Prefix_Contains p a"
  by (cases p; cases a; (cases "case p of Prefix b _ \<Rightarrow> b")?)
    (auto simp: drop_bit_masked split: addr.splits)

text \<open>The address agrees with the prefix on its leading bits; families do not mix.\<close>

fun leading_bits_agree :: "nat \<Rightarrow> addr \<Rightarrow> addr \<Rightarrow> bool" where
  "leading_bits_agree b (IPv4 p) (IPv4 w) = (\<forall>i < b. bit w (31 - i) = bit p (31 - i))"
| "leading_bits_agree b (IPv6 p _) (IPv6 w z) = (z = [] \<and> (\<forall>i < b. bit w (127 - i) = bit p (127 - i)))"
| "leading_bits_agree b _ _ = False"

lemma Prefix_Contains_iff:
  "b \<le> BitLen p \<Longrightarrow> Prefix_Contains (Prefix p b) a \<longleftrightarrow> leading_bits_agree b p a"
  using drop_bit_eq_0_iff [where 'a = 32, of b] drop_bit_eq_0_iff [where 'a = 128, of b]
  by (cases p; cases a) auto

end
