(* ===== verification/Source_Tags.thy ===== *)
theory Source_Tags
  imports Netip
begin

text \<open>
  Source labels: \<open>SourceClassifier\<close>, \<open>normalizePeerIP\<close> and \<open>normalizeInboundTag\<close> of
  \<open>session_tracker.go\<close>, the tags of \<open>main.go\<close> (\<open>sourceInboundTag\<close>, \<open>parseSourceBucketSpecs\<close>,
  \<open>parseSourceDropLabels\<close>) and their inverse in \<open>panelapi/source_map.go\<close> (\<open>splitSourceInbound\<close>,
  \<open>ParseSourceServerMap\<close>).

  A \<open>*SourceClassifier\<close> is the list of its rules, \<open>None\<close> when nil. The counters of a labelled
  source are kept under the tag \<open>inbound@source=label\<close>; the panel side takes the tag apart
  again. The lemmas show that it gets back what the data plane put in, because a parsed label has
  no \<open>=\<close>.
\<close>

section \<open>Tags\<close>

definition sourceTagMarker :: string where
  "sourceTagMarker = ''@source=''"

definition normalizeInboundTag :: "string \<Rightarrow> string" where
  "normalizeInboundTag value = (if TrimSpace value = [] then ''default'' else value)"

definition splitSourceInbound :: "string \<Rightarrow> string \<times> string" where
  "splitSourceInbound inbound =
     (let (baseInbound, source) =
        (case LastIndex inbound sourceTagMarker of
           None \<Rightarrow> (inbound, [])
         | Some idx \<Rightarrow> (take idx inbound, drop (idx + length sourceTagMarker) inbound))
      in (if TrimSpace baseInbound = [] then ''default'' else baseInbound, source))"

text \<open>One pass of the loop over the fields; an error ends it.\<close>

definition server_map_field ::
  "error + (string, string) gomap \<Rightarrow> string \<Rightarrow> error + (string, string) gomap" where
  "server_map_field out raw =
     (case out of
        Inl err \<Rightarrow> Inl err
      | Inr m \<Rightarrow>
          (let raw = TrimSpace raw
           in if raw = [] then Inr m
              else
                (case SplitN2 CHR ''='' raw of
                   None \<Rightarrow> Inl (Errorf ''source server map %q must use label=node_id'' [raw])
                 | Some (a, b) \<Rightarrow>
                     (let label = TrimSpace a; nodeID = TrimSpace b
                      in if label = [] \<or> nodeID = []
                         then Inl (Errorf ''source server map %q must include label and node_id'' [raw])
                         else Inr (mput label nodeID m)))))"

definition ParseSourceServerMap :: "string \<Rightarrow> error + (string, string) gomap" where
  "ParseSourceServerMap spec =
     foldl server_map_field (Inr []) (FieldsFunc (\<lambda>c. c = CHR '','' \<or> c = CHR '';'') spec)"

definition parseSourceDropLabels :: "string \<Rightarrow> (string, bool) gomap" where
  "parseSourceDropLabels spec =
     foldl (\<lambda>out label.
         let label = TrimSpace label in if label \<noteq> [] then mput label True out else out)
       [] (FieldsFunc (\<lambda>c. c = CHR '','' \<or> c = CHR '';'' \<or> c = CHR ''+'') spec)"

definition parseSourceBucketSpecs :: "string \<Rightarrow> string list" where
  "parseSourceBucketSpecs spec =
     (let spec = TrimSpace spec
      in if spec = [] then [] else FieldsFunc (\<lambda>c. c = CHR '';'' \<or> c = CHR ''+'') spec)"

section \<open>Peers\<close>

definition normalizePeerIP :: "string \<Rightarrow> string" where
  "normalizePeerIP value =
     (let value = TrimSpace value
      in if value = [] then []
         else
           (case ParseAddr value of
              Some addr \<Rightarrow> Addr_String addr
            | None \<Rightarrow>
                (case SplitHostPort value of
                   Some (host, _) \<Rightarrow>
                     (case ParseAddr host of Some addr \<Rightarrow> Addr_String addr | None \<Rightarrow> host)
                 | None \<Rightarrow> value)))"

section \<open>The classifier\<close>

record source_rule =
  label :: string
  prefixes :: "prefix list"

definition parsePrefix :: "string \<Rightarrow> prefix option" where
  "parsePrefix value =
     (if Contains value ''/'' then ParsePrefix value
      else
        (case ParseAddr value of
           None \<Rightarrow> None
         | Some addr \<Rightarrow> Some (PrefixFrom addr (case addr of IPv6 _ _ \<Rightarrow> 128 | IPv4 _ \<Rightarrow> 32))))"

fun bucket_prefixes :: "string \<Rightarrow> string list \<Rightarrow> prefix list \<Rightarrow> error + prefix list" where
  "bucket_prefixes raw [] acc = Inr acc"
| "bucket_prefixes raw (c # cs) acc =
     (let candidate = TrimSpace c
      in if candidate = [] then bucket_prefixes raw cs acc
         else
           (case parsePrefix candidate of
              None \<Rightarrow> Inl (Wrap (''source bucket '' @ raw) (Extern ''netip''))
            | Some prefix \<Rightarrow> bucket_prefixes raw cs (acc @ [Masked prefix])))"

fun bucket_rules :: "string list \<Rightarrow> source_rule list \<Rightarrow> error + source_rule list" where
  "bucket_rules [] rules = Inr rules"
| "bucket_rules (raw # specs) rules =
     (let raw = TrimSpace raw
      in if raw = [] then bucket_rules specs rules
         else
           (case SplitN2 CHR ''='' raw of
              None \<Rightarrow> Inl (Errorf ''source bucket %q must use label=cidr[,cidr...]'' [raw])
            | Some (a, b) \<Rightarrow>
                (let l = TrimSpace a
                 in if l = [] then Inl (Errorf ''source bucket %q is missing a label'' [raw])
                    else
                      (case bucket_prefixes raw (SplitBy (\<lambda>c. c = CHR '','') b) [] of
                         Inl err \<Rightarrow> Inl err
                       | Inr ps \<Rightarrow>
                           if ps = []
                           then Inl (Errorf ''source bucket %q does not contain any CIDR'' [raw])
                           else bucket_rules specs (rules @ [\<lparr>label = l, prefixes = ps\<rparr>])))))"

definition ParseSourceBuckets :: "string list \<Rightarrow> error + source_rule list" where
  "ParseSourceBuckets specs = bucket_rules specs []"

definition Classify :: "source_rule list option \<Rightarrow> string \<Rightarrow> string" where
  "Classify c source =
     (let ip = normalizePeerIP source
      in if ip = [] then []
         else
           (case c of
              None \<Rightarrow> ip
            | Some rules \<Rightarrow>
                (case ParseAddr ip of
                   None \<Rightarrow> ip
                 | Some addr \<Rightarrow>
                     (case find (\<lambda>rule. list_ex (\<lambda>prefix. Prefix_Contains prefix addr) (prefixes rule)) rules of
                        Some rule \<Rightarrow> label rule
                      | None \<Rightarrow> ip))))"

text \<open>\<open>Hook.sourceInboundTag\<close>, with the hook's \<open>sourceTraffic\<close> and \<open>sourceClassifier\<close>.\<close>

definition sourceInboundTag :: "bool \<Rightarrow> source_rule list option \<Rightarrow> string \<Rightarrow> string \<Rightarrow> string" where
  "sourceInboundTag sourceTraffic classifier inbound source =
     (let inbound = (if TrimSpace inbound = [] then ''default'' else inbound)
      in if \<not> sourceTraffic \<or> classifier = None then inbound
         else
           (let l = Classify classifier source
            in if l = [] \<or> l = normalizePeerIP source then inbound
               else inbound @ ''@source='' @ l))"

section \<open>Parsed rules\<close>

text \<open>
  A prefix contains the addresses of its family that agree with it on its bits, when it has at
  most as many bits as they.
\<close>

definition in_prefix :: "prefix \<Rightarrow> addr \<Rightarrow> bool" where
  "in_prefix p a = (case p of Prefix q b \<Rightarrow> leading_bits_agree b q a)"

definition prefix_ok :: "prefix \<Rightarrow> bool" where
  "prefix_ok p = (case p of Prefix q b \<Rightarrow> b \<le> BitLen q)"

lemma prefix_ok_Contains: "prefix_ok p \<Longrightarrow> Prefix_Contains p a \<longleftrightarrow> in_prefix p a"
  by (cases p) (simp add: prefix_ok_def in_prefix_def Prefix_Contains_iff)

lemma prefix_ok_Masked: "prefix_ok (Masked p) \<longleftrightarrow> prefix_ok p"
  by (cases p rule: Masked.cases) (simp_all add: prefix_ok_def)

lemma BitLen_withoutZone [simp]: "BitLen (withoutZone a) = BitLen a"
  by (cases a) auto

lemma parsePrefix_ok: "parsePrefix v = Some p \<Longrightarrow> prefix_ok p"
  by (auto simp: parsePrefix_def ParsePrefix_def PrefixFrom_def prefix_ok_def Let_def
      split: if_splits option.splits addr.splits)

lemma bucket_prefixes_ok:
  "bucket_prefixes raw cs acc = Inr ps \<Longrightarrow> list_all prefix_ok acc \<Longrightarrow> list_all prefix_ok ps"
  by (induction raw cs acc rule: bucket_prefixes.induct)
    (auto simp: Let_def prefix_ok_Masked dest: parsePrefix_ok split: if_splits option.splits)

text \<open>A parsed rule has a trimmed label without \<open>=\<close> and a prefix, and its prefixes are masked.\<close>

definition rule_ok :: "source_rule \<Rightarrow> bool" where
  "rule_ok r \<longleftrightarrow> label r \<noteq> [] \<and> CHR ''='' \<notin> set (label r) \<and> prefixes r \<noteq> []
     \<and> (\<forall>p \<in> set (prefixes r). Masked p = p \<and> prefix_ok p)"

lemma bucket_prefixes_masked:
  "bucket_prefixes raw cs acc = Inr ps \<Longrightarrow> \<forall>p \<in> set acc. Masked p = p \<Longrightarrow> \<forall>p \<in> set ps. Masked p = p"
  by (induction raw cs acc rule: bucket_prefixes.induct)
    (auto simp: Let_def split: if_splits option.splits)

lemma label_no_eq: "SplitN2 CHR ''='' raw = Some (a, b) \<Longrightarrow> CHR ''='' \<notin> set (TrimSpace a)"
  using TrimSpace_set [of a] by (auto simp: SplitN2_Some)

lemma bucket_rules_ok:
  "bucket_rules specs rules = Inr rs \<Longrightarrow> \<forall>r \<in> set rules. rule_ok r \<Longrightarrow> \<forall>r \<in> set rs. rule_ok r"
proof (induction specs rules rule: bucket_rules.induct)
  case (1 rules)
  then show ?case by simp
next
  case (2 raw specs rules)
  show ?case
  proof (cases "TrimSpace raw = []")
    case True
    with "2.IH"(1) "2.prems" show ?thesis by (simp add: Let_def)
  next
    case False
    with "2.prems"(1) obtain a b ps where s: "SplitN2 CHR ''='' (TrimSpace raw) = Some (a, b)"
      "TrimSpace a \<noteq> []"
      "bucket_prefixes (TrimSpace raw) (SplitBy (\<lambda>c. c = CHR '','') b) [] = Inr ps" "ps \<noteq> []"
      "bucket_rules specs (rules @ [\<lparr>label = TrimSpace a, prefixes = ps\<rparr>]) = Inr rs"
      by (auto simp: Let_def split: option.splits if_splits sum.splits)
    with label_no_eq [OF s(1)] have "rule_ok \<lparr>label = TrimSpace a, prefixes = ps\<rparr>"
      using bucket_prefixes_masked [OF s(3)] bucket_prefixes_ok [OF s(3)] s(2,4)
      by (simp add: rule_ok_def list_all_iff)
    with "2.prems"(2) s False "2.IH"(2) [OF refl False s(1) refl refl s(2) s(3) s(4)]
    show ?thesis by auto
  qed
qed

lemma ParseSourceBuckets_ok: "ParseSourceBuckets specs = Inr rs \<Longrightarrow> r \<in> set rs \<Longrightarrow> rule_ok r"
  using bucket_rules_ok [of specs "[]" rs] by (auto simp: ParseSourceBuckets_def)

section \<open>Taking a tag apart\<close>

lemma Contains_iff_LastIndex: "Contains s sub \<longleftrightarrow> LastIndex s sub \<noteq> None"
  by (induction s) (auto split: option.splits)

lemma HasPrefix_last: "HasPrefix (drop j s) sub \<Longrightarrow> sub \<noteq> [] \<Longrightarrow> last sub = s ! (j + length sub - 1) \<and> j + length sub \<le> length s"
proof -
  assume h: "HasPrefix (drop j s) sub" and ne: "sub \<noteq> []"
  have len: "length sub \<le> length s - j" using HasPrefix_length [OF h] by simp
  have pos: "0 < length sub" using ne by simp
  have "sub ! (length sub - 1) = drop j s ! (length sub - 1)"
    using HasPrefix_nth [OF h, of "length sub - 1"] pos by simp
  also have "\<dots> = s ! (j + (length sub - 1))" using len pos by (subst nth_drop) (arith | simp)+
  finally have "sub ! (length sub - 1) = s ! (j + length sub - 1)" using pos by simp
  moreover have "j + length sub \<le> length s" using len pos by arith
  ultimately show ?thesis using ne by (simp add: last_conv_nth)
qed

lemma LastIndex_marker:
  assumes "CHR ''='' \<notin> set l"
  shows "LastIndex (b @ sourceTagMarker @ l) sourceTagMarker = Some (length b)"
proof (rule LastIndex_eqI)
  show "length b \<le> length (b @ sourceTagMarker @ l)" by simp
  show "HasPrefix (drop (length b) (b @ sourceTagMarker @ l)) sourceTagMarker" by simp
  fix j assume j: "length b < j" "j \<le> length (b @ sourceTagMarker @ l)"
  show "\<not> HasPrefix (drop j (b @ sourceTagMarker @ l)) sourceTagMarker"
  proof
    assume "HasPrefix (drop j (b @ sourceTagMarker @ l)) sourceTagMarker"
    moreover have "length sourceTagMarker = 8" "last sourceTagMarker = CHR ''=''" "sourceTagMarker \<noteq> []"
      by (simp_all add: sourceTagMarker_def)
    moreover have "j + 8 - 1 = j + 7" by simp
    ultimately have "(b @ sourceTagMarker @ l) ! (j + 7) = CHR ''=''"
      and len: "j + 8 \<le> length (b @ sourceTagMarker @ l)"
      using HasPrefix_last by metis+
    then have "l ! (j - 1 - length b) = CHR ''=''" and "j - 1 - length b < length l"
      using j(1) by (auto simp: sourceTagMarker_def nth_append)
    with assms show False by (metis nth_mem)
  qed
qed

lemma splitSourceInbound_labelled:
  "CHR ''='' \<notin> set l \<Longrightarrow> splitSourceInbound (b @ sourceTagMarker @ l) = (normalizeInboundTag b, l)"
  by (simp add: splitSourceInbound_def LastIndex_marker normalizeInboundTag_def)

lemma splitSourceInbound_plain:
  "\<not> Contains inbound sourceTagMarker \<Longrightarrow> splitSourceInbound inbound = (normalizeInboundTag inbound, [])"
  by (simp add: splitSourceInbound_def Contains_iff_LastIndex normalizeInboundTag_def)

text \<open>The bucket of a source: the first rule one of whose prefixes the address agrees with.\<close>

definition source_bucket :: "source_rule list \<Rightarrow> string \<Rightarrow> source_rule option" where
  "source_bucket rules source =
     Option.bind (ParseAddr (normalizePeerIP source))
       (\<lambda>a. find (\<lambda>r. \<exists>p \<in> set (prefixes r). in_prefix p a) rules)"

lemma find_cong_list: "(\<And>x. x \<in> set xs \<Longrightarrow> p x = q x) \<Longrightarrow> find p xs = find q xs"
  by (induction xs) auto

lemma find_rule:
  assumes "ParseSourceBuckets specs = Inr rules"
  shows "find (\<lambda>rule. list_ex (\<lambda>prefix. Prefix_Contains prefix a) (prefixes rule)) rules
       = find (\<lambda>r. \<exists>p \<in> set (prefixes r). in_prefix p a) rules"
proof (rule find_cong_list)
  fix r assume "r \<in> set rules"
  with assms have "rule_ok r" by (rule ParseSourceBuckets_ok)
  then show "list_ex (\<lambda>prefix. Prefix_Contains prefix a) (prefixes r)
      = (\<exists>p \<in> set (prefixes r). in_prefix p a)"
    by (auto simp: list_ex_iff rule_ok_def prefix_ok_Contains)
qed

lemma Classify_bucket:
  assumes "ParseSourceBuckets specs = Inr rules"
  shows "Classify (Some rules) source
    = (case source_bucket rules source of None \<Rightarrow> normalizePeerIP source | Some r \<Rightarrow> label r)"
proof (cases "ParseAddr (normalizePeerIP source)")
  case None
  then show ?thesis by (simp add: Classify_def source_bucket_def Let_def)
next
  case (Some a)
  then have "normalizePeerIP source \<noteq> []" by (auto simp: ParseAddr_def)
  with Some show ?thesis
    by (simp add: Classify_def source_bucket_def find_rule [OF assms] split: option.split)
qed

lemma source_bucket_ok:
  "ParseSourceBuckets specs = Inr rules \<Longrightarrow> source_bucket rules source = Some r \<Longrightarrow> rule_ok r"
  by (rule ParseSourceBuckets_ok) (auto simp: source_bucket_def find_Some_iff split: bind_splits)

section \<open>The device key of a peer\<close>

lemma SplitBy_covers: "c \<in> set s \<Longrightarrow> \<not> p c \<Longrightarrow> \<exists>f \<in> set (SplitBy p s). c \<in> set f"
proof (induction s)
  case Nil
  then show ?case by simp
next
  case (Cons a s)
  show ?case
  proof (cases "SplitBy p s")
    case Nil
    then show ?thesis by simp
  next
    case (Cons f fs)
    with Cons.IH Cons.prems show ?thesis by (cases "c = a") auto
  qed
qed

lemma parse_octet_digits: "parse_octet f = Some n \<Longrightarrow> list_all is_digit f"
  by (simp add: parse_octet_def split: if_splits)

lemma parseIPv4Fields_fields: "parseIPv4Fields s = Some bs \<Longrightarrow> None \<notin> parse_octet ` set (SplitBy (\<lambda>c. c = CHR ''.'') s)"
proof -
  assume "parseIPv4Fields s = Some bs"
  then have "None \<notin> set (map parse_octet (SplitBy (\<lambda>c. c = CHR ''.'') s))"
    by (auto simp: parseIPv4Fields_def simp del: set_map split: list.splits option.splits)
  then show ?thesis by simp
qed

lemma parseIPv4Fields_chars:
  assumes "parseIPv4Fields s = Some bs" and "c \<in> set s"
  shows "c = CHR ''.'' \<or> is_digit c"
proof (rule ccontr)
  assume "\<not> (c = CHR ''.'' \<or> is_digit c)"
  with SplitBy_covers [OF assms(2), of "\<lambda>c. c = CHR ''.''"] obtain f
    where "f \<in> set (SplitBy (\<lambda>c. c = CHR ''.'') s)" "c \<in> set f" "\<not> is_digit c" by auto
  with parseIPv4Fields_fields [OF assms(1)] show False
    by (metis imageI list_all_iff not_None_eq parse_octet_digits)
qed

lemma parseIPv6_bracket: "parseIPv6 (CHR ''['' # t) = None"
proof -
  have loop: "v6_loop None [] (CHR ''['' # u) = None" for u
    by (simp add: v6_loop.simps [of None "[]" "CHR ''['' # u"] hex_val_def is_digit_def)
  show ?thesis
    by (auto simp: parseIPv6_def SplitN2_def HasPrefix_def loop Let_def split: option.splits)
qed

lemma find_SomeI_append: "find p a = Some x \<Longrightarrow> find p (a @ b) = Some x"
  by (induction a) (auto split: if_splits)

lemma LastIndex_colon: "CHR '':'' \<notin> set q \<Longrightarrow> LastIndex (h @ CHR '':'' # q) '':'' = Some (length h)"
proof (rule LastIndex_eqI)
  fix j assume q: "CHR '':'' \<notin> set q" and j: "length h < j" "j \<le> length (h @ CHR '':'' # q)"
  show "\<not> HasPrefix (drop j (h @ CHR '':'' # q)) '':''"
  proof
    assume "HasPrefix (drop j (h @ CHR '':'' # q)) '':''"
    from HasPrefix_last [OF this] have "(h @ CHR '':'' # q) ! j = CHR '':''" "j < length (h @ CHR '':'' # q)"
      by auto
    moreover obtain k where "j = length h + Suc k" using j(1) less_iff_Suc_add by auto
    ultimately have "q ! k = CHR '':''" "k < length q" by (simp_all add: nth_append)
    with q show False by (metis nth_mem)
  qed
qed (auto simp: HasPrefix_def)

text \<open>How \<open>net.JoinHostPort\<close> and the socket addresses write a host with a port.\<close>

definition host_port :: "string \<Rightarrow> string \<Rightarrow> string" where
  "host_port h q = (if CHR '':'' \<in> set h then CHR ''['' # h @ '']:'' @ q else h @ CHR '':'' # q)"

definition host_chars :: "string \<Rightarrow> bool" where
  "host_chars h \<longleftrightarrow> list_all (\<lambda>c. graphic c \<and> c \<noteq> CHR ''['' \<and> c \<noteq> CHR '']'') h"

lemma graphic_chars [simp]:
  "is_digit c \<Longrightarrow> graphic c" "graphic CHR ''[''" "graphic CHR '']''" "graphic CHR '':''"
  by (simp_all add: graphic_def is_digit_def)

lemma host_port_graphic: "host_chars h \<Longrightarrow> list_all is_digit q \<Longrightarrow> list_all graphic (host_port h q)"
proof -
  assume "host_chars h" "list_all is_digit q"
  then have "list_all graphic h" "list_all graphic q"
    by (auto simp: host_chars_def elim: list.pred_mono_strong)
  then show ?thesis by (simp add: host_port_def)
qed

lemma SplitHostPort_host_port:
  assumes "host_chars h" and "list_all is_digit q" and "h \<noteq> []"
  shows "SplitHostPort (host_port h q) = Some (h, q)"
proof -
  have q: "CHR '':'' \<notin> set q" "CHR ''['' \<notin> set q" "CHR '']'' \<notin> set q"
    using assms(2) by (auto simp: list_all_iff is_digit_def)
  have h: "CHR ''['' \<notin> set h" "CHR '']'' \<notin> set h"
    using assms(1) by (auto simp: host_chars_def list_all_iff)
  show ?thesis
  proof (cases "CHR '':'' \<in> set h")
    case True
    have "takeWhile (\<lambda>c. c \<noteq> CHR '']'') (CHR ''['' # h @ '']:'' @ q) = CHR ''['' # h"
      using h(2) by (auto simp: takeWhile_append)
    with True h q LastIndex_colon [OF q(1), of "CHR ''['' # h @ '']''"] show ?thesis
      by (simp add: host_port_def SplitHostPort_def)
  next
    case False
    have "hd h \<noteq> CHR ''[''" using h assms(3) by (metis hd_in_set)
    with False h q assms(3) LastIndex_colon [OF q(1), of h] show ?thesis
      by (simp add: host_port_def SplitHostPort_def)
  qed
qed

lemma ParseAddr_find:
  "find (\<lambda>c. c \<in> {CHR ''.'', CHR '':'', CHR ''%''}) s = Some c \<Longrightarrow>
   ParseAddr s = (if c = CHR ''.'' then parseIPv4 s else if c = CHR '':'' then parseIPv6 s else None)"
  by (simp add: ParseAddr_def)

lemma ParseAddr_host_port:
  assumes "ParseAddr h = Some a"
  shows "ParseAddr (host_port h q) = None"
proof -
  let ?p = "\<lambda>c. c \<in> {CHR ''.'', CHR '':'', CHR ''%''}"
  obtain c where c: "find ?p h = Some c" and "c = CHR ''.'' \<or> c = CHR '':''"
    using assms by (auto simp: ParseAddr_def split: option.splits if_splits)
  then consider (v4) "c = CHR ''.''" | (v6) "c = CHR '':''" by blast
  then show ?thesis
  proof cases
    case v4
    with assms c obtain bs where bs: "parseIPv4Fields h = Some bs"
      by (auto simp: ParseAddr_def parseIPv4_def)
    have "CHR '':'' \<notin> set h"
      using parseIPv4Fields_chars [OF bs, of "CHR '':''"] by (auto simp: is_digit_def)
    moreover have "parseIPv4Fields (h @ CHR '':'' # q) = None"
      using parseIPv4Fields_chars [of "h @ CHR '':'' # q" _ "CHR '':''"]
      by (cases "parseIPv4Fields (h @ CHR '':'' # q)") (auto simp: is_digit_def)
    moreover note ParseAddr_find [OF find_SomeI_append [OF c, of "CHR '':'' # q"]]
    ultimately show ?thesis using v4 by (simp add: host_port_def parseIPv4_def)
  next
    case v6
    then have "CHR '':'' \<in> set h" using c by (metis find_Some_iff nth_mem)
    moreover have "find ?p (CHR ''['' # h @ '']:'' @ q) = Some CHR '':''"
      using find_SomeI_append [OF c, of "'']:'' @ q"] v6 by simp
    ultimately show ?thesis by (simp add: host_port_def ParseAddr_find parseIPv6_bracket)
  qed
qed

section \<open>A server map that is written out and parsed\<close>

lemma SplitBy_join:
  assumes "list_all (list_all (\<lambda>c. \<not> p c)) fs" and "p sep" and "fs \<noteq> []"
  shows "SplitBy p (join [sep] fs) = fs"
  using assms
proof (induction "[sep]" fs rule: join.induct)
  case (3 x y xs)
  then show ?case by (simp add: SplitBy_append)
qed (auto simp: SplitBy_none)

lemma FieldsFunc_join:
  assumes "list_all (\<lambda>f. f \<noteq> [] \<and> list_all (\<lambda>c. \<not> p c) f) fs" and "p sep"
  shows "FieldsFunc p (join [sep] fs) = fs"
proof (cases "fs = []")
  case True
  then show ?thesis by (simp add: FieldsFunc_def)
next
  case False
  with assms have "SplitBy p (join [sep] fs) = fs" by (intro SplitBy_join) (auto simp: list_all_iff)
  with assms show ?thesis by (auto simp: FieldsFunc_def list_all_iff)
qed

definition map_word :: "string \<Rightarrow> bool" where
  "map_word s \<longleftrightarrow> s \<noteq> [] \<and> list_all (\<lambda>c. graphic c \<and> c \<notin> {CHR '','', CHR '';'', CHR ''=''}) s"

definition show_pair :: "string \<times> string \<Rightarrow> string" where
  "show_pair e = fst e @ CHR ''='' # snd e"

lemma map_wordD:
  assumes "map_word s"
  shows "list_all graphic s" "CHR ''='' \<notin> set s" "list_all (\<lambda>c. \<not> (c = CHR '','' \<or> c = CHR '';'')) s" "s \<noteq> []"
  using assms by (auto simp: map_word_def list_all_iff)

lemma show_pair_word:
  assumes "map_word (fst e)" and "map_word (snd e)"
  shows "TrimSpace (show_pair e) = show_pair e"
    and "SplitN2 CHR ''='' (show_pair e) = Some (fst e, snd e)"
    and "show_pair e \<noteq> [] \<and> list_all (\<lambda>c. \<not> (c = CHR '','' \<or> c = CHR '';'')) (show_pair e)"
proof -
  have "graphic CHR ''=''" by (simp add: graphic_def)
  then show "TrimSpace (show_pair e) = show_pair e"
    using map_wordD [OF assms(1)] map_wordD [OF assms(2)]
    by (intro TrimSpace_graphic) (simp add: show_pair_def)
  show "SplitN2 CHR ''='' (show_pair e) = Some (fst e, snd e)"
    using map_wordD [OF assms(1)] by (intro SplitN2_Some [THEN iffD2]) (simp add: show_pair_def)
  show "show_pair e \<noteq> [] \<and> list_all (\<lambda>c. \<not> (c = CHR '','' \<or> c = CHR '';'')) (show_pair e)"
    using map_wordD [OF assms(1)] map_wordD [OF assms(2)] by (simp add: show_pair_def)
qed

section \<open>Properties\<close>

text \<open>
  C15: The panel side takes a source tag apart into what the data plane put in: for rules parsed
  from the command line and an inbound tag without the marker, splitting the tag of a connection
  gives the inbound tag (\<open>default\<close> when blank) and the label of the first rule whose prefixes
  hold the peer, or no label when there is none or the label reads like the address.
\<close>

theorem source_tag_roundtrip:
  assumes "ParseSourceBuckets specs = Inr rules" and "\<not> Contains inbound ''@source=''"
  shows "splitSourceInbound (sourceInboundTag True (Some rules) inbound source)
    = (normalizeInboundTag inbound,
       case source_bucket rules source of
         None \<Rightarrow> []
       | Some r \<Rightarrow> if label r = normalizePeerIP source then [] else label r)"
proof -
  have plain: "splitSourceInbound (normalizeInboundTag inbound) = (normalizeInboundTag inbound, [])"
    using splitSourceInbound_plain [of "normalizeInboundTag inbound"] assms(2)
    by (auto simp: normalizeInboundTag_def sourceTagMarker_def HasPrefix_def split: if_splits)
  have idem: "normalizeInboundTag (normalizeInboundTag inbound) = normalizeInboundTag inbound"
    by (auto simp: normalizeInboundTag_def)
  have tag: "sourceInboundTag True (Some rules) inbound source
      = (let l = Classify (Some rules) source
         in if l = [] \<or> l = normalizePeerIP source then normalizeInboundTag inbound
            else normalizeInboundTag inbound @ sourceTagMarker @ l)"
    by (simp add: sourceInboundTag_def normalizeInboundTag_def sourceTagMarker_def Let_def)
  show ?thesis
  proof (cases "source_bucket rules source")
    case None
    with plain show ?thesis by (simp add: tag Classify_bucket [OF assms(1)])
  next
    case (Some r)
    with source_bucket_ok [OF assms(1)] have "rule_ok r" by blast
    with Some plain idem show ?thesis
      by (simp add: tag Classify_bucket [OF assms(1)] rule_ok_def splitSourceInbound_labelled)
  qed
qed

theorem source_tag_roundtrip_witness:
  "\<exists>rules. ParseSourceBuckets [''cnix=10.0.0.0/8''] = Inr rules
     \<and> splitSourceInbound (sourceInboundTag True (Some rules) ''vless-in'' ''10.1.2.3:555'')
       = (''vless-in'', ''cnix'')"
proof -
  have p: "ParseSourceBuckets [''cnix=10.0.0.0/8'']
      = Inr [\<lparr>label = ''cnix'', prefixes = [Prefix (IPv4 0x0A000000) 8]\<rparr>]"
    by code_simp
  have "normalizeInboundTag ''vless-in'' = ''vless-in''"
    "source_bucket [\<lparr>label = ''cnix'', prefixes = [Prefix (IPv4 0x0A000000) 8]\<rparr>] ''10.1.2.3:555''
      = Some \<lparr>label = ''cnix'', prefixes = [Prefix (IPv4 0x0A000000) 8]\<rparr>"
    "normalizePeerIP ''10.1.2.3:555'' = ''10.1.2.3''"
    by code_simp+
  with source_tag_roundtrip [OF p, of "''vless-in''" "''10.1.2.3:555''"] p show ?thesis
    by (simp add: HasPrefix_def)
qed

text \<open>
  The device key of a peer is its address and nothing else: a host with any port, written as
  \<open>net.JoinHostPort\<close> does, and the bare host have the same key, the canonical text of the address.
\<close>

theorem device_key_ignores_port:
  assumes "ParseAddr h = Some a" and "host_chars h" and "list_all is_digit q"
  shows "normalizePeerIP (host_port h q) = Addr_String a \<and> normalizePeerIP h = Addr_String a"
proof -
  have ne: "h \<noteq> []" using assms(1) by (auto simp: ParseAddr_def)
  have "TrimSpace (host_port h q) = host_port h q"
    by (rule TrimSpace_graphic [OF host_port_graphic [OF assms(2,3)]])
  moreover have "TrimSpace h = h"
    using assms(2) by (intro TrimSpace_graphic) (auto simp: host_chars_def elim: list.pred_mono_strong)
  moreover have "host_port h q \<noteq> []" by (simp add: host_port_def)
  ultimately show ?thesis
    using ne assms ParseAddr_host_port [OF assms(1)] SplitHostPort_host_port [OF assms(2,3) ne]
    by (simp add: normalizePeerIP_def Let_def)
qed

theorem device_key_ignores_port_witness:
  "normalizePeerIP ''[2001:db8::1]:443'' = ''2001:db8::1'' \<and> normalizePeerIP ''192.0.2.7:80'' = ''192.0.2.7''"
proof -
  have "string6 0x20010db8000000000000000000000001 = ''2001:db8::1''"
    "\<not> Is4In6 0x20010db8000000000000000000000001"
    by code_simp+
  then have "Addr_String (IPv6 0x20010db8000000000000000000000001 []) = ''2001:db8::1''"
    by (simp add: zone_suffix_def)
  moreover have "ParseAddr ''2001:db8::1'' = Some (IPv6 0x20010db8000000000000000000000001 [])"
    "ParseAddr ''192.0.2.7'' = Some (IPv4 0xC0000207)" "Addr_String (IPv4 0xC0000207) = ''192.0.2.7''"
    "host_chars ''2001:db8::1''" "host_chars ''192.0.2.7''"
    "host_port ''2001:db8::1'' ''443'' = ''[2001:db8::1]:443''" "host_port ''192.0.2.7'' ''80'' = ''192.0.2.7:80''"
    "list_all is_digit ''443''" "list_all is_digit ''80''"
    by code_simp+
  ultimately show ?thesis
    using device_key_ignores_port [of "''2001:db8::1''" _ "''443''"]
      device_key_ignores_port [of "''192.0.2.7''" _ "''80''"] by simp
qed

text \<open>
  A server map written as \<open>label=node,label=node\<close> is read back entry by entry, a later entry
  for a label replacing an earlier one.
\<close>

theorem ParseSourceServerMap_roundtrip:
  assumes "\<forall>e \<in> set es. map_word (fst e) \<and> map_word (snd e)"
  shows "ParseSourceServerMap (join '','' (map show_pair es)) = Inr (fold (\<lambda>e m. mput (fst e) (snd e) m) es [])"
proof -
  have fields: "FieldsFunc (\<lambda>c. c = CHR '','' \<or> c = CHR '';'') (join '','' (map show_pair es)) = map show_pair es"
    using assms show_pair_word(3) by (intro FieldsFunc_join) (auto simp: list_all_iff)
  have step: "server_map_field (Inr m) (show_pair e) = Inr (mput (fst e) (snd e) m)" if "e \<in> set es" for e m
  proof -
    have "TrimSpace (fst e) = fst e" "TrimSpace (snd e) = snd e" "fst e \<noteq> []" "snd e \<noteq> []"
      "map_word (fst e)" "map_word (snd e)"
      using that assms map_wordD(1,4) TrimSpace_graphic by blast+
    with show_pair_word [of e] show ?thesis by (cases e) (simp add: server_map_field_def)
  qed
  have "foldl server_map_field (Inr m) (map show_pair es) = Inr (fold (\<lambda>e m. mput (fst e) (snd e) m) es m)" for m
    using step by (induction es arbitrary: m) auto
  with fields show ?thesis by (simp add: ParseSourceServerMap_def)
qed

theorem ParseSourceServerMap_roundtrip_witness:
  "ParseSourceServerMap ''cnix=51,nbix=52'' = Inr [(''cnix'', ''51''), (''nbix'', ''52'')]"
  using ParseSourceServerMap_roundtrip [of "[(''cnix'', ''51''), (''nbix'', ''52'')]"]
  by (simp add: map_word_def show_pair_def graphic_def)

end
