(* ===== verification/Traffic_Counter.thy ===== *)
theory Traffic_Counter
  imports Go_Strings
begin

text \<open>
  The per-user byte counters of \<open>counter/counter.go\<close>: \<open>TrafficStorage\<close>, \<open>TrafficCounter\<close> and
  the operations that snapshot, commit and prune them.

  A \<open>TrafficCounter\<close> maps a user to a pointer, and connections keep such pointers while the map
  changes, so the storages live in a store: \<open>cell st a\<close> is the storage at address \<open>a\<close>, \<open>fresh\<close>
  the next address \<open>&TrafficStorage{}\<close> yields. The counters are \<open>atomic.Int64\<close>: their sums
  wrap.
\<close>

section \<open>State\<close>

record storage =
  UpCounter :: i64
  DownCounter :: i64
  CommittedUp :: i64
  CommittedDown :: i64

definition zero_storage :: storage where
  "zero_storage = \<lparr>UpCounter = 0, DownCounter = 0, CommittedUp = 0, CommittedDown = 0\<rparr>"

record store =
  cell :: "nat \<Rightarrow> storage"
  fresh :: nat

type_synonym traffic_counter = "(string, nat) gomap"

type_synonym user_traffic = "(string, pair64) gomap"

definition empty_store :: store where
  "empty_store = \<lparr>cell = (\<lambda>_. zero_storage), fresh = 0\<rparr>"

definition NewTrafficCounter :: traffic_counter where
  "NewTrafficCounter = []"

section \<open>Operations\<close>

text \<open>\<open>sync.Map.LoadOrStore\<close>.\<close>

definition LoadOrStore :: "'k \<Rightarrow> 'v \<Rightarrow> ('k, 'v) gomap \<Rightarrow> 'v \<times> ('k, 'v) gomap" where
  "LoadOrStore k v m = (case mget m k of Some v' \<Rightarrow> (v', m) | None \<Rightarrow> (v, mput k v m))"

definition GetCounter :: "string \<Rightarrow> traffic_counter \<Rightarrow> store \<Rightarrow> nat \<times> traffic_counter \<times> store" where
  "GetCounter user tc st =
     (case mget tc user of
        Some a \<Rightarrow> (a, tc, st)
      | None \<Rightarrow>
          (let s = fresh st;
               st' = st\<lparr>cell := (cell st)(s := zero_storage), fresh := Suc s\<rparr>;
               (v, tc') = LoadOrStore user s tc
           in (v, tc', st')))"

definition Snapshot :: "bool \<Rightarrow> traffic_counter \<Rightarrow> store \<Rightarrow> user_traffic" where
  "Snapshot reset tc st =
     fold (\<lambda>(k, a) out. mput k (UpCounter (cell st a), DownCounter (cell st a)) out) tc []"

definition SnapshotDelta :: "traffic_counter \<Rightarrow> store \<Rightarrow> user_traffic" where
  "SnapshotDelta tc st =
     fold (\<lambda>(k, a) out.
             let s = cell st a;
                 up = UpCounter s - CommittedUp s;
                 down = DownCounter s - CommittedDown s
             in if 0 <s up \<or> 0 <s down then mput k (up, down) out else out) tc []"

definition commit_cell :: "pair64 \<Rightarrow> storage \<Rightarrow> storage" where
  "commit_cell d s =
     s\<lparr>CommittedUp := CommittedUp s + fst d, CommittedDown := CommittedDown s + snd d\<rparr>"

definition CommitSnapshot :: "user_traffic \<Rightarrow> traffic_counter \<Rightarrow> store \<Rightarrow> store" where
  "CommitSnapshot snapshot tc st =
     fold (\<lambda>(user, d) st.
             case mget tc user of
               Some a \<Rightarrow> st\<lparr>cell := (cell st)(a := commit_cell d (cell st a))\<rparr>
             | None \<Rightarrow> st) snapshot st"

definition RemoveAbsent :: "(string, unit) gomap \<Rightarrow> traffic_counter \<Rightarrow> store \<Rightarrow> traffic_counter" where
  "RemoveAbsent active tc st =
     fold (\<lambda>(user, a) tc'.
             if mget active user = None then
               (let s = cell st a
                in if UpCounter s = CommittedUp s \<and> DownCounter s = CommittedDown s
                   then mdel user tc' else tc')
             else tc') tc tc"

text \<open>\<open>s.UpCounter.Add(n)\<close> and \<open>s.DownCounter.Add(n)\<close> through a pointer.\<close>

definition add_up :: "i64 \<Rightarrow> nat \<Rightarrow> store \<Rightarrow> store" where
  "add_up n a st = st\<lparr>cell := (cell st)(a := (cell st a)\<lparr>UpCounter := UpCounter (cell st a) + n\<rparr>)\<rparr>"

definition add_down :: "i64 \<Rightarrow> nat \<Rightarrow> store \<Rightarrow> store" where
  "add_down n a st = st\<lparr>cell := (cell st)(a := (cell st a)\<lparr>DownCounter := DownCounter (cell st a) + n\<rparr>)\<rparr>"

section \<open>The invariant and the views\<close>

definition wf_tc :: "traffic_counter \<Rightarrow> store \<Rightarrow> bool" where
  "wf_tc tc st \<longleftrightarrow> wf_map tc \<and> distinct (map snd tc) \<and> (\<forall>e \<in> set tc. snd e < fresh st)"

definition used :: "storage \<Rightarrow> pair64" where
  "used s = (UpCounter s, DownCounter s)"

definition committed :: "storage \<Rightarrow> pair64" where
  "committed s = (CommittedUp s, CommittedDown s)"

definition pending :: "storage \<Rightarrow> pair64" where
  "pending s = sub2 (used s) (committed s)"

definition positive2 :: "pair64 \<Rightarrow> bool" where
  "positive2 p \<longleftrightarrow> 0 <s fst p \<or> 0 <s snd p"

lemma used_simps [simp]:
  "used zero_storage = zero2" "used (commit_cell d s) = used s"
  by (simp_all add: used_def zero_storage_def zero2_def commit_cell_def)

lemma committed_simps [simp]:
  "committed zero_storage = zero2" "committed (commit_cell d s) = add2 (committed s) d"
  by (simp_all add: committed_def zero_storage_def zero2_def commit_cell_def add2_def)

lemma pending_commit_cell: "pending (commit_cell d s) = sub2 (pending s) d"
  by (simp add: pending_def sub2_def add2_def diff_diff_eq)

lemma pending_pair: "pending s = (UpCounter s - CommittedUp s, DownCounter s - CommittedDown s)"
  by (simp add: pending_def sub2_def used_def committed_def)

lemma pending_zero_iff:
  "pending s = zero2 \<longleftrightarrow> UpCounter s = CommittedUp s \<and> DownCounter s = CommittedDown s"
  by (simp add: pending_def sub2_def used_def committed_def zero2_def)

lemma pending_zero: "pending s = zero2 \<longleftrightarrow> used s = committed s"
  by (auto simp: pending_zero_iff used_def committed_def)

lemma used_eq: "used s = add2 (committed s) (pending s)"
  by (simp add: pending_def pair64_simps)

lemma used_add_up:
  "used (cell (add_up n a st) b) = (if b = a then add2 (used (cell st a)) (n, 0) else used (cell st b))"
  "committed (cell (add_up n a st) b) = committed (cell st b)"
  by (simp_all add: add_up_def used_def committed_def add2_def)

lemma used_add_down:
  "used (cell (add_down n a st) b) = (if b = a then add2 (used (cell st a)) (0, n) else used (cell st b))"
  "committed (cell (add_down n a st) b) = committed (cell st b)"
  by (simp_all add: add_down_def used_def committed_def add2_def)

lemma fresh_add [simp]: "fresh (add_up n a st) = fresh st" "fresh (add_down n a st) = fresh st"
  by (simp_all add: add_up_def add_down_def)

lemma wf_tc_inj: "wf_tc tc st \<Longrightarrow> mget tc u = Some a \<Longrightarrow> mget tc v = Some a \<Longrightarrow> u = v"
proof -
  assume wf: "wf_tc tc st" and "mget tc u = Some a" "mget tc v = Some a"
  then have "(u, a) \<in> set tc" "(v, a) \<in> set tc" by (auto dest: mget_in_set)
  with wf show "u = v"
    by (metis wf_tc_def distinct_map inj_onD prod.inject snd_conv)
qed

lemma wf_tc_fresh: "wf_tc tc st \<Longrightarrow> mget tc u = Some a \<Longrightarrow> a < fresh st"
  by (force simp: wf_tc_def dest: mget_in_set)

section \<open>What each operation does\<close>

lemma GetCounter_spec:
  assumes "wf_tc tc st" and "GetCounter user tc st = (a, tc', st')"
  shows "wf_tc tc' st'" and "mget tc' user = Some a"
    and "\<And>u. u \<noteq> user \<Longrightarrow> mget tc' u = mget tc u"
    and "\<And>b. b < fresh st \<Longrightarrow> cell st' b = cell st b"
    and "mget tc user = None \<Longrightarrow> cell st' a = zero_storage"
    and "fresh st \<le> fresh st'"
  using assms
  by (auto simp: GetCounter_def LoadOrStore_def Let_def wf_tc_def mput_absent wf_map_snoc mget_append
      split: option.splits) force+

lemma mget_Snapshot: "wf_map tc \<Longrightarrow> mget (Snapshot r tc st) u = map_option (used \<circ> cell st) (mget tc u)"
  unfolding Snapshot_def
  by (subst gm.get_fold_put_distinct [of tc "\<lambda>k a. (UpCounter (cell st a), DownCounter (cell st a))"])
    (auto simp: wf_map_def used_def mget_def split: option.splits)

lemma SnapshotDelta_select:
  "wf_map tc \<Longrightarrow> SnapshotDelta tc st
     = map (\<lambda>(k, a). (k, pending (cell st a))) (filter (\<lambda>(k, a). positive2 (pending (cell st a))) tc)"
  by (simp add: SnapshotDelta_def Let_def fold_put_select [symmetric] pending_pair positive2_def)

lemma mget_SnapshotDelta:
  "wf_map tc \<Longrightarrow> mget (SnapshotDelta tc st) u =
     (case mget tc u of
        None \<Rightarrow> None
      | Some a \<Rightarrow> if positive2 (pending (cell st a)) then Some (pending (cell st a)) else None)"
  by (simp add: SnapshotDelta_select mget_select)

lemma wf_SnapshotDelta: "wf_map tc \<Longrightarrow> wf_map (SnapshotDelta tc st)"
  by (simp add: SnapshotDelta_select wf_select)

lemma fresh_CommitSnapshot [simp]: "fresh (CommitSnapshot d tc st) = fresh st"
proof -
  have "fresh (fold (\<lambda>(user, d) st. case mget tc user of
      Some a \<Rightarrow> st\<lparr>cell := (cell st)(a := commit_cell d (cell st a))\<rparr> | None \<Rightarrow> st) d s) = fresh s" for s
    by (induction d arbitrary: s) (auto split: option.splits)
  then show ?thesis by (simp add: CommitSnapshot_def)
qed

lemma wf_tc_store: "wf_tc tc st \<Longrightarrow> fresh st \<le> fresh st' \<Longrightarrow> wf_tc tc st'"
  by (auto simp: wf_tc_def)

lemma CommitSnapshot_Cons:
  "CommitSnapshot ((u, d) # snap) tc st =
     CommitSnapshot snap tc
       (case mget tc u of
          Some a \<Rightarrow> st\<lparr>cell := (cell st)(a := commit_cell d (cell st a))\<rparr>
        | None \<Rightarrow> st)"
  by (simp add: CommitSnapshot_def)

lemma CommitSnapshot_Nil [simp]: "CommitSnapshot [] tc st = st"
  by (simp add: CommitSnapshot_def)

lemma cell_CommitSnapshot:
  assumes "wf_tc tc st" and "wf_map snap" and "mget tc u = Some a"
  shows "cell (CommitSnapshot snap tc st) a =
    (case mget snap u of None \<Rightarrow> cell st a | Some d \<Rightarrow> commit_cell d (cell st a))"
  using assms
proof (induction snap arbitrary: st)
  case Nil
  then show ?case by simp
next
  case (Cons e snap)
  obtain v d where e: "e = (v, d)" by (cases e)
  show ?case
  proof (cases "mget tc v")
    case None
    with Cons.prems have "v \<noteq> u" by auto
    with None Cons show ?thesis by (simp add: e CommitSnapshot_Cons)
  next
    case (Some b)
    let ?st = "st\<lparr>cell := (cell st)(b := commit_cell d (cell st b))\<rparr>"
    have wf: "wf_tc tc ?st" using Cons.prems(1) by (rule wf_tc_store) simp
    have "b = a \<longleftrightarrow> v = u"
      using Some Cons.prems wf_tc_inj [of tc st v b u] by auto
    then show ?thesis
      using Some Cons.IH [OF wf _ Cons.prems(3)] Cons.prems(2)
      by (auto simp: e CommitSnapshot_Cons split: option.splits)
  qed
qed

lemma cell_CommitSnapshot_other:
  "(\<And>u. mget tc u \<noteq> Some a) \<Longrightarrow> cell (CommitSnapshot snap tc st) a = cell st a"
proof (induction snap arbitrary: st)
  case Nil
  then show ?case by simp
next
  case (Cons e snap)
  obtain v d where e: "e = (v, d)" by (cases e)
  show ?case
  proof (cases "mget tc v")
    case None
    with Cons show ?thesis by (simp add: e CommitSnapshot_Cons)
  next
    case (Some b)
    with Cons.prems have "b \<noteq> a" by auto
    with Some Cons show ?thesis by (simp add: e CommitSnapshot_Cons)
  qed
qed

lemma used_CommitSnapshot [simp]: "used (cell (CommitSnapshot snap tc st) a) = used (cell st a)"
  by (induction snap arbitrary: st)
    (auto simp: CommitSnapshot_Cons split: prod.splits option.splits)

lemma mget_RemoveAbsent:
  assumes "wf_map tc"
  shows "mget (RemoveAbsent active tc st) u =
    (case mget tc u of
       None \<Rightarrow> None
     | Some a \<Rightarrow> if mget active u = None \<and> pending (cell st a) = zero2 then None else Some a)"
proof -
  define gone where
    "gone = (\<lambda>(k, a). mget active k = None \<and> pending (cell st a) = zero2)"
  have loop: "fold (\<lambda>(user, a) tc'.
             if mget active user = None then
               (let s = cell st a
                in if UpCounter s = CommittedUp s \<and> DownCounter s = CommittedDown s
                   then mdel user tc' else tc')
             else tc') xs t = fold mdel (map fst (filter gone xs)) t" for xs t
  proof (induction xs arbitrary: t)
    case Nil
    then show ?case by simp
  next
    case (Cons x xs)
    obtain k a where x: "x = (k, a)" by (cases x)
    from Cons show ?case
      by (cases "mget active k = None"; cases "pending (cell st a) = zero2")
        (auto simp: x gone_def Let_def pending_zero_iff)
  qed
  have "mget (RemoveAbsent active tc st) u
      = (if u \<in> set (map fst (filter gone tc)) then None else mget tc u)"
    unfolding RemoveAbsent_def loop by (rule gm.get_fold_del)
  moreover have "u \<in> set (map fst (filter gone tc)) \<longleftrightarrow> (\<exists>a. mget tc u = Some a \<and> gone (u, a))"
    using assms by (force simp: mget_iff_in_set)
  ultimately show ?thesis by (auto simp: gone_def split: option.splits)
qed

lemma wf_RemoveAbsent: "wf_map tc \<Longrightarrow> wf_map (RemoveAbsent active tc st)"
proof -
  have "wf_map t \<Longrightarrow> wf_map (fold (\<lambda>(user, a) tc'.
             if mget active user = None then
               (let s = cell st a
                in if UpCounter s = CommittedUp s \<and> DownCounter s = CommittedDown s
                   then mdel user tc' else tc')
             else tc') xs t)" for xs t
    by (induction xs arbitrary: t) (auto simp: Let_def wf_mdel)
  then show "wf_map tc \<Longrightarrow> wf_map (RemoveAbsent active tc st)"
    unfolding RemoveAbsent_def by blast
qed

end
