(* ===== verification/Session_Tracker.thy ===== *)
theory Session_Tracker
  imports Source_Tags "HOL-Library.List_Lexorder" "HOL-Library.Char_ord"
begin

text \<open>
  The device bookkeeping of \<open>cmd/star1ight-agent/session_tracker.go\<close>: \<open>SessionTracker\<close> with
  \<open>Open\<close>, the function \<open>Open\<close> returns, \<open>close\<close>, \<open>DevicesSnapshot\<close>, \<open>AliveDelta\<close>, \<open>CommitAlive\<close>
  and \<open>SourceSnapshot\<close>. A nil tracker does nothing and returns nil; the \<open>Hook\<close> tests for it.

  The two reference maps have three levels (inbound, user, key); \<open>ref_inc\<close> and \<open>ref_dec\<close> are
  the two copies of the code that maintain them. Counts are \<open>int\<close>: the number of open sessions
  is far below \<open>2^63\<close>. Strings are ordered bytewise, as \<open>sort.Strings\<close> orders them.

  What the maps promise is the locale \<open>refcounts\<close>: a set of references, counted, that is empty
  when nothing is held. Its interpretation \<open>rc\<close> on the nested maps relates a tracker to the
  multiset of the sessions that are open.
\<close>

section \<open>Reference maps\<close>

type_synonym refs = "(string, (string, (string, int) gomap) gomap) gomap"

definition ref_inc :: "string \<times> string \<times> string \<Rightarrow> refs \<Rightarrow> refs" where
  "ref_inc k refs =
     (case k of (inbound, user, key) \<Rightarrow>
        let inboundRefs = mget_or [] refs inbound;
            userRefs = mget_or [] inboundRefs user;
            userRefs = mput key (mget_or 0 userRefs key + 1) userRefs
        in mput inbound (mput user userRefs inboundRefs) refs)"

definition ref_dec :: "string \<times> string \<times> string \<Rightarrow> refs \<Rightarrow> refs" where
  "ref_dec k refs =
     (case k of (inbound, user, key) \<Rightarrow>
        (case mget refs inbound of
           None \<Rightarrow> refs
         | Some inboundRefs \<Rightarrow>
             let inboundRefs =
               (case mget inboundRefs user of
                  None \<Rightarrow> inboundRefs
                | Some userRefs \<Rightarrow>
                    let n = mget_or 0 userRefs key - 1;
                        userRefs = (if n \<le> 0 then mdel key userRefs else mput key n userRefs)
                    in if userRefs = [] then mdel user inboundRefs else mput user userRefs inboundRefs)
             in if inboundRefs = [] then mdel inbound refs else mput inbound inboundRefs refs))"

definition ref_count :: "refs \<Rightarrow> string \<times> string \<times> string \<Rightarrow> int" where
  "ref_count refs k =
     (case k of (inbound, user, key) \<Rightarrow> mget_or 0 (mget_or [] (mget_or [] refs inbound) user) key)"

text \<open>The shape the operations keep: distinct keys, no empty inner map, positive counts.\<close>

definition wf_refs1 :: "(string, int) gomap \<Rightarrow> bool" where
  "wf_refs1 m \<longleftrightarrow> wf_map m \<and> m \<noteq> [] \<and> (\<forall>k n. mget m k = Some n \<longrightarrow> 0 < n)"

definition wf_refs2 :: "(string, (string, int) gomap) gomap \<Rightarrow> bool" where
  "wf_refs2 m \<longleftrightarrow> wf_map m \<and> m \<noteq> [] \<and> (\<forall>k n. mget m k = Some n \<longrightarrow> wf_refs1 n)"

definition wf_refs :: "refs \<Rightarrow> bool" where
  "wf_refs m \<longleftrightarrow> wf_map m \<and> (\<forall>k n. mget m k = Some n \<longrightarrow> wf_refs2 n)"

section \<open>Counted references\<close>

locale refcounts =
  fixes empty :: 'r
    and refs_inv :: "'r \<Rightarrow> bool"
    and cnt :: "'r \<Rightarrow> 'k \<Rightarrow> int"
    and inc :: "'k \<Rightarrow> 'r \<Rightarrow> 'r"
    and dec :: "'k \<Rightarrow> 'r \<Rightarrow> 'r"
  assumes inv_empty: "refs_inv empty"
    and cnt_empty: "cnt empty k = 0"
    and inv_inc: "refs_inv r \<Longrightarrow> refs_inv (inc k r)"
    and cnt_inc: "refs_inv r \<Longrightarrow> cnt (inc k r) k' = cnt r k' + (if k' = k then 1 else 0)"
    and inv_dec: "refs_inv r \<Longrightarrow> refs_inv (dec k r)"
    and cnt_dec: "refs_inv r \<Longrightarrow> cnt (dec k r) k' = (if k' = k then max 0 (cnt r k' - 1) else cnt r k')"
    and only_empty: "refs_inv r \<Longrightarrow> \<forall>k. cnt r k = 0 \<Longrightarrow> r = empty"
begin

text \<open>The references held are the multiset \<open>M\<close>.\<close>

definition holds :: "'r \<Rightarrow> 'k multiset \<Rightarrow> bool" where
  "holds r M \<longleftrightarrow> refs_inv r \<and> (\<forall>k. cnt r k = int (count M k))"

lemma holds_empty: "holds empty {#}"
  by (simp add: holds_def inv_empty cnt_empty)

lemma holds_inc: "holds r M \<Longrightarrow> holds (inc k r) (add_mset k M)"
  by (simp add: holds_def inv_inc cnt_inc)

lemma holds_dec: "holds r (add_mset k M) \<Longrightarrow> holds (dec k r) M"
  by (simp add: holds_def inv_dec cnt_dec)

lemma holds_nothing: "holds r {#} \<longleftrightarrow> r = empty"
  using only_empty [of r] by (auto simp: holds_def inv_empty cnt_empty)

lemma holds_keys: "holds r M \<Longrightarrow> 0 < cnt r k \<longleftrightarrow> k \<in># M"
  by (simp add: holds_def)

end

lemma mget_or_eq: "mget_or z m k = (case mget m k of None \<Rightarrow> z | Some v \<Rightarrow> v)"
  by (simp add: mget_or_def)

lemma ref_count_inc: "ref_count (ref_inc k r) k' = ref_count r k' + (if k' = k then 1 else 0)"
  by (cases k; cases k') (auto simp: ref_count_def ref_inc_def Let_def mget_or_mput)

lemma wf_refs1_inc:
  assumes "m = [] \<or> wf_refs1 m"
  shows "wf_refs1 (mput k (mget_or 0 m k + 1) m)"
proof -
  have "0 \<le> mget_or 0 m k"
    using assms by (auto simp: wf_refs1_def mget_or_eq split: option.splits intro: less_imp_le)
  with assms show ?thesis by (auto simp: wf_refs1_def wf_mput mget_mput split: if_splits)
qed

lemma wf_refs_inc: "wf_refs r \<Longrightarrow> wf_refs (ref_inc k r)"
proof -
  assume r: "wf_refs r"
  obtain i u key where k: "k = (i, u, key)" by (cases k)
  let ?ib = "mget_or [] r i" and ?us = "mget_or [] (mget_or [] r i) u"
  have ib: "?ib = [] \<or> wf_refs2 ?ib"
    using r by (auto simp: wf_refs_def mget_or_eq split: option.splits)
  then have us: "?us = [] \<or> wf_refs1 ?us"
    by (auto simp: wf_refs2_def mget_or_eq split: option.splits)
  from wf_refs1_inc [OF us] ib have "wf_refs2 (mput u (mput key (mget_or 0 ?us key + 1) ?us) ?ib)"
    by (auto simp: wf_refs2_def wf_mput mget_mput split: if_splits)
  with r show ?thesis
    by (auto simp: k ref_inc_def wf_refs_def wf_mput mget_mput Let_def split: if_splits)
qed

text \<open>Dropping an inner map that became empty is invisible to a lookup with the empty default.\<close>

lemma mget_or_prune:
  "mget_or [] (if v = [] then mdel k m else mput k v m) k' = (if k' = k then v else mget_or [] m k')"
  by (simp add: mget_or_def mget_mput mget_mdel)

lemma wf_prune: "wf_map m \<Longrightarrow> wf_map (if v = [] then mdel k m else mput k v m)"
  by (simp add: wf_mput wf_mdel)

lemma mget_prune:
  "mget (if v = [] then mdel k m else mput k v m) k' = Some x \<Longrightarrow> (k' = k \<and> x = v \<and> v \<noteq> []) \<or> mget m k' = Some x"
  by (auto simp: mget_mput mget_mdel split: if_splits)

definition dec1 :: "string \<Rightarrow> (string, int) gomap \<Rightarrow> (string, int) gomap" where
  "dec1 key m = (let n = mget_or 0 m key - 1 in if n \<le> 0 then mdel key m else mput key n m)"

definition dec2 ::
  "string \<Rightarrow> string \<Rightarrow> (string, (string, int) gomap) gomap \<Rightarrow> (string, (string, int) gomap) gomap" where
  "dec2 user key m =
     (case mget m user of
        None \<Rightarrow> m
      | Some us \<Rightarrow> if dec1 key us = [] then mdel user m else mput user (dec1 key us) m)"

lemma ref_dec_eq:
  "ref_dec (i, u, key) r =
     (case mget r i of
        None \<Rightarrow> r
      | Some ib \<Rightarrow> if dec2 u key ib = [] then mdel i r else mput i (dec2 u key ib) r)"
  by (simp add: ref_dec_def dec2_def dec1_def Let_def split: option.splits)

lemma dec1_wf: "wf_refs1 m \<Longrightarrow> dec1 key m \<noteq> [] \<Longrightarrow> wf_refs1 (dec1 key m)"
  by (auto simp: wf_refs1_def dec1_def Let_def wf_mput wf_mdel mget_mput mget_mdel split: if_splits)

lemma dec1_count:
  assumes "wf_refs1 m"
  shows "mget_or 0 (dec1 key m) key' = (if key' = key then max 0 (mget_or 0 m key - 1) else mget_or 0 m key')"
  by (auto simp: dec1_def Let_def mget_or_mput) (auto simp: mget_or_def mget_mdel)

lemma dec2_wf: "wf_refs2 m \<Longrightarrow> dec2 u key m \<noteq> [] \<Longrightarrow> wf_refs2 (dec2 u key m)"
  by (auto simp: wf_refs2_def dec2_def wf_mput wf_mdel mget_mput mget_mdel dec1_wf split: option.splits if_splits)

lemma dec2_count:
  assumes "wf_refs2 m"
  shows "mget_or 0 (mget_or [] (dec2 u key m) u') key'
    = (if u' = u \<and> key' = key then max 0 (mget_or 0 (mget_or [] m u) key - 1)
       else mget_or 0 (mget_or [] m u') key')"
proof (cases "mget m u")
  case None
  then have "mget_or [] m u = []" by (simp add: mget_or_def)
  with None show ?thesis by (simp add: dec2_def) (simp add: mget_or_def)
next
  case (Some us)
  with assms have "wf_refs1 us" by (simp add: wf_refs2_def)
  moreover from Some have "mget_or [] m u = us" by (simp add: mget_or_def)
  ultimately show ?thesis
    using Some by (simp add: dec2_def mget_or_prune dec1_count)
qed

lemma wf_refs_dec: "wf_refs r \<Longrightarrow> wf_refs (ref_dec k r)"
  by (cases k) (auto simp: ref_dec_eq wf_refs_def wf_mput wf_mdel mget_mput mget_mdel dec2_wf
      split: option.splits if_splits)

lemma ref_count_dec:
  assumes "wf_refs r"
  shows "ref_count (ref_dec k r) k' = (if k' = k then max 0 (ref_count r k - 1) else ref_count r k')"
proof -
  obtain i u key where k: "k = (i, u, key)" by (cases k)
  obtain i' u' key' where k': "k' = (i', u', key')" by (cases k')
  show ?thesis
  proof (cases "mget r i")
    case None
    then have "mget_or [] r i = []" by (simp add: mget_or_def)
    with None show ?thesis by (simp add: k k' ref_count_def ref_dec_eq) (simp add: mget_or_def)
  next
    case (Some ib)
    with assms have "wf_refs2 ib" by (simp add: wf_refs_def)
    moreover from Some have "mget_or [] r i = ib" by (simp add: mget_or_def)
    ultimately show ?thesis
      using Some by (simp add: k k' ref_count_def ref_dec_eq mget_or_prune dec2_count)
  qed
qed

lemma ref_count_pos: "mget r i = Some ib \<Longrightarrow> mget ib u = Some us \<Longrightarrow> mget us key = Some n \<Longrightarrow> ref_count r (i, u, key) = n"
  by (simp add: ref_count_def mget_or_def)

lemma mget_hd: "m \<noteq> [] \<Longrightarrow> mget m (fst (hd m)) = Some (snd (hd m))"
  by (cases m) auto

lemma wf_refs_only_empty:
  assumes "wf_refs r" and "\<forall>k. ref_count r k = 0"
  shows "r = []"
proof (rule ccontr)
  assume "r \<noteq> []"
  then obtain i ib where ib: "mget r i = Some ib" using mget_hd by blast
  with assms(1) have w2: "wf_refs2 ib" by (simp add: wf_refs_def)
  then obtain u us where us: "mget ib u = Some us" using mget_hd unfolding wf_refs2_def by blast
  with w2 have w1: "wf_refs1 us" by (simp add: wf_refs2_def)
  then obtain key n where n: "mget us key = Some n" using mget_hd unfolding wf_refs1_def by blast
  with w1 have "0 < n" by (simp add: wf_refs1_def)
  with assms(2) ref_count_pos [OF ib us n] show False by simp
qed

interpretation rc: refcounts "[]" wf_refs ref_count ref_inc ref_dec
proof unfold_locales
  show "wf_refs []" by (simp add: wf_refs_def)
  show "ref_count [] k = 0" for k by (cases k) (simp add: ref_count_def mget_or_def)
qed (simp_all add: wf_refs_inc ref_count_inc wf_refs_dec ref_count_dec wf_refs_only_empty)

section \<open>The tracker\<close>

type_synonym alive_map = "(string, (string, string list) gomap) gomap"

record session_tracker =
  deviceRefs :: refs
  sourceRefs :: refs
  lastAlive :: alive_map
  classifier :: "source_rule list option"

definition NewSessionTracker :: "source_rule list option \<Rightarrow> session_tracker" where
  "NewSessionTracker c = \<lparr>deviceRefs = [], sourceRefs = [], lastAlive = [], classifier = c\<rparr>"

text \<open>What \<open>Open\<close> captures for the function it returns, and that function's \<open>sync.Once\<close>.\<close>

record opened =
  op_inbound :: string
  op_user :: string
  op_ip :: string
  op_label :: string
  once_done :: bool

text \<open>\<open>Open\<close>; \<open>None\<close> is the function that does nothing.\<close>

definition Open :: "string \<Rightarrow> string \<Rightarrow> string \<Rightarrow> session_tracker \<Rightarrow> opened option \<times> session_tracker" where
  "Open inbound user source t =
     (if user = [] then (None, t)
      else
        (let inbound = normalizeInboundTag inbound;
             ip = normalizePeerIP source;
             l = Classify (classifier t) source;
             t = (if ip \<noteq> [] then t\<lparr>deviceRefs := ref_inc (inbound, user, ip) (deviceRefs t)\<rparr> else t);
             t = (if l \<noteq> [] then t\<lparr>sourceRefs := ref_inc (inbound, user, l) (sourceRefs t)\<rparr> else t)
         in (Some \<lparr>op_inbound = inbound, op_user = user, op_ip = ip, op_label = l, once_done = False\<rparr>, t)))"

definition close_session :: "string \<Rightarrow> string \<Rightarrow> string \<Rightarrow> string \<Rightarrow> session_tracker \<Rightarrow> session_tracker" where
  "close_session inbound user ip l t =
     (if user = [] then t
      else
        (let t = (if ip \<noteq> [] then t\<lparr>deviceRefs := ref_dec (inbound, user, ip) (deviceRefs t)\<rparr> else t)
         in if l \<noteq> [] then t\<lparr>sourceRefs := ref_dec (inbound, user, l) (sourceRefs t)\<rparr> else t))"

definition run_opened :: "opened \<Rightarrow> session_tracker \<Rightarrow> opened \<times> session_tracker" where
  "run_opened o1 t =
     (if once_done o1 then (o1, t)
      else (o1\<lparr>once_done := True\<rparr>,
            close_session (op_inbound o1) (op_user o1) (op_ip o1) (op_label o1) t))"

definition peer_list :: "(string, int) gomap \<Rightarrow> string list" where
  "peer_list peers = sort (mkeys peers)"

definition DevicesSnapshot :: "session_tracker \<Rightarrow> alive_map" where
  "DevicesSnapshot t =
     map (\<lambda>(inbound, users). (inbound, map (\<lambda>(user, peers). (user, peer_list peers)) users)) (deviceRefs t)"

text \<open>An assignment \<open>out[inbound][user] = v\<close> that makes the inner map when it is nil.\<close>

definition mput2 :: "string \<Rightarrow> string \<Rightarrow> 'v \<Rightarrow> (string, (string, 'v) gomap) gomap \<Rightarrow> (string, (string, 'v) gomap) gomap" where
  "mput2 inbound user v out = mput inbound (mput user v (mget_or [] out inbound)) out"

definition sameStringSlice :: "string list \<Rightarrow> string list \<Rightarrow> bool" where
  "sameStringSlice a b \<longleftrightarrow> length a = length b \<and> list_all2 (=) a b"

definition alive_changed :: "alive_map \<Rightarrow> alive_map \<Rightarrow> alive_map" where
  "alive_changed lastA current =
     fold (\<lambda>(inbound, users) out.
         fold (\<lambda>(user, ips) out.
             if \<not> sameStringSlice (mget_or [] (mget_or [] lastA inbound) user) ips then mput2 inbound user ips out else out)
           users out)
       current []"

definition alive_gone :: "alive_map \<Rightarrow> alive_map \<Rightarrow> alive_map \<Rightarrow> alive_map" where
  "alive_gone lastA current out =
     fold (\<lambda>(inbound, users) out.
         fold (\<lambda>(user, _) out.
             case mget current inbound of
               None \<Rightarrow> mput2 inbound user [] out
             | Some currentUsers \<Rightarrow>
                 if mget currentUsers user = None then mput2 inbound user [] out else out)
           users out)
       lastA out"

definition AliveDelta :: "session_tracker \<Rightarrow> alive_map" where
  "AliveDelta t =
     (let current = DevicesSnapshot t
      in alive_gone (lastAlive t) current (alive_changed (lastAlive t) current))"

definition commit_user :: "string \<Rightarrow> string \<times> string list \<Rightarrow> alive_map \<Rightarrow> alive_map" where
  "commit_user inbound e lastA =
     (case e of (user, ips) \<Rightarrow>
        if ips = [] then mput inbound (mdel user (mget_or [] lastA inbound)) lastA
        else mput inbound (mput user (sort ips) (mget_or [] lastA inbound)) lastA)"

definition commit_inbound :: "string \<times> (string, string list) gomap \<Rightarrow> alive_map \<Rightarrow> alive_map" where
  "commit_inbound e lastA =
     (case e of (inbound, users) \<Rightarrow>
        if users = [] then mdel inbound lastA
        else
          (let lastA = (if mget lastA inbound = None then mput inbound [] lastA else lastA);
               lastA = fold (commit_user inbound) users lastA
           in if mget_or [] lastA inbound = [] then mdel inbound lastA else lastA))"

definition CommitAlive :: "alive_map \<Rightarrow> session_tracker \<Rightarrow> session_tracker" where
  "CommitAlive payload t = t\<lparr>lastAlive := fold commit_inbound payload (lastAlive t)\<rparr>"

text \<open>\<open>SourceSnapshot\<close> copies the map.\<close>

definition SourceSnapshot :: "session_tracker \<Rightarrow> refs" where
  "SourceSnapshot t =
     map (\<lambda>(inbound, users). (inbound, map (\<lambda>(user, labels). (user, labels)) users)) (sourceRefs t)"

section \<open>The tracker holds the open sessions\<close>

definition device_key :: "opened \<Rightarrow> string \<times> string \<times> string" where
  "device_key o1 = (op_inbound o1, op_user o1, op_ip o1)"

definition source_key :: "opened \<Rightarrow> string \<times> string \<times> string" where
  "source_key o1 = (op_inbound o1, op_user o1, op_label o1)"

definition tracks :: "session_tracker \<Rightarrow> opened multiset \<Rightarrow> bool" where
  "tracks t M \<longleftrightarrow>
     rc.holds (deviceRefs t) (image_mset device_key (filter_mset (\<lambda>o1. op_ip o1 \<noteq> []) M))
     \<and> rc.holds (sourceRefs t) (image_mset source_key (filter_mset (\<lambda>o1. op_label o1 \<noteq> []) M))
     \<and> (\<forall>o1 \<in># M. \<not> once_done o1 \<and> op_user o1 \<noteq> [])"

lemma tracks_New: "tracks (NewSessionTracker c) {#}"
  by (simp add: tracks_def NewSessionTracker_def rc.holds_empty)

lemma tracks_Open:
  assumes "tracks t M" and "Open inbound user source t = (Some o1, t')"
  shows "tracks t' (add_mset o1 M)"
  using assms
  by (auto simp: tracks_def Open_def Let_def device_key_def source_key_def rc.holds_inc split: if_splits)

lemma Open_None: "Open inbound user source t = (None, t') \<Longrightarrow> t' = t \<and> user = []"
  by (auto simp: Open_def Let_def split: if_splits)

lemma tracks_run_opened:
  assumes "tracks t (add_mset o1 M)"
  shows "tracks (snd (run_opened o1 t)) M"
  using assms
  by (auto simp: tracks_def run_opened_def close_session_def Let_def device_key_def source_key_def
      intro: rc.holds_dec split: if_splits)

lemma tracks_nothing: "tracks t {#} \<longleftrightarrow> deviceRefs t = [] \<and> sourceRefs t = []"
  by (simp add: tracks_def rc.holds_nothing)

end
