(* ===== verification/Panel.thy ===== *)
theory Panel
  imports Source_Tags Traffic_Counter Session_Tracker
begin

text \<open>
  The panel interface of \<open>panelapi/local.go\<close> and its composite implementations: \<open>MultiPanel\<close>
  (\<open>multi.go\<close>), \<open>SourceFilteredPanel\<close> (\<open>source_filter.go\<close>), \<open>SourceMappedPanel\<close>
  (\<open>source_map.go\<close>) and \<open>LocalUsers\<close> (\<open>local.go\<close>), with the types of \<open>types.go\<close>.

  A \<open>Panel\<close> value is the record of its methods over the state \<open>'w\<close> of the outside world (the
  panel servers), with its identity as a map key: Go compares interface values by dynamic type
  and value, and panics when the value has a slice or a map in it. A nil interface is \<open>None\<close>.
  Contexts only carry deadlines; what they do to a call is part of \<open>'w\<close>.

  \<open>routeTraffic\<close> returns a map keyed by panels: here the key is the identity, and the panel is kept
  with its part of the traffic.
\<close>

section \<open>Types\<close>

record user =
  ID :: i64
  UUID :: string
  Password :: string
  Name :: string
  SpeedLimit :: i64

type_synonym traffic = "(string, user_traffic) gomap"

datatype iface_value = Pointer nat | Local string | Unhashable

record 'w panel =
  identity :: iface_value
  FetchUsers :: "'w \<Rightarrow> (error + user list) \<times> 'w"
  PushTraffic :: "traffic \<Rightarrow> 'w \<Rightarrow> outcome \<times> 'w"
  PushAlive :: "alive_map \<Rightarrow> 'w \<Rightarrow> outcome \<times> 'w"

section \<open>MultiPanel\<close>

text \<open>The loop over the users of one panel: \<open>merged\<close> and the identifiers \<open>seen\<close>.\<close>

fun add_users :: "user list \<Rightarrow> user list \<times> i64 list \<Rightarrow> user list \<times> i64 list" where
  "add_users [] st = st"
| "add_users (u # us) (merged, seen) =
     (if 0 <s ID u then
        if ID u \<in> set seen then add_users us (merged, seen)
        else add_users us (merged @ [u], ID u # seen)
      else add_users us (merged @ [u], seen))"

fun fetch_all :: "'w panel option list \<Rightarrow> user list \<times> i64 list \<Rightarrow> 'w \<Rightarrow> (error + user list) \<times> 'w" where
  "fetch_all [] st w = (Inr (fst st), w)"
| "fetch_all (None # ps) st w = fetch_all ps st w"
| "fetch_all (Some p # ps) st w =
     (case FetchUsers p w of
        (Inl err, w) \<Rightarrow> (Inl err, w)
      | (Inr users, w) \<Rightarrow> fetch_all ps (add_users users st) w)"

definition Multi_FetchUsers :: "'w panel option list \<Rightarrow> 'w \<Rightarrow> (error + user list) \<times> 'w" where
  "Multi_FetchUsers panels w = fetch_all panels ([], []) w"

fun Multi_PushTraffic :: "'w panel option list \<Rightarrow> traffic \<Rightarrow> 'w \<Rightarrow> outcome \<times> 'w" where
  "Multi_PushTraffic [] delta w = (NoError, w)"
| "Multi_PushTraffic (None # ps) delta w = Multi_PushTraffic ps delta w"
| "Multi_PushTraffic (Some p # ps) delta w =
     (case PushTraffic p delta w of
        (NoError, w) \<Rightarrow> Multi_PushTraffic ps delta w
      | (Failed err, w) \<Rightarrow> (Failed (Wrap ''push traffic to panel'' err), w)
      | (Panicked m, w) \<Rightarrow> (Panicked m, w))"

fun Multi_PushAlive :: "'w panel option list \<Rightarrow> alive_map \<Rightarrow> 'w \<Rightarrow> outcome \<times> 'w" where
  "Multi_PushAlive [] alive w = (NoError, w)"
| "Multi_PushAlive (None # ps) alive w = Multi_PushAlive ps alive w"
| "Multi_PushAlive (Some p # ps) alive w =
     (case PushAlive p alive w of
        (NoError, w) \<Rightarrow> Multi_PushAlive ps alive w
      | (Failed err, w) \<Rightarrow> (Failed (Wrap ''push alive to panel'' err), w)
      | (Panicked m, w) \<Rightarrow> (Panicked m, w))"

definition MultiPanel :: "'w panel option list \<Rightarrow> 'w panel" where
  "MultiPanel panels =
     \<lparr>identity = Unhashable, FetchUsers = Multi_FetchUsers panels,
      PushTraffic = Multi_PushTraffic panels, PushAlive = Multi_PushAlive panels\<rparr>"

section \<open>SourceFilteredPanel\<close>

definition shouldDrop :: "(string, bool) gomap \<Rightarrow> string \<Rightarrow> bool" where
  "shouldDrop dropSources inbound =
     (if dropSources = [] then False
      else (let (_, source) = splitSourceInbound inbound
            in source \<noteq> [] \<and> mget_or False dropSources source))"

definition copyPeers :: "string list \<Rightarrow> string list" where
  "copyPeers peers = (if peers = [] then [] else peers)"

definition filterTraffic :: "(string, bool) gomap \<Rightarrow> traffic \<Rightarrow> traffic" where
  "filterTraffic dropSources delta =
     fold (\<lambda>(inbound, users) out.
         if shouldDrop dropSources inbound then out
         else mput inbound (fold (\<lambda>(user, d) inner. mput user d inner) users []) out)
       delta []"

definition filterAlive :: "(string, bool) gomap \<Rightarrow> alive_map \<Rightarrow> alive_map" where
  "filterAlive dropSources alive =
     fold (\<lambda>(inbound, users) out.
         if shouldDrop dropSources inbound then out
         else mput inbound (fold (\<lambda>(user, peers) inner. mput user (copyPeers peers) inner) users []) out)
       alive []"

definition Filtered_FetchUsers :: "'w panel option \<Rightarrow> 'w \<Rightarrow> (error + user list) \<times> 'w" where
  "Filtered_FetchUsers inner w = (case inner of None \<Rightarrow> (Inr [], w) | Some p \<Rightarrow> FetchUsers p w)"

definition Filtered_PushTraffic ::
  "'w panel option \<Rightarrow> (string, bool) gomap \<Rightarrow> traffic \<Rightarrow> 'w \<Rightarrow> outcome \<times> 'w" where
  "Filtered_PushTraffic inner dropSources delta w =
     (case inner of
        None \<Rightarrow> (NoError, w)
      | Some p \<Rightarrow>
          (let filtered = filterTraffic dropSources delta
           in if filtered = [] then (NoError, w) else PushTraffic p filtered w))"

definition Filtered_PushAlive ::
  "'w panel option \<Rightarrow> (string, bool) gomap \<Rightarrow> alive_map \<Rightarrow> 'w \<Rightarrow> outcome \<times> 'w" where
  "Filtered_PushAlive inner dropSources alive w =
     (case inner of
        None \<Rightarrow> (NoError, w)
      | Some p \<Rightarrow>
          (let filtered = filterAlive dropSources alive
           in if filtered = [] then (NoError, w) else PushAlive p filtered w))"

definition SourceFilteredPanel :: "'w panel option \<Rightarrow> (string, bool) gomap \<Rightarrow> 'w panel" where
  "SourceFilteredPanel inner dropSources =
     \<lparr>identity = Unhashable, FetchUsers = Filtered_FetchUsers inner,
      PushTraffic = Filtered_PushTraffic inner dropSources,
      PushAlive = Filtered_PushAlive inner dropSources\<rparr>"

section \<open>SourceMappedPanel\<close>

record 'w source_mapped =
  Default :: "'w panel option"
  Routes :: "(string, 'w panel option) gomap"

definition routeForInbound :: "'w source_mapped \<Rightarrow> string \<Rightarrow> 'w panel option \<times> string" where
  "routeForInbound m inbound =
     (let (baseInbound, source) = splitSourceInbound inbound
      in if source \<noteq> [] \<and> mget_or None (Routes m) source \<noteq> None
         then (mget_or None (Routes m) source, baseInbound)
         else (Default m, baseInbound))"

text \<open>
  What is routed to each panel. The body of the loop panics when the panel cannot be a map key:
  \<open>Inl\<close> is the panic.
\<close>

type_synonym ('w, 'v) routed = "(iface_value, 'w panel \<times> (string, (string, 'v) gomap) gomap) gomap"

definition route_entry ::
  "(string \<Rightarrow> (string, 'v) gomap \<Rightarrow> (string, (string, 'v) gomap) gomap \<Rightarrow> (string, (string, 'v) gomap) gomap) \<Rightarrow>
   'w source_mapped \<Rightarrow> string \<times> (string, 'v) gomap \<Rightarrow> string + ('w, 'v) routed \<Rightarrow> string + ('w, 'v) routed" where
  "route_entry add m e out =
     (case out of
        Inl panic \<Rightarrow> Inl panic
      | Inr out \<Rightarrow>
          (case e of (inbound, users) \<Rightarrow>
             (case routeForInbound m inbound of
                (None, _) \<Rightarrow> Inr out
              | (Some p, baseInbound) \<Rightarrow>
                  if identity p = Unhashable then Inl ''hash of unhashable type''
                  else
                    (let (q, parts) = mget_or (p, []) out (identity p);
                         parts = (if mget parts baseInbound = None then mput baseInbound [] parts else parts)
                     in Inr (mput (identity p) (q, add baseInbound users parts) out)))))"

definition add_traffic :: "string \<Rightarrow> user_traffic \<Rightarrow> traffic \<Rightarrow> traffic" where
  "add_traffic baseInbound users parts =
     fold (\<lambda>(user, d) parts.
         let inner = mget_or [] parts baseInbound
         in mput baseInbound (mput user (add2 (mget_or zero2 inner user) d) inner) parts)
       users parts"

definition set_alive :: "string \<Rightarrow> (string, string list) gomap \<Rightarrow> alive_map \<Rightarrow> alive_map" where
  "set_alive baseInbound users parts =
     fold (\<lambda>(user, peers) parts.
         mput baseInbound (mput user (copyPeers peers) (mget_or [] parts baseInbound)) parts)
       users parts"

definition routeTraffic :: "'w source_mapped \<Rightarrow> traffic \<Rightarrow> string + ('w, pair64) routed" where
  "routeTraffic m delta = fold (route_entry add_traffic m) delta (Inr [])"

definition routeAlive :: "'w source_mapped \<Rightarrow> alive_map \<Rightarrow> string + ('w, string list) routed" where
  "routeAlive m alive = fold (route_entry set_alive m) alive (Inr [])"

text \<open>The loop that pushes each panel its part.\<close>

fun push_routed ::
  "string \<Rightarrow> ('w panel \<Rightarrow> (string, (string, 'v) gomap) gomap \<Rightarrow> 'w \<Rightarrow> outcome \<times> 'w) \<Rightarrow> ('w, 'v) routed \<Rightarrow> 'w
   \<Rightarrow> outcome \<times> 'w" where
  "push_routed msg push [] w = (NoError, w)"
| "push_routed msg push ((k, p, routed) # rs) w =
     (if routed = [] then push_routed msg push rs w
      else
        (case push p routed w of
           (NoError, w) \<Rightarrow> push_routed msg push rs w
         | (Failed err, w) \<Rightarrow> (Failed (Wrap msg err), w)
         | (Panicked m, w) \<Rightarrow> (Panicked m, w)))"

definition Mapped_FetchUsers :: "'w source_mapped \<Rightarrow> 'w \<Rightarrow> (error + user list) \<times> 'w" where
  "Mapped_FetchUsers m w = fetch_all (Default m # map snd (Routes m)) ([], []) w"

definition Mapped_PushTraffic :: "'w source_mapped \<Rightarrow> traffic \<Rightarrow> 'w \<Rightarrow> outcome \<times> 'w" where
  "Mapped_PushTraffic m delta w =
     (case routeTraffic m delta of
        Inl panic \<Rightarrow> (Panicked panic, w)
      | Inr routed \<Rightarrow> push_routed ''push source-mapped traffic'' PushTraffic routed w)"

definition Mapped_PushAlive :: "'w source_mapped \<Rightarrow> alive_map \<Rightarrow> 'w \<Rightarrow> outcome \<times> 'w" where
  "Mapped_PushAlive m alive w =
     (case routeAlive m alive of
        Inl panic \<Rightarrow> (Panicked panic, w)
      | Inr routed \<Rightarrow> push_routed ''push source-mapped alive'' PushAlive routed w)"

definition SourceMappedPanel :: "'w source_mapped \<Rightarrow> 'w panel" where
  "SourceMappedPanel m =
     \<lparr>identity = Unhashable, FetchUsers = Mapped_FetchUsers m,
      PushTraffic = Mapped_PushTraffic m, PushAlive = Mapped_PushAlive m\<rparr>"

section \<open>LocalUsers\<close>

text \<open>
  \<open>encoding/json\<close> between bytes and Go values is a parameter: \<open>ParseUsers\<close> takes what
  \<open>json.Unmarshal\<close> made of the data, \<open>read_file\<close> stands for \<open>os.ReadFile\<close>.
\<close>

record local_user_file =
  lf_Users :: "user list"
  lf_Data :: "user list"
  lf_Inbounds :: "(string, user list) gomap"

definition ParseUsers :: "error + local_user_file \<Rightarrow> error + user list" where
  "ParseUsers decoded =
     (case decoded of
        Inl err \<Rightarrow> Inl err
      | Inr l \<Rightarrow>
          if lf_Users l \<noteq> [] then Inr (lf_Users l)
          else if lf_Data l \<noteq> [] then Inr (lf_Data l)
          else if lf_Inbounds l = [] then Inr []
          else Inr (fold (\<lambda>(inbound, users) out. out @ users) (lf_Inbounds l) []))"

definition Local_FetchUsers ::
  "(string \<Rightarrow> 'w \<Rightarrow> error + 'bytes) \<Rightarrow> ('bytes \<Rightarrow> error + local_user_file) \<Rightarrow> string \<Rightarrow> 'w \<Rightarrow> (error + user list) \<times> 'w" where
  "Local_FetchUsers read_file unmarshal path w =
     (case read_file path w of
        Inl err \<Rightarrow> (Inl err, w)
      | Inr data \<Rightarrow> (ParseUsers (unmarshal data), w))"

definition LocalUsers ::
  "(string \<Rightarrow> 'w \<Rightarrow> error + 'bytes) \<Rightarrow> ('bytes \<Rightarrow> error + local_user_file) \<Rightarrow> string \<Rightarrow> 'w panel" where
  "LocalUsers read_file unmarshal path =
     \<lparr>identity = Local path, FetchUsers = Local_FetchUsers read_file unmarshal path,
      PushTraffic = (\<lambda>delta w. (NoError, w)), PushAlive = (\<lambda>alive w. (NoError, w))\<rparr>"

section \<open>Merged users\<close>

text \<open>
  The users of several lists, in order, without those whose positive identifier came before.
\<close>

fun first_by_id :: "i64 set \<Rightarrow> user list \<Rightarrow> user list" where
  "first_by_id S [] = []"
| "first_by_id S (u # us) =
     (if 0 <s ID u \<and> ID u \<in> S then first_by_id S us
      else u # first_by_id (if 0 <s ID u then insert (ID u) S else S) us)"

lemma add_users_first:
  "fst (add_users us (merged, seen)) = merged @ first_by_id (set seen) us
   \<and> set (snd (add_users us (merged, seen))) = set seen \<union> {ID u | u. u \<in> set us \<and> 0 <s ID u}"
  by (induction us arbitrary: merged seen) auto

lemma first_by_id_append:
  "first_by_id S (us @ vs) = first_by_id S us @ first_by_id (S \<union> {ID u | u. u \<in> set us \<and> 0 <s ID u}) vs"
proof (induction us arbitrary: S)
  case Nil
  then show ?case by simp
next
  case (Cons u us)
  have "insert (ID u) S \<union> {ID v | v. v \<in> set us \<and> 0 <s ID v} = S \<union> {ID v | v. v \<in> set (u # us) \<and> 0 <s ID v}"
    if "0 <s ID u" using that by auto
  moreover have "S \<union> {ID v | v. v \<in> set us \<and> 0 <s ID v} = S \<union> {ID v | v. v \<in> set (u # us) \<and> 0 <s ID v}"
    if "\<not> 0 <s ID u \<or> ID u \<in> S" using that by auto
  ultimately show ?case using Cons.IH by auto
qed

lemma first_by_id_fresh: "u \<in> set (first_by_id S us) \<Longrightarrow> 0 <s ID u \<Longrightarrow> ID u \<notin> S"
  by (induction us arbitrary: S) (auto split: if_splits)

lemma first_by_id_distinct: "distinct (filter (\<lambda>i. 0 <s i) (map ID (first_by_id S us)))"
proof (induction us arbitrary: S)
  case (Cons u us)
  have "ID u \<notin> set (map ID (first_by_id (insert (ID u) S) us))" if "0 <s ID u"
  proof
    assume "ID u \<in> set (map ID (first_by_id (insert (ID u) S) us))"
    then obtain v where "v \<in> set (first_by_id (insert (ID u) S) us)" "ID v = ID u" by auto
    with first_by_id_fresh that show False by force
  qed
  with Cons.IH show ?case by simp
qed simp

lemma first_by_id_complete:
  "u \<in> set us \<Longrightarrow> 0 <s ID u \<Longrightarrow> ID u \<notin> S \<Longrightarrow> \<exists>v \<in> set (first_by_id S us). ID v = ID u"
proof (induction us arbitrary: S)
  case (Cons a us)
  show ?case
  proof (cases "ID a = ID u")
    case True
    with Cons.prems show ?thesis by auto
  next
    case False
    with Cons.prems have "u \<in> set us" by auto
    with Cons.IH [of S] Cons.IH [of "insert (ID a) S"] Cons.prems False show ?thesis by auto
  qed
qed simp

lemma first_by_id_subset: "set (first_by_id S us) \<subseteq> set us"
  by (induction us arbitrary: S) auto

text \<open>What the panels answer one after the other: the lists up to the first error.\<close>

fun answers :: "'w panel option list \<Rightarrow> 'w \<Rightarrow> (error + user list list) \<times> 'w" where
  "answers [] w = (Inr [], w)"
| "answers (None # ps) w = answers ps w"
| "answers (Some p # ps) w =
     (case FetchUsers p w of
        (Inl err, w) \<Rightarrow> (Inl err, w)
      | (Inr users, w) \<Rightarrow>
          (case answers ps w of
             (Inl err, w) \<Rightarrow> (Inl err, w)
           | (Inr uss, w) \<Rightarrow> (Inr (users # uss), w)))"

lemma fetch_all_answers:
  "fetch_all ps (merged, seen) w =
     (case answers ps w of
        (Inl err, w) \<Rightarrow> (Inl err, w)
      | (Inr uss, w) \<Rightarrow> (Inr (merged @ first_by_id (set seen) (concat uss)), w))"
proof (induction ps "(merged, seen)" w arbitrary: merged seen rule: fetch_all.induct)
  case (3 p ps w)
  show ?case
  proof (cases "FetchUsers p w")
    case (Pair r w1)
    show ?thesis
    proof (cases r)
      case (Inl err)
      with Pair show ?thesis by simp
    next
      case (Inr users)
      obtain merged' seen' where st: "add_users users (merged, seen) = (merged', seen')" by (cases "add_users users (merged, seen)")
      with add_users_first [of users merged seen] "3.hyps" [OF Pair [symmetric] Inr, of merged' seen'] Pair Inr
      show ?thesis by (auto simp: first_by_id_append split: prod.splits sum.splits)
    qed
  qed
qed (auto split: prod.splits sum.splits)

section \<open>Routing\<close>

text \<open>Where the traffic of an inbound goes: the identity of the panel and the inbound name it sees.\<close>

definition route_key :: "'w source_mapped \<Rightarrow> string \<Rightarrow> (iface_value \<times> string) option" where
  "route_key m inbound = (case routeForInbound m inbound of (None, _) \<Rightarrow> None | (Some p, b) \<Rightarrow> Some (identity p, b))"

text \<open>The amount a routing holds for a panel, an inbound and a user.\<close>

definition routed_parts :: "('w, 'v) routed \<Rightarrow> iface_value \<Rightarrow> (string, (string, 'v) gomap) gomap" where
  "routed_parts out k = (case mget out k of None \<Rightarrow> [] | Some (p, parts) \<Rightarrow> parts)"

definition amount :: "traffic \<Rightarrow> string \<Rightarrow> string \<Rightarrow> pair64" where
  "amount parts b u = mget_or zero2 (mget_or [] parts b) u"

lemma amount_add_traffic:
  assumes "wf_map users"
  shows "amount (add_traffic b users parts) b' u
    = add2 (amount parts b' u) (if b' = b then mget_or zero2 users u else zero2)"
  using assms
proof (induction users arbitrary: parts)
  case Nil
  then show ?case by (simp add: add_traffic_def mget_or_def)
next
  case (Cons e users)
  obtain v d where e: "e = (v, d)" by (cases e)
  let ?parts = "mput b (mput v (add2 (mget_or zero2 (mget_or [] parts b) v) d) (mget_or [] parts b)) parts"
  have "add_traffic b (e # users) parts = add_traffic b users ?parts" by (simp add: e add_traffic_def Let_def)
  moreover have "mget_or zero2 (e # users) u = (if u = v then d else mget_or zero2 users u)"
    by (simp add: e mget_or_def)
  moreover have "u = v \<Longrightarrow> mget_or zero2 users u = zero2" using Cons.prems by (simp add: e mget_or_def)
  ultimately show ?case
    using Cons.prems Cons.IH [of ?parts] by (auto simp: e amount_def mget_or_mput)
qed

lemma route_entry_Inl: "fold (route_entry add m) es (Inl panic) = Inl panic"
  by (induction es) (auto simp: route_entry_def)

text \<open>One pass of the loop, when it does not panic.\<close>

lemma route_entry_parts:
  assumes "route_entry add m (inbound, users) (Inr out) = Inr out'"
  shows "routed_parts out' k
    = (case route_key m inbound of
         None \<Rightarrow> routed_parts out k
       | Some (k', b) \<Rightarrow>
           if k = k' then
             add b users (if mget (routed_parts out k) b = None then mput b [] (routed_parts out k) else routed_parts out k)
           else routed_parts out k)"
proof (cases "routeForInbound m inbound")
  case (Pair p b)
  with assms show ?thesis
    by (auto simp: route_entry_def route_key_def routed_parts_def mget_or_def mget_mput Let_def
        split: option.splits if_splits prod.splits)
qed

lemma amount_make: "amount (if mget parts b = None then mput b [] parts else parts) b' u = amount parts b' u"
  by (auto simp: amount_def mget_or_def mget_mput)

lemma route_fold_amount:
  assumes "wf_map2 delta" and "fold (route_entry add_traffic m) delta (Inr out) = Inr out'"
  shows "amount (routed_parts out' k) b u
    = add2 (amount (routed_parts out k) b u)
        (sum2 (map (\<lambda>(inbound, users). if route_key m inbound = Some (k, b) then mget_or zero2 users u else zero2) delta))"
  using assms
proof (induction delta arbitrary: out)
  case Nil
  then show ?case by simp
next
  case (Cons e delta)
  obtain inbound users where e: "e = (inbound, users)" by (cases e)
  obtain out1 where out1: "route_entry add_traffic m (inbound, users) (Inr out) = Inr out1"
    using Cons.prems(2)
    by (cases "route_entry add_traffic m (inbound, users) (Inr out)") (auto simp: e route_entry_Inl)
  have wf: "wf_map users" "wf_map2 delta" using Cons.prems(1) by (auto simp: e wf_map2_def)
  have "amount (routed_parts out1 k) b u
      = add2 (amount (routed_parts out k) b u)
          (if route_key m inbound = Some (k, b) then mget_or zero2 users u else zero2)"
    by (auto simp: route_entry_parts [OF out1] amount_add_traffic [OF wf(1)] amount_make split: option.splits)
  moreover have "fold (route_entry add_traffic m) delta (Inr out1) = Inr out'"
    using Cons.prems(2) out1 by (simp add: e)
  ultimately show ?case using Cons.IH [OF wf(2)] by (simp add: e add2_assoc)
qed

text \<open>The same for the alive lists: an entry replaces what an earlier inbound left.\<close>

definition peers_at :: "alive_map \<Rightarrow> string \<Rightarrow> string \<Rightarrow> string list option" where
  "peers_at parts b u = mget (mget_or [] parts b) u"

lemma peers_at_set_alive:
  assumes "wf_map users"
  shows "peers_at (set_alive b users parts) b' u
    = (if b' = b \<and> mget users u \<noteq> None then mget users u else peers_at parts b' u)"
  using assms
proof (induction users arbitrary: parts)
  case Nil
  then show ?case by (simp add: set_alive_def)
next
  case (Cons e users)
  obtain v ps where e: "e = (v, ps)" by (cases e)
  let ?parts = "mput b (mput v (copyPeers ps) (mget_or [] parts b)) parts"
  have "set_alive b (e # users) parts = set_alive b users ?parts" by (simp add: e set_alive_def)
  moreover have "u = v \<Longrightarrow> mget users u = None" using Cons.prems by (simp add: e)
  moreover have "copyPeers ps = ps" by (simp add: copyPeers_def)
  ultimately show ?case
    using Cons.prems Cons.IH [of ?parts] by (auto simp: e peers_at_def mget_or_mput mget_mput)
qed

lemma peers_at_make: "peers_at (if mget parts b = None then mput b [] parts else parts) b' u = peers_at parts b' u"
  by (auto simp: peers_at_def mget_or_def mget_mput)

definition last_named :: "'w source_mapped \<Rightarrow> iface_value \<Rightarrow> string \<Rightarrow> string \<Rightarrow> alive_map \<Rightarrow> string list option \<Rightarrow> string list option" where
  "last_named m k b u alive acc =
     fold (\<lambda>(inbound, users) acc.
         if route_key m inbound = Some (k, b) \<and> mget users u \<noteq> None then mget users u else acc) alive acc"

lemma route_fold_alive:
  assumes "wf_map2 alive" and "fold (route_entry set_alive m) alive (Inr out) = Inr out'"
  shows "peers_at (routed_parts out' k) b u = last_named m k b u alive (peers_at (routed_parts out k) b u)"
  using assms
proof (induction alive arbitrary: out)
  case Nil
  then show ?case by (simp add: last_named_def)
next
  case (Cons e alive)
  obtain inbound users where e: "e = (inbound, users)" by (cases e)
  obtain out1 where out1: "route_entry set_alive m (inbound, users) (Inr out) = Inr out1"
    using Cons.prems(2)
    by (cases "route_entry set_alive m (inbound, users) (Inr out)") (auto simp: e route_entry_Inl)
  have wf: "wf_map users" "wf_map2 alive" using Cons.prems(1) by (auto simp: e wf_map2_def)
  have "peers_at (routed_parts out1 k) b u
      = (if route_key m inbound = Some (k, b) \<and> mget users u \<noteq> None then mget users u
         else peers_at (routed_parts out k) b u)"
    by (auto simp: route_entry_parts [OF out1] peers_at_set_alive [OF wf(1)] peers_at_make split: option.splits)
  moreover have "fold (route_entry set_alive m) alive (Inr out1) = Inr out'"
    using Cons.prems(2) out1 by (simp add: e)
  ultimately show ?case using Cons.IH [OF wf(2)] by (simp add: e last_named_def)
qed

lemma route_panics:
  assumes "(inbound, users) \<in> set delta" and "routeForInbound m inbound = (Some p, b)" and "identity p = Unhashable"
  shows "fold (route_entry add m) delta out = Inl (case out of Inl x \<Rightarrow> x | Inr _ \<Rightarrow> ''hash of unhashable type'')"
  using assms(1)
proof (induction delta arbitrary: out)
  case Nil
  then show ?case by simp
next
  case (Cons e delta)
  show ?case
  proof (cases out)
    case (Inl panic)
    moreover have "route_entry add m e (Inl panic) = Inl panic" by (simp add: route_entry_def)
    ultimately show ?thesis by (simp add: route_entry_Inl)
  next
    case (Inr o1)
    show ?thesis
    proof (cases "route_entry add m e (Inr o1)")
      case (Inl panic)
      then have "panic = ''hash of unhashable type''"
        by (auto simp: route_entry_def Let_def split: prod.splits option.splits if_splits)
      with Inl Inr show ?thesis by (simp add: route_entry_Inl)
    next
      case (Inr o2)
      moreover have "e \<noteq> (inbound, users)"
      proof
        assume "e = (inbound, users)"
        with Inr assms(2,3) show False by (simp add: route_entry_def)
      qed
      ultimately show ?thesis using Cons \<open>out = Inr o1\<close> by simp
    qed
  qed
qed

section \<open>Filtering\<close>

lemma copy_users: "wf_map users \<Longrightarrow> fold (\<lambda>(user, d) inner. mput user d inner) users [] = users"
  using fold_put_select [of users "\<lambda>k v. True" "\<lambda>k v. v"] by simp

text \<open>A loop that copies the inner maps of the entries it does not drop.\<close>

lemma fold_copy_filter:
  assumes "wf_map2 m"
  shows "fold (\<lambda>(k, us) out. if P k then out
      else mput k (fold (\<lambda>(u, x) inner. mput u x inner) us []) out) m [] = filter (\<lambda>e. \<not> P (fst e)) m"
proof -
  have "fold (\<lambda>(k, us) out. if P k then out else mput k (fold (\<lambda>(u, x) inner. mput u x inner) us []) out) m []
      = fold (\<lambda>(k, us) out. if \<not> P k then mput k (fold (\<lambda>(u, x) inner. mput u x inner) us []) out else out) m []"
    by (rule fold_cong) auto
  also have "\<dots> = map (\<lambda>(k, us). (k, fold (\<lambda>(u, x) inner. mput u x inner) us [])) (filter (\<lambda>(k, us). \<not> P k) m)"
    using assms by (intro fold_put_select) (simp add: wf_map2_def)
  also have "\<dots> = map id (filter (\<lambda>(k, us). \<not> P k) m)"
  proof (rule map_cong [OF refl])
    fix e assume "e \<in> set (filter (\<lambda>(k, us). \<not> P k) m)"
    with assms have "wf_map (snd e)" by (simp add: wf_map2_def)
    then show "(\<lambda>(k, us). (k, fold (\<lambda>(u, x) inner. mput u x inner) us [])) e = id e"
      using copy_users by (cases e) simp
  qed
  finally show ?thesis by (simp add: case_prod_unfold)
qed

lemma filterTraffic_eq:
  "wf_map2 delta \<Longrightarrow> filterTraffic dropSources delta = filter (\<lambda>e. \<not> shouldDrop dropSources (fst e)) delta"
  unfolding filterTraffic_def by (rule fold_copy_filter)

lemma filterAlive_eq:
  "wf_map2 alive \<Longrightarrow> filterAlive dropSources alive = filter (\<lambda>e. \<not> shouldDrop dropSources (fst e)) alive"
proof -
  have "copyPeers peers = peers" for peers by (simp add: copyPeers_def)
  then show "wf_map2 alive \<Longrightarrow> ?thesis" unfolding filterAlive_def by (simp only: fold_copy_filter)
qed

section \<open>Properties\<close>

text \<open>
  C26: Users fetched through a \<open>MultiPanel\<close> are the users of all its panels, each positive
  identifier once: nobody is lost, nobody with an identifier appears twice, users without one are
  all kept.
\<close>

theorem merged_users_unique:
  assumes "FetchUsers (MultiPanel ps) w = (Inr us, w')"
  shows "\<exists>uss. answers ps w = (Inr uss, w') \<and> distinct (filter (\<lambda>i. 0 <s i) (map ID us))
    \<and> set us \<subseteq> set (concat uss)
    \<and> (\<forall>u \<in> set (concat uss). if 0 <s ID u then \<exists>v \<in> set us. ID v = ID u else u \<in> set us)"
proof -
  have keeps: "\<not> 0 <s ID u \<Longrightarrow> u \<in> set xs \<Longrightarrow> u \<in> set (first_by_id S xs)" for u xs S
    by (induction xs arbitrary: S) auto
  from assms obtain uss where uss: "answers ps w = (Inr uss, w')" "us = first_by_id {} (concat uss)"
    by (auto simp: MultiPanel_def Multi_FetchUsers_def fetch_all_answers split: prod.splits sum.splits)
  moreover have "\<forall>u \<in> set (concat uss). 0 <s ID u \<longrightarrow> (\<exists>v \<in> set us. ID v = ID u)"
    using first_by_id_complete [of _ "concat uss" "{}"] uss(2) by blast
  moreover have "\<forall>u \<in> set (concat uss). \<not> 0 <s ID u \<longrightarrow> u \<in> set us"
    unfolding uss(2) using keeps by blast
  ultimately show ?thesis
    using first_by_id_distinct [of "{}" "concat uss"] first_by_id_subset [of "{}" "concat uss"]
    by (intro exI [of _ uss]) auto
qed

definition local_panel :: "user list \<Rightarrow> unit panel" where
  "local_panel us =
     LocalUsers (\<lambda>path w. Inr us) (\<lambda>us. Inr \<lparr>lf_Users = us, lf_Data = [], lf_Inbounds = []\<rparr>) ''users.json''"

definition some_user :: "i64 \<Rightarrow> string \<Rightarrow> user" where
  "some_user i uuid = \<lparr>ID = i, UUID = uuid, Password = [], Name = [], SpeedLimit = 0\<rparr>"

theorem merged_users_unique_witness:
  "FetchUsers (MultiPanel [Some (local_panel [some_user 7 ''a'']), None, Some (local_panel [some_user 7 ''b'', some_user 8 ''c''])]) ()
     = (Inr [some_user 7 ''a'', some_user 8 ''c''], ())
   \<and> distinct (filter (\<lambda>i. 0 <s i) (map ID [some_user 7 ''a'', some_user 8 ''c'']))"
proof -
  have f: "FetchUsers (MultiPanel [Some (local_panel [some_user 7 ''a'']), None, Some (local_panel [some_user 7 ''b'', some_user 8 ''c''])]) ()
      = (Inr [some_user 7 ''a'', some_user 8 ''c''], ())"
    by (simp add: MultiPanel_def Multi_FetchUsers_def local_panel_def LocalUsers_def Local_FetchUsers_def
        ParseUsers_def some_user_def word_sless_alt)
  from merged_users_unique [OF f] f show ?thesis by blast
qed

text \<open>
  C25: Routing by source loses and duplicates nothing: what a panel is given for an inbound and a
  user is the sum over exactly the tags whose route is that panel and that inbound.
\<close>

theorem routeTraffic_shares:
  assumes "wf_map2 delta" and "routeTraffic m delta = Inr out"
  shows "amount (routed_parts out k) b u
    = sum2 (map (\<lambda>(inbound, users). if route_key m inbound = Some (k, b) then mget_or zero2 users u else zero2) delta)"
  using route_fold_amount [OF assms(1), of m "[]" out k b u] assms(2)
  by (simp add: routeTraffic_def routed_parts_def amount_def mget_or_def)

definition silent_panel :: "nat \<Rightarrow> unit panel" where
  "silent_panel n =
     \<lparr>identity = Pointer n, FetchUsers = (\<lambda>w. (Inr [], w)), PushTraffic = (\<lambda>d w. (NoError, w)),
      PushAlive = (\<lambda>d w. (NoError, w))\<rparr>"

definition two_panels :: "unit source_mapped" where
  "two_panels = \<lparr>Default = Some (silent_panel 0), Routes = [(''cnix'', Some (silent_panel 1))]\<rparr>"

definition tagged_traffic :: traffic where
  "tagged_traffic =
     [(''vless-in'', [(''7'', (10, 20))]), (''vless-in@source=cnix'', [(''7'', (1, 2))]),
      (''vless-in@source=home'', [(''7'', (100, 200))])]"

lemma tagged_routes:
  "splitSourceInbound ''vless-in'' = (''vless-in'', [])"
  "splitSourceInbound ''vless-in@source=cnix'' = (''vless-in'', ''cnix'')"
  "splitSourceInbound ''vless-in@source=home'' = (''vless-in'', ''home'')"
  by code_simp+

theorem routeTraffic_shares_witness:
  "\<exists>out. routeTraffic two_panels tagged_traffic = Inr out
     \<and> amount (routed_parts out (Pointer 0)) ''vless-in'' ''7'' = (110, 220)"
proof -
  obtain out where out: "routeTraffic two_panels tagged_traffic = Inr out"
    by (simp add: routeTraffic_def tagged_traffic_def route_entry_def routeForInbound_def tagged_routes
        two_panels_def silent_panel_def mget_or_def Let_def)
  have "wf_map2 tagged_traffic" by (simp add: tagged_traffic_def wf_map2_def)
  from routeTraffic_shares [OF this out, of "Pointer 0" "''vless-in''" "''7''"] out show ?thesis
    by (simp add: tagged_traffic_def route_key_def routeForInbound_def tagged_routes two_panels_def
        silent_panel_def mget_or_def add2_def zero2_def)
qed

text \<open>
  C27: The source filter removes the traffic of the dropped labels and nothing else: a tag whose
  source is dropped is gone, every other tag arrives as it is.
\<close>

theorem filterTraffic_drops_sources:
  assumes "wf_map2 delta"
  shows "mget (filterTraffic dropSources delta) inbound
    = (if snd (splitSourceInbound inbound) \<noteq> [] \<and> mget_or False dropSources (snd (splitSourceInbound inbound))
       then None else mget delta inbound)"
proof -
  have "shouldDrop dropSources i
      \<longleftrightarrow> snd (splitSourceInbound i) \<noteq> [] \<and> mget_or False dropSources (snd (splitSourceInbound i))" for i
    by (auto simp: shouldDrop_def case_prod_unfold mget_or_def Let_def)
  moreover have "mget (filterTraffic dropSources delta) inbound
      = (if shouldDrop dropSources inbound then None else mget delta inbound)"
    by (simp add: filterTraffic_eq [OF assms] mget_filter_keys [where P = "\<lambda>i. \<not> shouldDrop dropSources i"])
  ultimately show ?thesis by simp
qed

theorem filterTraffic_drops_sources_witness:
  "mget (filterTraffic [(''cnix'', True)] tagged_traffic) ''vless-in@source=cnix'' = None
   \<and> mget (filterTraffic [(''cnix'', True)] tagged_traffic) ''vless-in@source=home'' = Some [(''7'', (100, 200))]"
proof -
  have wf: "wf_map2 tagged_traffic" by (simp add: tagged_traffic_def wf_map2_def)
  show ?thesis
    using filterTraffic_drops_sources [OF wf, of "[(''cnix'', True)]" "''vless-in@source=cnix''"]
      filterTraffic_drops_sources [OF wf, of "[(''cnix'', True)]" "''vless-in@source=home''"]
    by (simp add: tagged_routes mget_or_def tagged_traffic_def)
qed

text \<open>
  C28: With a source map over two panels the agent dies: when the default of a \<open>SourceMappedPanel\<close>
  is a \<open>MultiPanel\<close>, which \<open>configurePanel\<close> builds for \<open>-panel-hy2-node-id\<close> together with
  \<open>-source-server-map\<close>, pushing any traffic that has no route of its own panics, because a struct
  with a slice cannot be a map key.
\<close>

theorem mapped_over_multi_panics:
  assumes "Default m = Some (MultiPanel ps)" and "(inbound, users) \<in> set delta"
    and "snd (splitSourceInbound inbound) = [] \<or> mget_or None (Routes m) (snd (splitSourceInbound inbound)) = None"
  shows "PushTraffic (SourceMappedPanel m) delta w = (Panicked ''hash of unhashable type'', w)"
proof -
  have "routeForInbound m inbound = (Some (MultiPanel ps), fst (splitSourceInbound inbound))"
    using assms(1,3) by (auto simp: routeForInbound_def case_prod_unfold Let_def)
  from route_panics [OF assms(2) this, of add_traffic "Inr []"] show ?thesis
    by (simp add: SourceMappedPanel_def Mapped_PushTraffic_def routeTraffic_def MultiPanel_def)
qed

theorem mapped_over_multi_panics_witness:
  "PushTraffic (SourceMappedPanel \<lparr>Default = Some (MultiPanel [Some (silent_panel 0), Some (silent_panel 1)]),
      Routes = [(''cnix'', Some (silent_panel 2))]\<rparr>) tagged_traffic ()
   = (Panicked ''hash of unhashable type'', ())"
  by (rule mapped_over_multi_panics [where inbound = "''vless-in''" and users = "[(''7'', (10, 20))]"])
    (simp_all add: tagged_traffic_def tagged_routes)

text \<open>
  Devices, unlike traffic, are not merged by the source map: when several tags of a user go to
  the same panel and inbound, the panel is given the devices of the last one in iteration order
  only, the others are overwritten.
\<close>

theorem routeAlive_keeps_last:
  assumes "wf_map2 alive" and "routeAlive m alive = Inr out"
  shows "peers_at (routed_parts out k) b u = last_named m k b u alive None"
  using route_fold_alive [OF assms(1), of m "[]" out k b u] assms(2)
  by (simp add: routeAlive_def routed_parts_def peers_at_def mget_or_def)

theorem routeAlive_keeps_last_witness:
  "\<exists>out. routeAlive two_panels
       [(''vless-in'', [(''7'', [''192.0.2.7''])]), (''vless-in@source=home'', [(''7'', [''10.0.0.1''])])] = Inr out
     \<and> peers_at (routed_parts out (Pointer 0)) ''vless-in'' ''7'' = Some [''10.0.0.1'']"
proof -
  let ?alive = "[(''vless-in'', [(''7'', [''192.0.2.7''])]), (''vless-in@source=home'', [(''7'', [''10.0.0.1''])])]"
  obtain out where out: "routeAlive two_panels ?alive = Inr out"
    by (simp add: routeAlive_def route_entry_def routeForInbound_def tagged_routes two_panels_def
        silent_panel_def mget_or_def Let_def)
  have "wf_map2 ?alive" by (simp add: wf_map2_def)
  from routeAlive_keeps_last [OF this out, of "Pointer 0" "''vless-in''" "''7''"] out show ?thesis
    by (simp add: last_named_def route_key_def routeForInbound_def tagged_routes two_panels_def
        silent_panel_def mget_or_def)
qed

end
