(* ===== verification/Node_Config.thy ===== *)
theory Node_Config
  imports Go_Strings
begin

text \<open>
  The node configuration the panel serves: the types of \<open>panelapi/node_config.go\<close>, the decoding of
  \<open>StringInt\<close> and the choice between the plain and the wrapped answer in \<open>decodeNodeConfig\<close>.

  A JSON document is the datatype \<open>json\<close> (a number is kept as its literal). The parts of the
  configuration that Go keeps as \<open>any\<close> are \<open>json\<close> values. Turning a document into the struct is
  \<open>encoding/json\<close> driven by the field tags and stays a parameter of the callers.
\<close>

datatype json =
    JNull | JBool bool | JNum string | JString string
  | JArray "json list" | JObject "(string \<times> json) list"

record base_config =
  PushInterval :: i64
  PullInterval :: i64

record ech_config =
  ech_Enabled :: bool
  ech_Config :: json
  ech_QueryServerName :: "string option"
  ech_Key :: string
  ech_KeyPath :: string
  ech_ConfigPath :: "string option"

record tls_settings =
  tls_ServerName :: string
  tls_ServerPort :: string
  tls_PublicKey :: string
  tls_PrivateKey :: string
  tls_ShortID :: string
  tls_AllowInsecure :: bool
  tls_ECH :: ech_config

record outbound_config =
  ob_Tag :: string
  ob_Protocol :: string
  ob_Settings :: "(string, json) gomap"
  ob_ProxyTag :: string

record route_match =
  Domains :: "string list"
  DomainSuffixes :: "string list"
  IPCIDRs :: "string list"
  Ports :: "string list"
  Networks :: "string list"
  SourceCIDRs :: "string list"
  SourcePorts :: "string list"

record route_action =
  act_Type :: string
  act_Target :: string

record custom_route_rule =
  rule_Name :: string
  rule_Disabled :: bool
  rule_Match :: route_match
  rule_Action :: route_action

record node_config =
  Protocol :: string
  ListenIP :: string
  ServerPort :: i64
  Cipher :: string
  ServerKey :: string
  Network :: string
  NetworkConfig :: json
  TLS :: i64
  Flow :: string
  Decryption :: "string option"
  TLSSettings :: tls_settings
  Version :: i64
  Host :: string
  ServerName :: string
  UpMbps :: i64
  DownMbps :: i64
  Obfs :: string
  ObfsPassword :: string
  BaseConfig :: base_config
  CustomDNS :: "(string, json) gomap"
  CustomOutbounds :: "outbound_config list"
  RouteOptions :: "(string, json) gomap"
  CustomRouteRules :: "custom_route_rule list"
  CustomRoutes :: "(string, json) gomap option list"

definition zero_ech :: ech_config where
  "zero_ech = \<lparr>ech_Enabled = False, ech_Config = JNull, ech_QueryServerName = None, ech_Key = [],
     ech_KeyPath = [], ech_ConfigPath = None\<rparr>"

definition zero_tls :: tls_settings where
  "zero_tls = \<lparr>tls_ServerName = [], tls_ServerPort = [], tls_PublicKey = [], tls_PrivateKey = [],
     tls_ShortID = [], tls_AllowInsecure = False, tls_ECH = zero_ech\<rparr>"

text \<open>\<open>NodeConfig{}\<close>.\<close>

definition zero_config :: node_config where
  "zero_config = \<lparr>Protocol = [], ListenIP = [], ServerPort = 0, Cipher = [], ServerKey = [], Network = [],
     NetworkConfig = JNull, TLS = 0, Flow = [], Decryption = None, TLSSettings = zero_tls, Version = 0,
     Host = [], ServerName = [], UpMbps = 0, DownMbps = 0, Obfs = [], ObfsPassword = [],
     BaseConfig = \<lparr>PushInterval = 0, PullInterval = 0\<rparr>, CustomDNS = [], CustomOutbounds = [],
     RouteOptions = [], CustomRouteRules = [], CustomRoutes = []\<rparr>"

text \<open>
  \<open>StringInt.UnmarshalJSON\<close>: a string or \<open>null\<close> decodes as a string, otherwise an integer literal
  in the range of \<open>int\<close> is printed back in decimal.
\<close>

fun StringInt_UnmarshalJSON :: "json \<Rightarrow> error + string" where
  "StringInt_UnmarshalJSON (JString s) = Inr s"
| "StringInt_UnmarshalJSON JNull = Inr []"
| "StringInt_UnmarshalJSON (JNum lit) =
     (case Atoi lit of
        Some n \<Rightarrow> Inr (Itoa n)
      | None \<Rightarrow> Inl (Errorf ''expected string or integer'' []))"
| "StringInt_UnmarshalJSON _ = Inl (Errorf ''expected string or integer'' [])"

text \<open>
  \<open>decodeNodeConfig\<close>: \<open>plain\<close> is the document decoded as a \<open>NodeConfig\<close>, \<open>wrapped\<close> the field \<open>data\<close>
  of the document decoded as an object that holds one.
\<close>

definition decodeNodeConfig :: "error + node_config \<Rightarrow> error + node_config \<Rightarrow> error + node_config" where
  "decodeNodeConfig plain wrapped =
     (case plain of
        Inr cfg \<Rightarrow>
          if Protocol cfg \<noteq> [] \<or> ServerPort cfg \<noteq> 0 then Inr cfg
          else
            (case wrapped of
               Inl err \<Rightarrow> Inl err
             | Inr data \<Rightarrow>
                 if Protocol data = [] \<and> ServerPort data = 0
                 then Inl (Errorf ''panel api config response missing node config'' [])
                 else Inr data)
      | Inl _ \<Rightarrow>
          (case wrapped of
             Inl err \<Rightarrow> Inl err
           | Inr data \<Rightarrow>
               if Protocol data = [] \<and> ServerPort data = 0
               then Inl (Errorf ''panel api config response missing node config'' [])
               else Inr data))"

text \<open>A decoded configuration always names a protocol or a port.\<close>

lemma decodeNodeConfig_named:
  "decodeNodeConfig plain wrapped = Inr cfg \<Longrightarrow> Protocol cfg \<noteq> [] \<or> ServerPort cfg \<noteq> 0"
  by (auto simp: decodeNodeConfig_def split: sum.splits if_splits)

end
