(* ===== verification/Client.thy ===== *)
theory Client
  imports Panel Node_Config
begin

text \<open>
  The Xboard client of \<open>panelapi/client.go\<close> and the requests of \<open>panelapi/node_config.go\<close>:
  \<open>NewClient\<close>, \<open>endpoint\<close>, \<open>FetchUsers\<close> with the Shadowsocks passwords, \<open>matchesInbound\<close>,
  \<open>PushTraffic\<close>, \<open>PushAlive\<close>, \<open>FetchNodeConfig\<close> and \<open>ProbeNodeConfig\<close>.

  The network is the record \<open>http\<close> over the outside world \<open>'w\<close>: parsing a URL into the address and
  its query, building a request, and sending it; and \<open>range_rank\<close>, the order the Go runtime picks for the
  range loops over the maps \<open>PushTraffic\<close> and \<open>PushAlive\<close> have filled: one over the users, named by the
  empty text, and one over the devices of each user. A response holds what \<open>encoding/json\<close> makes of its
  body for each type the client decodes it as. A body is the Go value that is encoded.
\<close>

section \<open>Requests and responses\<close>

datatype body =
    NoBody | TrafficBody "(i64, pair64) gomap" | AliveBody "(i64, string list) gomap" | JsonBody "(string, json) gomap"

record request =
  rq_method :: string
  rq_url :: string
  rq_query :: "(string, string) gomap"
  rq_body :: body

record user_list =
  ul_Users :: "user list"
  ul_Data :: "user list"

record response =
  StatusCode :: int
  Status :: string
  as_users :: "error + user_list"
  as_raw :: "error option"
  as_config :: "error + node_config"
  as_wrapped_config :: "error + node_config"
  as_message :: "string \<times> string"

record 'w http =
  parse_url :: "string \<Rightarrow> error + (string \<times> (string, string) gomap)"
  new_request :: "request \<Rightarrow> error option"
  send :: "request \<Rightarrow> 'w \<Rightarrow> (error + response) \<times> 'w"
  range_rank :: "'w \<Rightarrow> string \<Rightarrow> nat \<Rightarrow> nat"

section \<open>The client\<close>

record client =
  BaseURL :: string
  Token :: string
  NodeID :: string
  NodeType :: string
  MachineID :: string
  MachineToken :: string

definition NewClient :: "string \<Rightarrow> string \<Rightarrow> string \<Rightarrow> string \<Rightarrow> client" where
  "NewClient baseURL token nodeID nodeType =
     \<lparr>BaseURL = TrimRightChar CHR ''/'' baseURL, Token = token, NodeID = nodeID, NodeType = nodeType,
      MachineID = [], MachineToken = []\<rparr>"

definition endpoint :: "'w http \<Rightarrow> client \<Rightarrow> string \<Rightarrow> error + (string \<times> (string, string) gomap)" where
  "endpoint H c path =
     (if BaseURL c = [] then Inl (Errorf ''panel api base url is empty'' [])
      else
        (case parse_url H (BaseURL c @ path) of
           Inl err \<Rightarrow> Inl err
         | Inr (u, q) \<Rightarrow>
             (let q = (if Token c \<noteq> [] then mput ''token'' (Token c) q else q);
                  q = (if MachineID c \<noteq> [] then mput ''machine_id'' (MachineID c) q else q);
                  q = (if NodeID c \<noteq> [] then mput ''node_id'' (NodeID c) q else q);
                  q = (if NodeType c \<noteq> [] then mput ''node_type'' (NodeType c) q else q)
              in Inr (u, q))))"

text \<open>\<open>http.NewRequestWithContext\<close> and \<open>Do\<close>.\<close>

definition do_request :: "'w http \<Rightarrow> request \<Rightarrow> 'w \<Rightarrow> (error + response) \<times> 'w" where
  "do_request H rq w = (case new_request H rq of Some err \<Rightarrow> (Inl err, w) | None \<Rightarrow> send H rq w)"

definition ok_status :: "response \<Rightarrow> bool" where
  "ok_status r \<longleftrightarrow> StatusCode r div 100 = 2"

definition isShadowsocksNodeType :: "string \<Rightarrow> bool" where
  "isShadowsocksNodeType nodeType \<longleftrightarrow> ToLower nodeType \<in> {''ss'', ''ss2022'', ''shadowsocks''}"

section \<open>Node configuration\<close>

definition FetchNodeConfig :: "'w http \<Rightarrow> client \<Rightarrow> 'w \<Rightarrow> (error + node_config) \<times> 'w" where
  "FetchNodeConfig H c w =
     (case endpoint H c ''/api/v1/server/UniProxy/config'' of
        Inl err \<Rightarrow> (Inl err, w)
      | Inr (u, q) \<Rightarrow>
          (case do_request H \<lparr>rq_method = ''GET'', rq_url = u, rq_query = q, rq_body = NoBody\<rparr> w of
             (Inl err, w) \<Rightarrow> (Inl err, w)
           | (Inr resp, w) \<Rightarrow>
               if \<not> ok_status resp then
                 (let text = TrimSpace (fst (as_message resp));
                      text = (if text = [] then TrimSpace (snd (as_message resp)) else text)
                  in if text \<noteq> []
                     then (Inl (Errorf ''panel api config status %s: %s'' [Status resp, text]), w)
                     else (Inl (Errorf ''panel api config status %s'' [Status resp]), w))
               else
                 (case as_raw resp of
                    Some err \<Rightarrow> (Inl err, w)
                  | None \<Rightarrow> (decodeNodeConfig (as_config resp) (as_wrapped_config resp), w))))"

text \<open>The loop of \<open>ProbeNodeConfig\<close>; \<open>last\<close> is \<open>lastErr\<close>, nil before the first round.\<close>

fun probe_types ::
  "'w http \<Rightarrow> string \<Rightarrow> string \<Rightarrow> string \<Rightarrow> string list \<Rightarrow> error option \<Rightarrow> 'w \<Rightarrow> (error + string \<times> node_config) \<times> 'w" where
  "probe_types H baseURL token nodeID [] lastErr w =
     (Inl (case lastErr of None \<Rightarrow> Errorf ''probe node config failed: %w'' []
                         | Some err \<Rightarrow> Wrap ''probe node config failed'' err), w)"
| "probe_types H baseURL token nodeID (nodeType # types) lastErr w =
     (case FetchNodeConfig H (NewClient baseURL token nodeID nodeType) w of
        (Inr cfg, w) \<Rightarrow> (Inr (nodeType, cfg), w)
      | (Inl err, w) \<Rightarrow> probe_types H baseURL token nodeID types (Some err) w)"

definition ProbeNodeConfig ::
  "'w http \<Rightarrow> string \<Rightarrow> string \<Rightarrow> string \<Rightarrow> 'w \<Rightarrow> (error + string \<times> node_config) \<times> 'w" where
  "ProbeNodeConfig H baseURL token nodeID w =
     probe_types H baseURL token nodeID [''vless'', ''hysteria2'', ''hysteria''] None w"

section \<open>Shadowsocks passwords\<close>

text \<open>\<open>base64.StdEncoding\<close>.\<close>

definition b64_char :: "nat \<Rightarrow> char" where
  "b64_char n =
     (if n < 26 then char_of (65 + n) else if n < 52 then char_of (71 + n)
      else if n < 62 then char_of (n - 4) else if n = 62 then CHR ''+'' else CHR ''/'')"

fun EncodeToString :: "string \<Rightarrow> string" where
  "EncodeToString [] = []"
| "EncodeToString [a] = [b64_char (byte a div 4), b64_char (byte a mod 4 * 16), CHR ''='', CHR ''='']"
| "EncodeToString [a, b] =
     [b64_char (byte a div 4), b64_char (byte a mod 4 * 16 + byte b div 16), b64_char (byte b mod 16 * 4), CHR ''='']"
| "EncodeToString (a # b # c # rest) =
     [b64_char (byte a div 4), b64_char (byte a mod 4 * 16 + byte b div 16),
      b64_char (byte b mod 16 * 4 + byte c div 64), b64_char (byte c mod 64)] @ EncodeToString rest"

definition compatibleShadowsocksPassword :: "user \<Rightarrow> string \<Rightarrow> error + string" where
  "compatibleShadowsocksPassword u cipher =
     (let password = (if UUID u = [] then Password u else UUID u);
          short = Inl (Errorf ''shadowsocks uuid/password too short for %s'' [cipher])
      in if ToLower cipher = ''2022-blake3-aes-128-gcm'' then
           (if length password < 16 then short else Inr (EncodeToString (take 16 password)))
         else if ToLower cipher \<in> {''2022-blake3-aes-256-gcm'', ''2022-blake3-chacha20-poly1305''} then
           (if length password < 32 then short else Inr (EncodeToString (take 32 password)))
         else Inr password)"

fun ss_passwords :: "string \<Rightarrow> user list \<Rightarrow> error + user list" where
  "ss_passwords cipher [] = Inr []"
| "ss_passwords cipher (u # us) =
     (case compatibleShadowsocksPassword u cipher of
        Inl err \<Rightarrow> Inl err
      | Inr password \<Rightarrow> map_sum id ((#) (u\<lparr>Password := password\<rparr>)) (ss_passwords cipher us))"

text \<open>The last loop of \<open>FetchUsers\<close>.\<close>

definition fill_user :: "user \<Rightarrow> user" where
  "fill_user u =
     (let u = (if Password u = [] then u\<lparr>Password := UUID u\<rparr> else u)
      in if Name u = [] then u\<lparr>Name := Itoa (ID u)\<rparr> else u)"

definition Client_FetchUsers :: "'w http \<Rightarrow> client \<Rightarrow> 'w \<Rightarrow> (error + user list) \<times> 'w" where
  "Client_FetchUsers H c w =
     (case endpoint H c ''/api/v1/server/UniProxy/user'' of
        Inl err \<Rightarrow> (Inl err, w)
      | Inr (u, q) \<Rightarrow>
          (case do_request H \<lparr>rq_method = ''GET'', rq_url = u, rq_query = q, rq_body = NoBody\<rparr> w of
             (Inl err, w) \<Rightarrow> (Inl err, w)
           | (Inr resp, w) \<Rightarrow>
               if \<not> ok_status resp then (Inl (Errorf ''panel api user status %s'' [Status resp]), w)
               else
                 (case as_users resp of
                    Inl err \<Rightarrow> (Inl err, w)
                  | Inr l \<Rightarrow>
                      (let users = (if ul_Users l = [] then ul_Data l else ul_Users l)
                       in if isShadowsocksNodeType (NodeType c) then
                            (case FetchNodeConfig H c w of
                               (Inl err, w) \<Rightarrow> (Inl err, w)
                             | (Inr cfg, w) \<Rightarrow>
                                 (case ss_passwords (Cipher cfg) users of
                                    Inl err \<Rightarrow> (Inl err, w)
                                  | Inr users \<Rightarrow> (Inr (map fill_user users), w)))
                          else (Inr (map fill_user users), w)))))"

section \<open>Pushing\<close>

definition isNumericUser :: "string \<Rightarrow> bool" where
  "isNumericUser user \<longleftrightarrow> (if user = [] then False else list_all is_digit user)"

definition matchesInbound :: "client \<Rightarrow> string \<Rightarrow> bool" where
  "matchesInbound c tag =
     (let t = ToLower (NodeType c)
      in if t \<in> {''vless'', ''vless-reality'', ''reality''} then tag = ''vless-in''
         else if t \<in> {''hy2'', ''hysteria'', ''hysteria2''} then tag = ''hy2-in''
         else if t \<in> {''ss'', ''ss2022'', ''shadowsocks''} then tag = ''ss-in''
         else Contains (ToLower tag) t)"

definition flat_add :: "string \<times> pair64 \<Rightarrow> user_traffic \<Rightarrow> user_traffic" where
  "flat_add e flat =
     (case e of (user, d) \<Rightarrow>
        if isNumericUser user then mput user (add2 (mget_or zero2 flat user) d) flat else flat)"

definition flat_traffic :: "client \<Rightarrow> traffic \<Rightarrow> user_traffic" where
  "flat_traffic c delta =
     fold (\<lambda>(tag, users) flat.
         if \<not> matchesInbound c tag then flat else fold flat_add users flat)
       delta []"

definition traffic_payload :: "(nat \<Rightarrow> nat) \<Rightarrow> user_traffic \<Rightarrow> (i64, pair64) gomap" where
  "traffic_payload rank flat =
     fold (\<lambda>(user, d) payload. case Atoi user of None \<Rightarrow> payload | Some uid \<Rightarrow> mput uid d payload)
       (ranged rank flat) []"

text \<open>The request and the test of its status that end \<open>PushTraffic\<close> and \<open>PushAlive\<close>.\<close>

definition post :: "'w http \<Rightarrow> string \<Rightarrow> string \<times> (string, string) gomap \<Rightarrow> body \<Rightarrow> 'w \<Rightarrow> outcome \<times> 'w" where
  "post H what ep payload w =
     (case do_request H \<lparr>rq_method = ''POST'', rq_url = fst ep, rq_query = snd ep, rq_body = payload\<rparr> w of
        (Inl err, w) \<Rightarrow> (Failed err, w)
      | (Inr resp, w) \<Rightarrow>
          if ok_status resp then (NoError, w)
          else (Failed (Errorf (''panel api '' @ what @ '' status %s'') [Status resp]), w))"

definition Client_PushTraffic :: "'w http \<Rightarrow> client \<Rightarrow> traffic \<Rightarrow> 'w \<Rightarrow> outcome \<times> 'w" where
  "Client_PushTraffic H c delta w =
     (let flat = flat_traffic c delta
      in if flat = [] then (NoError, w)
         else
           (case endpoint H c ''/api/v1/server/UniProxy/push'' of
              Inl err \<Rightarrow> (Failed err, w)
            | Inr ep \<Rightarrow>
                (let payload = traffic_payload (range_rank H w []) flat
                 in if payload = [] then (NoError, w) else post H ''push'' ep (TrafficBody payload) w)))"

definition flat_alive :: "client \<Rightarrow> alive_map \<Rightarrow> (string, (string, unit) gomap) gomap" where
  "flat_alive c alive =
     fold (\<lambda>(tag, users) flat.
         if \<not> matchesInbound c tag then flat
         else fold (\<lambda>(user, peers) flat.
             if \<not> isNumericUser user then flat
             else
               (let flat = (if mget flat user = None then mput user [] flat else flat)
                in fold (\<lambda>peer flat.
                     if peer = [] then flat else mput user (mput peer () (mget_or [] flat user)) flat) peers flat))
             users flat)
       alive []"

definition alive_payload ::
  "(string \<Rightarrow> nat \<Rightarrow> nat) \<Rightarrow> (string, (string, unit) gomap) gomap \<Rightarrow> (i64, string list) gomap" where
  "alive_payload rank flat =
     fold (\<lambda>(user, peers) payload.
         case Atoi user of
           None \<Rightarrow> payload
         | Some uid \<Rightarrow> mput uid (ranged (rank user) (mkeys peers)) payload)
       (ranged (rank []) flat) []"

definition Client_PushAlive :: "'w http \<Rightarrow> client \<Rightarrow> alive_map \<Rightarrow> 'w \<Rightarrow> outcome \<times> 'w" where
  "Client_PushAlive H c alive w =
     (let flat = flat_alive c alive
      in if flat = [] then (NoError, w)
         else
           (case endpoint H c ''/api/v1/server/UniProxy/alive'' of
              Inl err \<Rightarrow> (Failed err, w)
            | Inr ep \<Rightarrow>
                (let payload = alive_payload (range_rank H w) flat
                 in if payload = [] then (NoError, w) else post H ''alive'' ep (AliveBody payload) w)))"

text \<open>A \<open>*Client\<close> as a \<open>Panel\<close>; \<open>n\<close> is its address.\<close>

definition client_panel :: "'w http \<Rightarrow> nat \<Rightarrow> client \<Rightarrow> 'w panel" where
  "client_panel H n c =
     \<lparr>identity = Pointer n, FetchUsers = Client_FetchUsers H c, PushTraffic = Client_PushTraffic H c,
      PushAlive = Client_PushAlive H c\<rparr>"

section \<open>What is billed\<close>

lemma flat_users:
  assumes "wf_map users"
  shows "mget_or zero2 (fold flat_add users flat) u
    = add2 (mget_or zero2 flat u) (if isNumericUser u then mget_or zero2 users u else zero2)"
  using assms
proof (induction users arbitrary: flat)
  case Nil
  then show ?case by (simp add: mget_or_def)
next
  case (Cons e users)
  obtain v d where e: "e = (v, d)" by (cases e)
  have "mget_or zero2 (e # users) u = (if u = v then d else mget_or zero2 users u)"
    by (simp add: e mget_or_def)
  moreover have "u = v \<Longrightarrow> mget_or zero2 users u = zero2" using Cons.prems by (simp add: e mget_or_def)
  ultimately show ?case using Cons.prems Cons.IH by (auto simp: e flat_add_def mget_or_mput)
qed

text \<open>What a client bills a user: the sum over the inbounds it is responsible for.\<close>

definition billed :: "client \<Rightarrow> traffic \<Rightarrow> string \<Rightarrow> pair64" where
  "billed c delta u = sum2 (map (\<lambda>(tag, users). if matchesInbound c tag then mget_or zero2 users u else zero2) delta)"

lemma flat_traffic_sum:
  assumes "wf_map2 delta"
  shows "mget_or zero2 (flat_traffic c delta) u = (if isNumericUser u then billed c delta u else zero2)"
proof -
  have "mget_or zero2 (fold (\<lambda>(tag, users) flat.
         if \<not> matchesInbound c tag then flat else fold flat_add users flat) delta flat) u
    = add2 (mget_or zero2 flat u) (if isNumericUser u then billed c delta u else zero2)" for flat
    using assms
  proof (induction delta arbitrary: flat)
    case (Cons e delta)
    obtain tag users where e: "e = (tag, users)" by (cases e)
    from Cons.prems have "wf_map users" "wf_map2 delta" by (auto simp: e wf_map2_def)
    with Cons.IH show ?case by (simp add: e billed_def flat_users add2_assoc)
  qed (simp add: billed_def)
  from this [of "[]"] show ?thesis by (simp add: flat_traffic_def mget_or_def)
qed

lemma wf_flat_add: "wf_map flat \<Longrightarrow> wf_map (flat_add e flat)"
  by (cases e) (simp add: flat_add_def wf_mput)

lemma flat_traffic_wf: "wf_map (flat_traffic c delta)"
  unfolding flat_traffic_def
  by (rule fold_invariant, simp) (auto intro!: fold_invariant [where P = wf_map] wf_flat_add)

text \<open>Only numeric users are in the request, and only those of matching inbounds.\<close>

lemma flat_traffic_keys:
  assumes "wf_map2 delta" and "mget (flat_traffic c delta) u \<noteq> None"
  shows "isNumericUser u \<and> (\<exists>(tag, users) \<in> set delta. matchesInbound c tag \<and> mget users u \<noteq> None)"
proof -
  let ?Q = "\<lambda>u. isNumericUser u \<and> (\<exists>(tag, users) \<in> set delta. matchesInbound c tag \<and> mget users u \<noteq> None)"
  have "\<forall>u. mget (flat_traffic c delta) u \<noteq> None \<longrightarrow> ?Q u"
    unfolding flat_traffic_def
  proof (rule fold_invariant, simp)
    fix e and flat :: user_traffic
    assume e: "e \<in> set delta" and flat: "\<forall>u. mget flat u \<noteq> None \<longrightarrow> ?Q u"
    obtain tag users where tu: "e = (tag, users)" by (cases e)
    have "\<forall>u. mget (fold flat_add users flat) u \<noteq> None \<longrightarrow> ?Q u" if "matchesInbound c tag"
    proof (rule fold_invariant, rule flat)
      fix x and flat1 :: user_traffic assume x: "x \<in> set users" and flat1: "\<forall>u. mget flat1 u \<noteq> None \<longrightarrow> ?Q u"
      obtain v d where vd: "x = (v, d)" by (cases x)
      have "v \<in> set (mkeys users)" using x by (force simp: vd mkeys_def)
      then have "mget users v \<noteq> None" using mget_None_iff by metis
      with that e tu flat1 show "\<forall>u. mget (flat_add x flat1) u \<noteq> None \<longrightarrow> ?Q u"
        by (auto simp: vd flat_add_def mget_mput)
    qed
    with flat show "\<forall>u. mget ((\<lambda>(tag, users) flat.
        if \<not> matchesInbound c tag then flat else fold flat_add users flat) e flat) u \<noteq> None \<longrightarrow> ?Q u"
      by (simp add: tu)
  qed
  with assms(2) show ?thesis by blast
qed

lemma isNumericUser_Itoa: "isNumericUser (Itoa n) \<longleftrightarrow> 0 \<le> sint n"
  by (auto simp: isNumericUser_def Itoa_def show_nat_digits is_digit_def)

text \<open>
  The loops that key the values of a map of users by their identifiers: when the users are named by
  them, the value of an identifier is that of its user.
\<close>

lemma fold_Atoi_lookup:
  assumes "wf_map flat" and "\<And>u. mget flat u \<noteq> None \<Longrightarrow> \<exists>m. u = Itoa m"
  shows "mget (fold (\<lambda>(user, d) payload.
      case Atoi user of None \<Rightarrow> payload | Some uid \<Rightarrow> mput uid (f user d) payload) flat []) n
    = map_option (f (Itoa n)) (mget flat (Itoa n))"
proof -
  have "mget (fold (\<lambda>(user, d) payload.
      case Atoi user of None \<Rightarrow> payload | Some uid \<Rightarrow> mput uid (f user d) payload) flat payload) n
    = (case mget flat (Itoa n) of None \<Rightarrow> mget payload n | Some d \<Rightarrow> Some (f (Itoa n) d))" for payload
    using assms
  proof (induction flat arbitrary: payload)
    case (Cons e flat)
    obtain u d where e: "e = (u, d)" by (cases e)
    from Cons.prems(2) [of u] obtain m where m: "u = Itoa m" by (auto simp: e)
    have keys: "mget flat v \<noteq> None \<Longrightarrow> \<exists>m. v = Itoa m" for v
      using Cons.prems(2) [of v] by (cases "v = u") (auto simp: e m)
    from Cons.prems(1) Cons.IH [OF _ keys] show ?case
      by (cases "n = m") (auto simp: e m mget_mput split: option.splits)
  qed simp
  from this [of "[]"] show ?thesis by (simp split: option.splits)
qed

lemma payload_lookup:
  assumes "wf_map flat" and "\<And>u. mget flat u \<noteq> None \<Longrightarrow> \<exists>m. u = Itoa m"
  shows "mget (traffic_payload rank flat) n = mget flat (Itoa n)"
  using fold_Atoi_lookup [of "ranged rank flat" "\<lambda>u d. d" n] assms by (simp add: traffic_payload_def option.map_ident)

section \<open>Keys\<close>

lemma byte_b64_char:
  "n < 64 \<Longrightarrow> byte (b64_char n) =
     (if n < 26 then 65 + n else if n < 52 then 71 + n else if n < 62 then n - 4 else if n = 62 then 43 else 47)"
  by (auto simp: b64_char_def of_char_of)

lemma b64_char_inject: "n < 64 \<Longrightarrow> m < 64 \<Longrightarrow> b64_char n = b64_char m \<Longrightarrow> n = m"
proof -
  assume "n < 64" "m < 64" "b64_char n = b64_char m"
  then have "byte (b64_char n) = byte (b64_char m)" by simp
  with \<open>n < 64\<close> \<open>m < 64\<close> show ?thesis by (simp add: byte_b64_char split: if_splits)
qed

lemma b64_char_no_pad: "n < 64 \<Longrightarrow> b64_char n \<noteq> CHR ''=''"
proof
  assume "n < 64" "b64_char n = CHR ''=''"
  then have "byte (b64_char n) = 61" by simp
  with \<open>n < 64\<close> show False by (simp add: byte_b64_char split: if_splits)
qed

text \<open>Three bytes are determined by their four sextets.\<close>

lemma digits_inject:
  "x * k + y = x' * k + y' \<Longrightarrow> y < k \<Longrightarrow> y' < k \<Longrightarrow> x = x' \<and> y = (y' :: nat)"
  by (metis add.commute div_mult_self_is_m div_mult_self1 div_less mod_less mod_mult_self3 mult.commute
      not_less_zero add_0_right gr_implies_not0)

lemma div_mod_inject: "a div k = a' div k \<Longrightarrow> a mod k = a' mod k \<Longrightarrow> a = (a' :: nat)"
  by (metis div_mult_mod_eq)

lemma sextets:
  assumes "b < 256" "b' < 256" "c < 256" "c' < (256 :: nat)"
    and "a div 4 = a' div 4" and "a mod 4 * 16 + b div 16 = a' mod 4 * 16 + b' div 16"
    and "b mod 16 * 4 + c div 64 = b' mod 16 * 4 + c' div 64" and "c mod 64 = c' mod 64"
  shows "a = a' \<and> b = b' \<and> c = c'"
proof -
  have "a mod 4 = a' mod 4 \<and> b div 16 = b' div 16"
    by (rule digits_inject [OF assms(6)]) (use assms(1,2) in simp_all)
  moreover have "b mod 16 = b' mod 16 \<and> c div 64 = c' div 64"
    by (rule digits_inject [OF assms(7)]) (use assms(3,4) in simp_all)
  ultimately show ?thesis using assms(5,8) div_mod_inject by metis
qed

lemma sextet_bounds:
  "byte x div 4 < 64" "byte x mod 4 * 16 + byte y div 16 < 64"
  "byte x mod 16 * 4 + byte y div 64 < 64" "byte x mod 64 < 64"
proof -
  have "byte x mod 4 < 4" "byte y div 16 < 16" "byte x mod 16 < 16" "byte y div 64 < 4" "byte x div 4 < 64"
    by (simp_all add: less_mult_imp_div_less)
  then show "byte x div 4 < 64" "byte x mod 4 * 16 + byte y div 16 < 64"
    "byte x mod 16 * 4 + byte y div 64 < 64" by linarith+
  show "byte x mod 64 < 64" by simp
qed

lemma EncodeToString_length3: "length (EncodeToString (a # b # c # s)) = 4 + length (EncodeToString s)"
  by simp

lemma EncodeToString_inject3:
  assumes "EncodeToString (a # b # c # s) = EncodeToString (a' # b' # c' # t)"
  shows "a = a' \<and> b = b' \<and> c = c' \<and> EncodeToString s = EncodeToString t"
proof -
  note small = sextet_bounds
  from assms have eq: "b64_char (byte a div 4) = b64_char (byte a' div 4)"
    "b64_char (byte a mod 4 * 16 + byte b div 16) = b64_char (byte a' mod 4 * 16 + byte b' div 16)"
    "b64_char (byte b mod 16 * 4 + byte c div 64) = b64_char (byte b' mod 16 * 4 + byte c' div 64)"
    "b64_char (byte c mod 64) = b64_char (byte c' mod 64)" and rest: "EncodeToString s = EncodeToString t"
    by simp_all
  have "byte a = byte a' \<and> byte b = byte b' \<and> byte c = byte c'"
    using b64_char_inject [OF small(1) small(1) eq(1)] b64_char_inject [OF small(2) small(2) eq(2)]
      b64_char_inject [OF small(3) small(3) eq(3)] b64_char_inject [OF small(4) small(4) eq(4)]
    by - (rule sextets; simp)
  with rest show ?thesis by simp
qed

lemma EncodeToString_inject:
  assumes "length s = length t" and "EncodeToString s = EncodeToString t"
  shows "s = t"
  using assms
proof (induction s arbitrary: t rule: EncodeToString.induct)
  case 1
  then show ?case by simp
next
  case (2 a)
  then obtain a' where t: "t = [a']" by (cases t) auto
  have z: "byte x mod 4 * 16 < 64" for x using sextet_bounds(2) [of x "CHR 0x00"] by simp
  from 2 t have e: "b64_char (byte a div 4) = b64_char (byte a' div 4)"
    "b64_char (byte a mod 4 * 16) = b64_char (byte a' mod 4 * 16)" by simp_all
  have "byte a div 4 = byte a' div 4" "byte a mod 4 * 16 = byte a' mod 4 * 16"
    by (rule b64_char_inject [OF sextet_bounds(1) sextet_bounds(1) e(1)], rule b64_char_inject [OF z z e(2)])
  then have "byte a = byte a'" by - (rule div_mod_inject [of _ 4]; simp)
  with t show ?case by simp
next
  case (3 a b)
  then obtain a' b' where t: "t = [a', b']" by (cases t rule: EncodeToString.cases) auto
  have z: "byte x mod 16 * 4 < 64" for x using sextet_bounds(3) [of x "CHR 0x00"] by simp
  from 3 t have e: "b64_char (byte a div 4) = b64_char (byte a' div 4)"
    "b64_char (byte a mod 4 * 16 + byte b div 16) = b64_char (byte a' mod 4 * 16 + byte b' div 16)"
    "b64_char (byte b mod 16 * 4) = b64_char (byte b' mod 16 * 4)" by simp_all
  have "byte a div 4 = byte a' div 4" "byte a mod 4 * 16 + byte b div 16 = byte a' mod 4 * 16 + byte b' div 16"
    "byte b mod 16 * 4 = byte b' mod 16 * 4"
    by (rule b64_char_inject [OF sextet_bounds(1) sextet_bounds(1) e(1)],
      rule b64_char_inject [OF sextet_bounds(2) sextet_bounds(2) e(2)], rule b64_char_inject [OF z z e(3)])
  then have "byte a = byte a' \<and> byte b = byte b' \<and> (0 :: nat) = 0" by - (rule sextets; simp)
  with t show ?case by simp
next
  case (4 a b c rest)
  then obtain a' b' c' rest' where t: "t = a' # b' # c' # rest'" by (cases t rule: EncodeToString.cases) auto
  from EncodeToString_inject3 [of a b c rest a' b' c' rest'] 4 t show ?case by auto
qed

section \<open>Properties\<close>

text \<open>
  C22: A push bills each user what the counters say and nobody else: for users named by their
  identifiers, the amount of an identifier in the request is the sum of its amounts over exactly
  the inbounds the client is responsible for, in whatever order the users are visited.
\<close>

theorem payload_bills_users:
  assumes "wf_map2 delta"
    and "\<forall>(tag, users) \<in> set delta. \<forall>u. mget users u \<noteq> None \<and> isNumericUser u \<longrightarrow> (\<exists>m. u = Itoa m)"
  shows "mget_or zero2 (traffic_payload rank (flat_traffic c delta)) n
    = (if 0 \<le> sint n then billed c delta (Itoa n) else zero2)"
proof -
  have "\<exists>m. u = Itoa m" if "mget (flat_traffic c delta) u \<noteq> None" for u
    using flat_traffic_keys [OF assms(1) that] assms(2) by blast
  then have "mget (traffic_payload rank (flat_traffic c delta)) n = mget (flat_traffic c delta) (Itoa n)"
    by (rule payload_lookup [OF flat_traffic_wf])
  then show ?thesis
    using flat_traffic_sum [OF assms(1), of c "Itoa n"] by (simp add: mget_or_def isNumericUser_Itoa)
qed

definition vless_client :: client where
  "vless_client = NewClient ''https://panel.example/'' ''t'' ''1'' ''vless''"

lemma vless_matches: "matchesInbound vless_client tag \<longleftrightarrow> tag = ''vless-in''"
proof -
  have "ToLower (NodeType vless_client) = ''vless''" by code_simp
  then show ?thesis by (simp add: matchesInbound_def)
qed

lemma Itoa_7: "Itoa 7 = ''7''" "Itoa 8 = ''8''"
  by code_simp+

theorem payload_bills_users_witness:
  "mget_or zero2 (traffic_payload (\<lambda>i. i) (flat_traffic vless_client
     [(''vless-in'', [(''7'', (10, 20)), (''8'', (1, 1))]), (''hy2-in'', [(''7'', (5, 5))])])) 7 = (10, 20)"
proof -
  let ?d = "[(''vless-in'', [(''7'', (10, 20)), (''8'', (1, 1))]), (''hy2-in'', [(''7'', (5, 5))])] :: traffic"
  have "wf_map2 ?d" by (simp add: wf_map2_def)
  moreover have "\<forall>(tag, users) \<in> set ?d. \<forall>u. mget users u \<noteq> None \<and> isNumericUser u \<longrightarrow> (\<exists>m. u = Itoa m)"
    using Itoa_7 by (auto split: if_splits) metis+
  ultimately show ?thesis
    using payload_bills_users [of ?d "\<lambda>i. i" vless_client 7]
    by (simp add: Itoa_7 billed_def vless_matches mget_or_def zero2_def add2_def)
qed

text \<open>
  C23: A tagged inbound reaches no \<open>vless\<close>, \<open>hysteria2\<close> or Shadowsocks client: the client compares
  the whole tag with its inbound's name, so a push of traffic that all carries source labels
  returns nil, after which it is committed, without a request having been sent.
\<close>

theorem labelled_traffic_is_not_billed:
  assumes "\<forall>(tag, users) \<in> set delta. \<exists>b l. tag = b @ sourceTagMarker @ l"
    and "ToLower (NodeType c) \<in> {''vless'', ''vless-reality'', ''reality'', ''hy2'', ''hysteria'', ''hysteria2'',
      ''ss'', ''ss2022'', ''shadowsocks''}"
  shows "PushTraffic (client_panel H k c) delta w = (NoError, w)"
proof -
  have "CHR ''@'' \<in> set (b @ sourceTagMarker @ l)" for b l by (simp add: sourceTagMarker_def)
  moreover have "CHR ''@'' \<notin> set ''vless-in''" "CHR ''@'' \<notin> set ''hy2-in''" "CHR ''@'' \<notin> set ''ss-in''" by simp_all
  ultimately have "\<not> matchesInbound c (b @ sourceTagMarker @ l)" for b l
    using assms(2) unfolding matchesInbound_def Let_def by (smt (verit) insert_iff empty_iff)
  with assms(1) have none: "\<forall>(tag, users) \<in> set delta. \<not> matchesInbound c tag" by auto
  then have "flat_traffic c delta = []"
    unfolding flat_traffic_def by (induction delta) auto
  then show ?thesis by (simp add: client_panel_def Client_PushTraffic_def)
qed

text \<open>A panel that records the bodies it is sent and accepts them.\<close>

definition recording_http :: "body list http" where
  "recording_http =
     \<lparr>parse_url = (\<lambda>u. Inr (u, [])), new_request = (\<lambda>rq. None),
      send = (\<lambda>rq w. (Inr \<lparr>StatusCode = 200, Status = ''200 OK'', as_users = Inr \<lparr>ul_Users = [], ul_Data = []\<rparr>,
        as_raw = None, as_config = Inr zero_config, as_wrapped_config = Inr zero_config,
        as_message = ([], [])\<rparr>, w @ [rq_body rq])),
      range_rank = (\<lambda>w place i. i)\<rparr>"

theorem labelled_traffic_is_not_billed_witness:
  "PushTraffic (client_panel recording_http 0 vless_client) [(''vless-in@source=home'', [(''7'', (100, 200))])] []
   = (NoError, [])"
proof (rule labelled_traffic_is_not_billed)
  show "\<forall>(tag, users) \<in> set [(''vless-in@source=home'', [(''7'', (100, 200))])]. \<exists>b l. tag = b @ sourceTagMarker @ l"
    by (auto simp: sourceTagMarker_def intro: exI [of _ "''vless-in''"])
  have "ToLower (NodeType vless_client) = ''vless''" by code_simp
  then show "ToLower (NodeType vless_client) \<in> {''vless'', ''vless-reality'', ''reality'', ''hy2'', ''hysteria'',
      ''hysteria2'', ''ss'', ''ss2022'', ''shadowsocks''}"
    by simp
qed

text \<open>
  Every user the client hands out can be billed and logged in: it has a name, its identifier
  when the panel gave none, and a password unless the panel gave neither a password nor a UUID.
\<close>

theorem fetched_users_ready:
  assumes "FetchUsers (client_panel H k c) w = (Inr us, w')" and "u \<in> set us"
  shows "Name u \<noteq> [] \<and> (Password u = [] \<longrightarrow> UUID u = [])"
proof -
  have "\<exists>vs. us = map fill_user vs"
    using assms(1)
    by (auto simp: client_panel_def Client_FetchUsers_def Let_def split: sum.splits prod.splits if_splits)
  with assms(2) obtain v where "u = fill_user v" by auto
  then show ?thesis by (simp add: fill_user_def Let_def)
qed

definition listing_http :: "user list \<Rightarrow> unit http" where
  "listing_http us =
     \<lparr>parse_url = (\<lambda>u. Inr (u, [])), new_request = (\<lambda>rq. None),
      send = (\<lambda>rq w. (Inr \<lparr>StatusCode = 200, Status = ''200 OK'', as_users = Inr \<lparr>ul_Users = us, ul_Data = []\<rparr>,
        as_raw = None, as_config = Inr zero_config, as_wrapped_config = Inr zero_config,
        as_message = ([], [])\<rparr>, w)),
      range_rank = (\<lambda>w place i. i)\<rparr>"

theorem fetched_users_ready_witness:
  "\<exists>us. FetchUsers (client_panel (listing_http [some_user 7 ''uuid-7'']) 0 vless_client) () = (Inr us, ())
     \<and> map Name us = [''7''] \<and> (\<forall>u \<in> set us. Name u \<noteq> [])"
proof -
  let ?us = "[fill_user (some_user 7 ''uuid-7'')]"
  have "\<not> isShadowsocksNodeType (NodeType vless_client)" by code_simp
  then have f: "FetchUsers (client_panel (listing_http [some_user 7 ''uuid-7'']) 0 vless_client) () = (Inr ?us, ())"
    by (simp add: client_panel_def Client_FetchUsers_def listing_http_def endpoint_def do_request_def ok_status_def
        vless_client_def NewClient_def TrimRightChar_def Let_def)
  moreover have "map Name ?us = [''7'']" by (simp add: fill_user_def some_user_def Itoa_7)
  ultimately show ?thesis using fetched_users_ready [OF f] by (intro exI [of _ ?us]) simp
qed

text \<open>The size of the key of a Shadowsocks 2022 cipher.\<close>

definition key_size :: "string \<Rightarrow> nat" where
  "key_size cipher = (if ToLower cipher = ''2022-blake3-aes-128-gcm'' then 16 else 32)"

text \<open>
  C24: The key a Shadowsocks 2022 user is given is a key of the cipher's size and keeps users apart:
  it encodes exactly the first 16 or 32 bytes of the UUID, and two users get the same key only if
  those bytes agree. A shorter UUID is an error, never a shorter key.
\<close>

theorem shadowsocks_2022_keys:
  assumes "ToLower cipher \<in> {''2022-blake3-aes-128-gcm'', ''2022-blake3-aes-256-gcm'', ''2022-blake3-chacha20-poly1305''}"
    and "UUID u \<noteq> []" and "UUID v \<noteq> []"
  shows "(case compatibleShadowsocksPassword u cipher of
      Inl err \<Rightarrow> length (UUID u) < key_size cipher
    | Inr key \<Rightarrow> key = EncodeToString (take (key_size cipher) (UUID u)) \<and> key_size cipher \<le> length (UUID u)
        \<and> (compatibleShadowsocksPassword v cipher = Inr key
            \<longrightarrow> take (key_size cipher) (UUID u) = take (key_size cipher) (UUID v)))"
proof -
  have key: "compatibleShadowsocksPassword x cipher =
      (if length (UUID x) < key_size cipher
       then Inl (Errorf ''shadowsocks uuid/password too short for %s'' [cipher])
       else Inr (EncodeToString (take (key_size cipher) (UUID x))))" if "UUID x \<noteq> []" for x
    using assms(1) that by (auto simp: compatibleShadowsocksPassword_def key_size_def Let_def)
  have "take n (UUID u) = take n (UUID v)" if "n \<le> length (UUID u)" "n \<le> length (UUID v)"
    "EncodeToString (take n (UUID v)) = EncodeToString (take n (UUID u))" for n
    using that EncodeToString_inject [of "take n (UUID u)" "take n (UUID v)"] by simp
  then show ?thesis by (simp add: key [OF assms(2)] key [OF assms(3)] not_less)
qed

theorem shadowsocks_2022_keys_witness:
  "compatibleShadowsocksPassword (some_user 7 ''0123456789abcdef0000'') ''2022-blake3-aes-128-gcm''
     = Inr ''MDEyMzQ1Njc4OWFiY2RlZg=='' \<and> key_size ''2022-blake3-aes-128-gcm'' = 16"
proof -
  have l: "ToLower ''2022-blake3-aes-128-gcm'' = ''2022-blake3-aes-128-gcm''"
    and e: "EncodeToString ''0123456789abcdef'' = ''MDEyMzQ1Njc4OWFiY2RlZg==''"
    and k: "compatibleShadowsocksPassword (some_user 7 ''0123456789abcdef0000'') ''2022-blake3-aes-128-gcm''
      = Inr ''MDEyMzQ1Njc4OWFiY2RlZg==''"
    by code_simp+
  show ?thesis
    using shadowsocks_2022_keys [of "''2022-blake3-aes-128-gcm''" "some_user 7 ''0123456789abcdef0000''"
        "some_user 7 ''0123456789abcdef0000''"] l k
    by (simp add: some_user_def key_size_def)
qed

end
