(* ===== verification/Delta_Sync.thy ===== *)
theory Delta_Sync
  imports Go_Maps
begin

text \<open>
  The contract between the synchroniser and the two components it reports for. Both the
  traffic counters (\<open>SnapshotDelta\<close>, \<open>CommitSnapshot\<close>) and the session tracker (\<open>AliveDelta\<close>,
  \<open>CommitAlive\<close>) work the same way: a snapshot is taken, pushed to the panel while connections
  keep changing the component, and committed only when the push returned nil.

  \<open>current\<close> is what the component knows, \<open>reported\<close> what it has recorded as reported, and
  \<open>apply_delta d v\<close> what a panel that holds the view \<open>v\<close> holds after the delta \<open>d\<close>. \<open>env\<close> is one
  step of the connections, \<open>covers d s\<close> says that \<open>d\<close> can still be committed into \<open>s\<close>.
\<close>

section \<open>Runs of a component with its panel\<close>

text \<open>
  A run of a component state and the view a panel has built up from the deltas it accepted:
  connections work, a push is refused (the panel and the component keep what they have), or a
  push is accepted and its delta committed, with connections at work between the snapshot and
  the commit.
\<close>

inductive sync_run ::
  "('s \<Rightarrow> 'd) \<Rightarrow> ('d \<Rightarrow> 's \<Rightarrow> 's) \<Rightarrow> ('d \<Rightarrow> 'v \<Rightarrow> 'v) \<Rightarrow> ('s \<Rightarrow> 's \<Rightarrow> bool) \<Rightarrow>
   's \<times> 'v \<Rightarrow> 's \<times> 'v \<Rightarrow> bool"
  for snapshot commit apply_delta env where
  run_start: "sync_run snapshot commit apply_delta env (s, v) (s, v)"
| run_work: "sync_run snapshot commit apply_delta env c (s, v) \<Longrightarrow> env s s' \<Longrightarrow>
     sync_run snapshot commit apply_delta env c (s', v)"
| run_refused: "sync_run snapshot commit apply_delta env c (s, v) \<Longrightarrow> env\<^sup>*\<^sup>* s s' \<Longrightarrow>
     sync_run snapshot commit apply_delta env c (s', v)"
| run_accepted: "sync_run snapshot commit apply_delta env c (s, v) \<Longrightarrow> env\<^sup>*\<^sup>* s s' \<Longrightarrow>
     sync_run snapshot commit apply_delta env c (commit (snapshot s) s', apply_delta (snapshot s) v)"

section \<open>The contract\<close>

locale delta_source =
  fixes inv :: "'s \<Rightarrow> bool"
    and snapshot :: "'s \<Rightarrow> 'd"
    and commit :: "'d \<Rightarrow> 's \<Rightarrow> 's"
    and current :: "'s \<Rightarrow> 'v"
    and reported :: "'s \<Rightarrow> 'v"
    and apply_delta :: "'d \<Rightarrow> 'v \<Rightarrow> 'v"
    and covers :: "'d \<Rightarrow> 's \<Rightarrow> bool"
    and env :: "'s \<Rightarrow> 's \<Rightarrow> bool"
  assumes snapshot_covers: "inv s \<Longrightarrow> covers (snapshot s) s"
    and snapshot_complete: "inv s \<Longrightarrow> apply_delta (snapshot s) (reported s) = current s"
    and commit_reported: "inv s \<Longrightarrow> covers d s \<Longrightarrow> reported (commit d s) = apply_delta d (reported s)"
    and commit_current: "inv s \<Longrightarrow> covers d s \<Longrightarrow> current (commit d s) = current s"
    and env_inv: "env s s' \<Longrightarrow> inv s \<Longrightarrow> inv s'"
    and env_covers: "env s s' \<Longrightarrow> inv s \<Longrightarrow> covers d s \<Longrightarrow> covers d s'"
    and env_reported: "env s s' \<Longrightarrow> inv s \<Longrightarrow> reported s' = reported s"
    and commit_inv: "inv s \<Longrightarrow> env\<^sup>*\<^sup>* s s' \<Longrightarrow> inv (commit (snapshot s) s')"
begin

lemma envs_keep:
  assumes "env\<^sup>*\<^sup>* s s'" and "inv s"
  shows "inv s' \<and> reported s' = reported s \<and> (covers d s \<longrightarrow> covers d s')"
  using assms
proof (induction rule: rtranclp_induct)
  case base
  then show ?case by simp
next
  case (step y z)
  then show ?case using env_inv env_reported env_covers by metis
qed

text \<open>One accepted cycle reports what was current when the snapshot was taken, nothing later.\<close>

lemma accepted_cycle:
  assumes "inv s" and "env\<^sup>*\<^sup>* s s'"
  shows "reported (commit (snapshot s) s') = current s"
    and "current (commit (snapshot s) s') = current s'"
    and "inv (commit (snapshot s) s')"
proof -
  have s': "inv s'" "reported s' = reported s" "covers (snapshot s) s'"
    using envs_keep [OF assms(2,1)] snapshot_covers [OF assms(1)] by auto
  show "reported (commit (snapshot s) s') = current s"
    using s' commit_reported snapshot_complete [OF assms(1)] by simp
  show "current (commit (snapshot s) s') = current s'"
    using s' commit_current by simp
  show "inv (commit (snapshot s) s')" using assms by (rule commit_inv)
qed

lemma run_agrees:
  assumes "sync_run snapshot commit apply_delta env (s0, v0) (s, v)"
    and "inv s0" and "v0 = reported s0"
  shows "inv s \<and> v = reported s"
  using assms
proof (induction "(s0, v0)" "(s, v)" arbitrary: s v rule: sync_run.induct)
  case run_start
  then show ?case by simp
next
  case (run_work s v s')
  then show ?case using env_inv env_reported by metis
next
  case (run_refused s v s')
  then show ?case using envs_keep by metis
next
  case (run_accepted s v s')
  then have "inv s" "v = reported s" by auto
  with run_accepted.hyps show ?case
    using accepted_cycle snapshot_complete by metis
qed

end

end
