(* ===== verification/Alive_Reporting.thy ===== *)
theory Alive_Reporting
  imports Session_Tracker Delta_Sync
begin

text \<open>
  What \<open>DevicesSnapshot\<close>, \<open>AliveDelta\<close> and \<open>CommitAlive\<close> of \<open>session_tracker.go\<close> promise
  together: the snapshot lists the devices of the open sessions, and a panel that applies the
  deltas it accepted holds exactly what the tracker has recorded as reported. The tracker meets
  the contract \<open>delta_source\<close> with the sessions that open and close as the environment.

  \<open>AliveDelta\<close> releases its lock between the snapshot and the comparison with \<open>lastAlive\<close>. Only
  \<open>CommitAlive\<close> changes \<open>lastAlive\<close>, and the synchroniser calls both from one goroutine, so the
  model takes the two halves as one step.
\<close>

section \<open>Loops over maps of maps\<close>

definition triples :: "(string, (string, 'v) gomap) gomap \<Rightarrow> (string \<times> string \<times> 'v) list" where
  "triples m = concat (map (\<lambda>(i, us). map (\<lambda>(u, x). (i, u, x)) us) m)"

lemma triples_simps [simp]:
  "triples [] = []" "triples ((i, us) # m) = map (\<lambda>(u, x). (i, u, x)) us @ triples m"
  by (simp_all add: triples_def)

lemma fold_triples:
  "fold (\<lambda>(i, us) out. fold (\<lambda>(u, x) out. f i u x out) us out) m out = fold (\<lambda>(i, u, x). f i u x) (triples m) out"
proof (induction m arbitrary: out)
  case Nil
  then show ?case by simp
next
  case (Cons e m)
  obtain i us where e: "e = (i, us)" by (cases e)
  have "fold (\<lambda>(u, x) out. f i u x out) us out = fold (\<lambda>(i, u, x). f i u x) (map (\<lambda>(u, x). (i, u, x)) us) out"
    by (induction us arbitrary: out) auto
  with Cons.IH show ?case by (simp add: e)
qed

lemma mget2_or: "mget2 m i u = mget (mget_or [] m i) u"
  by (simp add: mget2_def mget_or_def split: option.split)

lemma mget2_mput2: "mget2 (mput2 i u v m) i' u' = (if i' = i \<and> u' = u then Some v else mget2 m i' u')"
  by (simp add: mget2_or mput2_def mget_or_mput mget_mput)

lemma wf_map2_Cons: "wf_map2 ((i, us) # m) \<longleftrightarrow> mget m i = None \<and> wf_map us \<and> wf_map2 m"
  by (auto simp: wf_map2_def)

lemma triples_mget2: "wf_map2 m \<Longrightarrow> (i, u, x) \<in> set (triples m) \<longleftrightarrow> mget2 m i u = Some x"
proof (induction m arbitrary: i)
  case Nil
  then show ?case by simp
next
  case (Cons e m)
  obtain i0 us where e: "e = (i0, us)" by (cases e)
  with Cons.prems have "(i0, u, x) \<notin> set (triples m)"
    using Cons.IH by (auto simp: wf_map2_Cons mget2_def)
  moreover have "mget us u = Some x \<longleftrightarrow> (u, x) \<in> set us"
    using Cons.prems by (simp add: e wf_map2_Cons mget_iff_in_set)
  ultimately show ?case
    using Cons by (cases "i = i0") (auto simp: e wf_map2_Cons mget2_def)
qed

text \<open>Whether such a loop assigns under a key depends only on the entry of that key.\<close>

lemma mget2_fold_mput2:
  assumes "wf_map2 m"
  shows "mget2 (fold (\<lambda>(i, u, x) out. if P i u x then mput2 i u (g x) out else out) (triples m) out) i u
    = (case mget2 m i u of
         None \<Rightarrow> mget2 out i u
       | Some x \<Rightarrow> if P i u x then Some (g x) else mget2 out i u)"
proof -
  have "mget2 (fold (\<lambda>(i, u, x) out. if P i u x then mput2 i u (g x) out else out) ts out) i u
    = (if \<exists>x. (i, u, x) \<in> set ts \<and> P i u x then Some (g x0) else mget2 out i u)"
    if "\<forall>x. (i, u, x) \<in> set ts \<longrightarrow> x = x0" for ts x0 out
    using that by (induction ts arbitrary: out) (auto simp: mget2_mput2 split: if_splits)
  from this [of "triples m" "the (mget2 m i u)" out] show ?thesis
    using triples_mget2 [OF assms, of i u] by (cases "mget2 m i u") auto
qed

section \<open>Snapshots\<close>

text \<open>The devices of a user on an inbound, in a snapshot and as last reported.\<close>

definition peers_of :: "alive_map \<Rightarrow> string \<Rightarrow> string \<Rightarrow> string list" where
  "peers_of m i u = mget_or [] (mget_or [] m i) u"

lemma peers_of_mget2: "peers_of m i u = (case mget2 m i u of None \<Rightarrow> [] | Some ips \<Rightarrow> ips)"
  by (simp add: peers_of_def mget2_or mget_or_def)

lemma wf_refs_inner: "wf_refs r \<Longrightarrow> mget r i = Some ib \<Longrightarrow> mget ib u = Some us \<Longrightarrow> wf_refs1 us"
  by (simp add: wf_refs_def wf_refs2_def)

lemma DevicesSnapshot_mget2:
  "mget2 (DevicesSnapshot t) i u = map_option peer_list (mget2 (deviceRefs t) i u)"
  by (simp add: mget2_def DevicesSnapshot_def mget_map_values [where f = "\<lambda>k. map (\<lambda>(u, p). (u, peer_list p))"]
      mget_map_values [where f = "\<lambda>k. peer_list"] split: option.split)

lemma wf_map_values2:
  "wf_map2 m \<Longrightarrow> wf_map2 (map (\<lambda>(i, us). (i, map (\<lambda>(u, p). (u, f p)) us)) m)"
  by (auto simp: wf_map2_def wf_map_values [where f = "\<lambda>k. map (\<lambda>(u, p). (u, f p))"]
      wf_map_values [where f = "\<lambda>k. f"])

lemma wf_refs_wf_map2: "wf_refs r \<Longrightarrow> wf_map2 r"
  by (auto simp: wf_refs_def wf_map2_def wf_refs2_def dest: in_set_mget)

lemma wf_DevicesSnapshot: "wf_refs (deviceRefs t) \<Longrightarrow> wf_map2 (DevicesSnapshot t)"
  by (simp add: DevicesSnapshot_def wf_map_values2 wf_refs_wf_map2)

lemma peers_of_Devices:
  assumes "wf_refs (deviceRefs t)"
  shows "peers_of (DevicesSnapshot t) i u = sorted_list_of_set {ip. 0 < ref_count (deviceRefs t) (i, u, ip)}"
proof (cases "mget2 (deviceRefs t) i u")
  case None
  then have "ref_count (deviceRefs t) (i, u, ip) = 0" for ip
    by (auto simp: ref_count_def mget2_or mget_or_def split: option.splits)
  with None show ?thesis by (simp add: peers_of_mget2 DevicesSnapshot_mget2)
next
  case (Some us)
  then obtain ib where "mget (deviceRefs t) i = Some ib" "mget ib u = Some us"
    by (auto simp: mget2_def split: option.splits)
  with assms have us: "wf_refs1 us" by (rule wf_refs_inner)
  have count: "ref_count (deviceRefs t) (i, u, ip) = mget_or 0 us ip" for ip
    using Some by (simp add: ref_count_def mget2_or) (simp add: mget_or_def)
  have "{ip. 0 < mget_or 0 us ip} = set (mkeys us)"
    using us by (auto simp: set_mkeys mget_or_def wf_refs1_def split: option.splits)
  moreover have "sort (mkeys us) = sorted_list_of_set (set (mkeys us))"
    using us sorted_list_of_set_sort_remdups [of "mkeys us"]
    by (simp add: wf_refs1_def wf_map_def mkeys_def distinct_remdups_id)
  ultimately show ?thesis
    using Some by (simp add: peers_of_mget2 DevicesSnapshot_mget2 count peer_list_def)
qed

section \<open>The delta\<close>

lemma sameStringSlice_eq: "sameStringSlice a b \<longleftrightarrow> a = b"
  by (auto simp: sameStringSlice_def list.rel_eq)

lemma alive_changed_eq:
  "alive_changed lastA current =
     fold (\<lambda>(i, u, ips) out. if peers_of lastA i u \<noteq> ips then mput2 i u ips out else out) (triples current) []"
  unfolding alive_changed_def sameStringSlice_eq peers_of_def [symmetric] by (rule fold_triples)

lemma alive_gone_eq:
  "alive_gone lastA current out =
     fold (\<lambda>(i, u, _) out. if mget2 current i u = None then mput2 i u [] out else out) (triples lastA) out"
proof -
  have "(case mget current i of None \<Rightarrow> mput2 i u [] out
      | Some us \<Rightarrow> if mget us u = None then mput2 i u [] out else out)
    = (if mget2 current i u = None then mput2 i u [] out else out)" for i u and out :: alive_map
    by (simp add: mget2_def split: option.split)
  then show ?thesis by (simp add: alive_gone_def fold_triples)
qed

lemma mget2_alive_changed:
  assumes "wf_map2 current"
  shows "mget2 (alive_changed lastA current) i u
    = (case mget2 current i u of
         None \<Rightarrow> None
       | Some ips \<Rightarrow> if peers_of lastA i u \<noteq> ips then Some ips else None)"
  using mget2_fold_mput2 [OF assms, of "\<lambda>i u ips. peers_of lastA i u \<noteq> ips" "\<lambda>ips. ips" "[]" i u]
  by (simp add: alive_changed_eq mget2_def split: option.splits)

lemma mget2_alive_gone:
  assumes "wf_map2 lastA"
  shows "mget2 (alive_gone lastA current out) i u
    = (if mget2 lastA i u \<noteq> None \<and> mget2 current i u = None then Some [] else mget2 out i u)"
  using mget2_fold_mput2 [OF assms, of "\<lambda>i u ips. mget2 current i u = None" "\<lambda>ips. []" out i u]
  by (auto simp: alive_gone_eq split: option.splits)

text \<open>The delta names exactly the users whose devices differ from the report, with their devices.\<close>

lemma mget2_AliveDelta:
  assumes "wf_map2 (lastAlive t)" and "wf_refs (deviceRefs t)"
  shows "mget2 (AliveDelta t) i u
    = (case mget2 (DevicesSnapshot t) i u of
         None \<Rightarrow> if mget2 (lastAlive t) i u = None then None else Some []
       | Some ips \<Rightarrow> if peers_of (lastAlive t) i u \<noteq> ips then Some ips else None)"
  by (simp add: AliveDelta_def Let_def mget2_alive_gone [OF assms(1)]
      mget2_alive_changed [OF wf_DevicesSnapshot [OF assms(2)]] split: option.split)

text \<open>Shape of a delta: no empty inner map, sorted device lists.\<close>

definition alive_shape :: "alive_map \<Rightarrow> bool" where
  "alive_shape d \<longleftrightarrow> wf_map2 d \<and> (\<forall>i us. mget d i = Some us \<longrightarrow> us \<noteq> [])
     \<and> (\<forall>i u ips. mget2 d i u = Some ips \<longrightarrow> sorted ips)"

lemma wf_map2_mput: "wf_map2 m \<Longrightarrow> wf_map us \<Longrightarrow> wf_map2 (mput i us m)"
proof -
  assume m: "wf_map2 m" and us: "wf_map us"
  then have "wf_map (mput i us m)" by (simp add: wf_map2_def wf_mput)
  moreover have "wf_map (snd e)" if "e \<in> set (mput i us m)" for e
  proof -
    have "mget (mput i us m) (fst e) = Some (snd e)"
      using that \<open>wf_map (mput i us m)\<close> by (simp add: in_set_mget)
    then show ?thesis using us wf_map2D(2) [OF m] by (auto simp: mget_mput split: if_splits)
  qed
  ultimately show ?thesis by (simp add: wf_map2_def)
qed

lemma wf_map_mget_or: "wf_map2 m \<Longrightarrow> wf_map (mget_or [] m i)"
  by (auto simp: mget_or_def dest: wf_map2D split: option.split)

lemma alive_shape_mput2: "alive_shape d \<Longrightarrow> sorted ips \<Longrightarrow> alive_shape (mput2 i u ips d)"
  unfolding alive_shape_def mget2_mput2
  by (auto simp: mput2_def wf_map2_mput wf_mput wf_map_mget_or mget_mput split: if_splits)

lemma peer_list_sorted: "mget2 (DevicesSnapshot t) i u = Some ips \<Longrightarrow> sorted ips"
  by (auto simp: DevicesSnapshot_mget2 peer_list_def)

lemma AliveDelta_shape:
  assumes "wf_refs (deviceRefs t)"
  shows "alive_shape (AliveDelta t)"
proof -
  note wf = wf_DevicesSnapshot [OF assms]
  have "alive_shape (alive_changed (lastAlive t) (DevicesSnapshot t))"
    unfolding alive_changed_eq
  proof (rule fold_invariant)
    show "alive_shape []" by (simp add: alive_shape_def)
    fix e out assume e: "e \<in> set (triples (DevicesSnapshot t))" and out: "alive_shape out"
    obtain i u ips where e': "e = (i, u, ips)" by (cases e)
    with e have "sorted ips" using triples_mget2 [OF wf] peer_list_sorted by blast
    with out show "alive_shape ((\<lambda>(i, u, ips) out.
        if peers_of (lastAlive t) i u \<noteq> ips then mput2 i u ips out else out) e out)"
      by (simp add: e' alive_shape_mput2)
  qed
  then show ?thesis
    unfolding AliveDelta_def Let_def alive_gone_eq
    by (rule fold_invariant) (auto simp: alive_shape_mput2)
qed

section \<open>The commit\<close>

lemma peers_of_commit_user:
  "peers_of (commit_user i (u, ips) m) i' u' = (if i' = i \<and> u' = u then sort ips else peers_of m i' u')"
  by (simp add: peers_of_def commit_user_def mget_or_mput) (simp add: mget_or_def mget_mput mget_mdel)

lemma peers_of_commit_users:
  assumes "wf_map us"
  shows "peers_of (fold (commit_user i) us m) i' u'
    = (if i' = i then (case mget us u' of None \<Rightarrow> peers_of m i' u' | Some ips \<Rightarrow> sort ips) else peers_of m i' u')"
  using assms
proof (induction us arbitrary: m)
  case Nil
  then show ?case by simp
next
  case (Cons e us)
  obtain u ips where "e = (u, ips)" by (cases e)
  with Cons show ?case by (auto simp: peers_of_commit_user split: option.splits)
qed

lemma peers_of_prune: "mget_or [] m i = [] \<Longrightarrow> peers_of (mdel i m) i' u' = peers_of m i' u'"
  by (auto simp: peers_of_def mget_or_def mget_mdel)

lemma peers_of_make: "peers_of (if mget m i = None then mput i [] m else m) i' u' = peers_of m i' u'"
  by (auto simp: peers_of_def mget_or_def mget_mput)

lemma peers_of_commit_inbound:
  assumes "wf_map us" and "us \<noteq> []"
  shows "peers_of (commit_inbound (i, us) m) i' u'
    = (if i' = i then (case mget us u' of None \<Rightarrow> peers_of m i' u' | Some ips \<Rightarrow> sort ips) else peers_of m i' u')"
proof -
  let ?m = "fold (commit_user i) us (if mget m i = None then mput i [] m else m)"
  have "peers_of (commit_inbound (i, us) m) i' u' = peers_of ?m i' u'"
    using assms(2) by (simp add: commit_inbound_def Let_def peers_of_prune)
  then show ?thesis by (simp only: peers_of_commit_users [OF assms(1)] peers_of_make)
qed

lemma peers_of_commit:
  assumes "wf_map2 d" and "\<forall>i us. mget d i = Some us \<longrightarrow> us \<noteq> []"
  shows "peers_of (fold commit_inbound d m) i u
    = (case mget2 d i u of None \<Rightarrow> peers_of m i u | Some ips \<Rightarrow> sort ips)"
  using assms
proof (induction d arbitrary: m)
  case Nil
  then show ?case by simp
next
  case (Cons e d)
  obtain i0 us where e: "e = (i0, us)" by (cases e)
  from Cons.prems(2) have "us \<noteq> []" by (auto simp: e dest: spec [of _ i0])
  with Cons.prems(1) have wf: "wf_map us" "us \<noteq> []" "mget d i0 = None" "wf_map2 d"
    by (simp_all add: e wf_map2_Cons)
  have ne: "\<forall>i us. mget d i = Some us \<longrightarrow> us \<noteq> []"
    using Cons.prems(2) wf(3) by (metis e mget_Cons option.distinct(1))
  have "mget2 (e # d) i u = (if i = i0 then mget us u else mget2 d i u)"
    using wf(3) by (simp add: e mget2_def)
  moreover have "i = i0 \<Longrightarrow> mget2 d i u = None" using wf(3) by (simp add: mget2_def)
  ultimately show ?case
    using Cons.IH [OF wf(4) ne] peers_of_commit_inbound [OF wf(1,2), of i0]
    by (auto simp: e split: option.splits)
qed

lemma wf_map2_commit_user: "wf_map2 m \<Longrightarrow> wf_map2 (commit_user i e m)"
  by (cases e) (simp add: commit_user_def wf_map2_mput wf_mput wf_mdel wf_map_mget_or)

lemma wf_map2_mdel: "wf_map2 m \<Longrightarrow> wf_map2 (mdel i m)"
  by (auto simp: wf_map2_def wf_mdel) (auto simp: mdel_def)

lemma wf_map2_commit_inbound: "wf_map2 m \<Longrightarrow> wf_map2 (commit_inbound e m)"
proof -
  assume m: "wf_map2 m"
  obtain i us where e: "e = (i, us)" by (cases e)
  have "wf_map2 (fold (commit_user i) us (if mget m i = None then mput i [] m else m))"
    by (rule fold_invariant) (simp_all add: m wf_map2_mput wf_map2_commit_user)
  with m show ?thesis by (simp add: e commit_inbound_def Let_def wf_map2_mdel)
qed

text \<open>No user is recorded as reported with an empty list.\<close>

definition no_blank :: "alive_map \<Rightarrow> bool" where
  "no_blank m \<longleftrightarrow> (\<forall>i u. mget2 m i u \<noteq> Some [])"

lemma sort_Nil_iff [simp]: "sort xs = ([] :: string list) \<longleftrightarrow> xs = []"
  by (metis length_0_conv length_sort)

lemma no_blank_commit_user: "no_blank m \<Longrightarrow> no_blank (commit_user i e m)"
  by (cases e) (auto simp: no_blank_def commit_user_def mget2_or mget_or_mput mget_mput mget_mdel
      split: if_splits)

lemma no_blank_mdel: "no_blank m \<Longrightarrow> no_blank (mdel i m)"
  by (auto simp: no_blank_def mget2_def mget_mdel)

lemma no_blank_make: "no_blank m \<Longrightarrow> no_blank (if mget m i = None then mput i [] m else m)"
  by (auto simp: no_blank_def mget2_def mget_mput)

lemma no_blank_commit_inbound: "no_blank m \<Longrightarrow> no_blank (commit_inbound e m)"
proof -
  assume m: "no_blank m"
  obtain i us where e: "e = (i, us)" by (cases e)
  have "no_blank (fold (commit_user i) us (if mget m i = None then mput i [] m else m))"
    by (rule fold_invariant [where P = no_blank]) (simp_all only: m no_blank_make no_blank_commit_user)
  with m show ?thesis by (simp add: e commit_inbound_def Let_def no_blank_mdel)
qed

section \<open>The tracker meets the reporting contract\<close>

text \<open>One step of the connections: a session opens, or a function \<open>Open\<close> returned is called.\<close>

inductive alive_step :: "session_tracker \<Rightarrow> session_tracker \<Rightarrow> bool" where
  step_open: "alive_step t (snd (Open inbound user source t))"
| step_close: "alive_step t (snd (run_opened o1 t))"

inductive_cases alive_stepE: "alive_step t t'"

definition alive_inv :: "session_tracker \<Rightarrow> bool" where
  "alive_inv t \<longleftrightarrow> wf_refs (deviceRefs t) \<and> wf_map2 (lastAlive t) \<and> no_blank (lastAlive t)"

definition apply_alive :: "alive_map \<Rightarrow> (string \<Rightarrow> string \<Rightarrow> string list) \<Rightarrow> string \<Rightarrow> string \<Rightarrow> string list" where
  "apply_alive d v i u = (case mget2 d i u of None \<Rightarrow> v i u | Some ips \<Rightarrow> ips)"

lemma alive_step_keeps:
  assumes "alive_step t t'" and "alive_inv t"
  shows "alive_inv t'" and "lastAlive t' = lastAlive t"
  using assms
  by (auto elim!: alive_stepE simp: alive_inv_def Open_def run_opened_def close_session_def Let_def
      wf_refs_inc wf_refs_dec)

lemma alive_steps_keep: "alive_step\<^sup>*\<^sup>* t t' \<Longrightarrow> alive_inv t \<Longrightarrow> alive_inv t'"
  by (induction rule: rtranclp_induct) (auto intro: alive_step_keeps)

interpretation al: delta_source alive_inv AliveDelta CommitAlive
  "\<lambda>t. peers_of (DevicesSnapshot t)" "\<lambda>t. peers_of (lastAlive t)" apply_alive
  "\<lambda>d t. alive_shape d" alive_step
proof unfold_locales
  fix t d
  assume t: "alive_inv t"
  then show "alive_shape (AliveDelta t)" by (simp add: alive_inv_def AliveDelta_shape)
  show "apply_alive (AliveDelta t) (peers_of (lastAlive t)) = peers_of (DevicesSnapshot t)"
    using t by (auto simp: fun_eq_iff apply_alive_def alive_inv_def mget2_AliveDelta peers_of_mget2
        split: option.splits)
  assume d: "alive_shape d"
  show "peers_of (lastAlive (CommitAlive d t)) = apply_alive d (peers_of (lastAlive t))"
    using d by (auto simp: fun_eq_iff CommitAlive_def apply_alive_def alive_shape_def peers_of_commit
        sorted_sort_id split: option.split)
  show "peers_of (DevicesSnapshot (CommitAlive d t)) = peers_of (DevicesSnapshot t)"
    by (simp add: CommitAlive_def DevicesSnapshot_def)
next
  fix t t' assume "alive_inv t" and "alive_step\<^sup>*\<^sup>* t t'"
  then have "alive_inv t'" by (simp add: alive_steps_keep)
  then show "alive_inv (CommitAlive (AliveDelta t) t')"
    by (auto simp: alive_inv_def CommitAlive_def intro!: fold_invariant [where P = wf_map2]
        fold_invariant [where P = no_blank] wf_map2_commit_inbound no_blank_commit_inbound)
qed (auto dest: alive_step_keeps)

lemma alive_inv_New: "alive_inv (NewSessionTracker c)"
  by (simp add: alive_inv_def NewSessionTracker_def wf_refs_def no_blank_def)

lemma Devices_no_blank:
  assumes "wf_refs (deviceRefs t)"
  shows "mget2 (DevicesSnapshot t) i u \<noteq> Some []"
proof
  assume "mget2 (DevicesSnapshot t) i u = Some []"
  then obtain ib us where "mget (deviceRefs t) i = Some ib" "mget ib u = Some us" and us: "peer_list us = []"
    unfolding DevicesSnapshot_mget2 by (auto simp: mget2_def split: option.splits)
  with wf_refs_inner [OF assms] have "us \<noteq> []" by (auto simp: wf_refs1_def)
  with us show False by (simp add: peer_list_def mkeys_def)
qed

text \<open>A user is in the delta just when its devices are not those last reported.\<close>

lemma AliveDelta_changed:
  assumes "alive_inv t"
  shows "mget2 (AliveDelta t) i u
    = (if peers_of (DevicesSnapshot t) i u = peers_of (lastAlive t) i u then None
       else Some (peers_of (DevicesSnapshot t) i u))"
  using assms Devices_no_blank [of t i u]
  by (auto simp: alive_inv_def no_blank_def mget2_AliveDelta peers_of_mget2 split: option.splits)

lemma alive_shape_Nil: "alive_shape d \<Longrightarrow> (\<And>i u. mget2 d i u = None) \<Longrightarrow> d = []"
proof (rule ccontr)
  assume d: "alive_shape d" "\<And>i u. mget2 d i u = None" "d \<noteq> []"
  then obtain i us where i: "mget d i = Some us" using mget_hd by blast
  with d(1) have "us \<noteq> []" by (simp add: alive_shape_def)
  with i have "mget2 d i (fst (hd us)) = Some (snd (hd us))" by (simp add: mget2_def mget_hd)
  with d(2) show False by simp
qed

section \<open>Properties\<close>

text \<open>
  C19: Whatever mix of opening and closing sessions, refused pushes and accepted pushes led to a
  state, what the panel has built up from the deltas it accepted is what the tracker has recorded
  as reported, and the next delta turns it into the devices of the sessions open now.
\<close>

theorem alive_view_follows_devices:
  assumes "sync_run AliveDelta CommitAlive apply_alive alive_step (NewSessionTracker c, \<lambda>i u. []) (t, v)"
  shows "v = peers_of (lastAlive t) \<and> apply_alive (AliveDelta t) v = peers_of (DevicesSnapshot t)"
proof -
  have "(\<lambda>i u. []) = peers_of (lastAlive (NewSessionTracker c))"
    by (auto simp: fun_eq_iff NewSessionTracker_def peers_of_mget2)
  from al.run_agrees [OF assms alive_inv_New this] show ?thesis
    using al.snapshot_complete by blast
qed

lemma one_open:
  "sync_run AliveDelta CommitAlive apply_alive alive_step (NewSessionTracker c, v)
     (snd (Open i u s (NewSessionTracker c)), v)"
  by (rule run_work, rule run_start, rule step_open)

theorem alive_view_follows_devices_witness:
  "\<exists>t. sync_run AliveDelta CommitAlive apply_alive alive_step (NewSessionTracker None, \<lambda>i u. []) (t, \<lambda>i u. [])
     \<and> apply_alive (AliveDelta t) (\<lambda>i u. []) ''vless'' ''7'' = [''192.0.2.7'']"
proof -
  let ?t = "snd (Open ''vless'' ''7'' ''192.0.2.7:1'' (NewSessionTracker None))"
  have "peers_of (DevicesSnapshot ?t) ''vless'' ''7'' = [''192.0.2.7'']" by code_simp
  with alive_view_follows_devices [OF one_open] one_open show ?thesis by metis
qed

text \<open>
  A delta that is accepted and committed while no session changes leaves nothing to report:
  the next delta is the empty map, which the synchroniser does not push.
\<close>

theorem alive_delta_settles:
  assumes "sync_run AliveDelta CommitAlive apply_alive alive_step (NewSessionTracker c, \<lambda>i u. []) (t, v)"
  shows "AliveDelta (CommitAlive (AliveDelta t) t) = []"
proof -
  have "(\<lambda>i u. []) = peers_of (lastAlive (NewSessionTracker c))"
    by (auto simp: fun_eq_iff NewSessionTracker_def peers_of_mget2)
  with al.run_agrees [OF assms alive_inv_New] have t: "alive_inv t" by simp
  let ?t = "CommitAlive (AliveDelta t) t"
  have t': "alive_inv ?t" and same: "peers_of (lastAlive ?t) = peers_of (DevicesSnapshot ?t)"
    using al.accepted_cycle [OF t rtranclp.rtrancl_refl] by auto
  have "alive_shape (AliveDelta ?t)" using t' by (simp add: alive_inv_def AliveDelta_shape)
  then show ?thesis by (rule alive_shape_Nil) (simp add: AliveDelta_changed [OF t'] same)
qed

theorem alive_delta_settles_witness:
  "AliveDelta (snd (Open ''vless'' ''7'' ''192.0.2.7:1'' (NewSessionTracker None))) \<noteq> []
   \<and> (let t = snd (Open ''vless'' ''7'' ''192.0.2.7:1'' (NewSessionTracker None))
      in AliveDelta (CommitAlive (AliveDelta t) t) = [])"
proof -
  have "AliveDelta (snd (Open ''vless'' ''7'' ''192.0.2.7:1'' (NewSessionTracker None))) \<noteq> []" by code_simp
  with alive_delta_settles [OF one_open] show ?thesis by (simp add: Let_def)
qed

end
