(* ===== verification/Syncer.thy ===== *)
theory Syncer
  imports Client Alive_Reporting
begin

text \<open>
  The synchroniser of \<open>panelapi/sync.go\<close>: \<open>Syncer\<close> with \<open>Run\<close>, \<open>syncOnce\<close>, \<open>flushAlive\<close>, \<open>flush\<close>,
  \<open>commitDelta\<close> and \<open>flatten\<close>. It runs in a goroutine of its own over the state \<open>'s\<close> of the process,
  which the connections change meanwhile, and the outside world \<open>'w\<close> with the panels.

  The callbacks are functions over \<open>'s\<close>, \<open>None\<close> when nil. A call of the panel takes time: \<open>meanwhile\<close>
  says what the other goroutines do to \<open>'s\<close> during each of the three calls of a round and while
  \<open>Run\<close> waits for the next event. A panic of the panel ends the process: \<open>Inl\<close>. Log lines are not
  modelled.
\<close>

section \<open>State\<close>

record ('s, 'w) syncer =
  sy_Panel :: "'w panel option"
  sy_Snapshot :: "('s \<Rightarrow> traffic) option"
  sy_Commit :: "(traffic \<Rightarrow> 's \<Rightarrow> 's) option"
  sy_Alive :: "('s \<Rightarrow> alive_map) option"
  sy_CommitAlive :: "(alive_map \<Rightarrow> 's \<Rightarrow> 's) option"
  sy_Users :: "(user list \<Rightarrow> 's \<Rightarrow> error option \<times> 's) option"
  sy_Every :: i64

record 's meanwhile =
  while_idle :: "'s \<Rightarrow> 's"
  while_fetching :: "'s \<Rightarrow> 's"
  while_pushing_alive :: "'s \<Rightarrow> 's"
  while_pushing :: "'s \<Rightarrow> 's"

section \<open>Flushing traffic\<close>

text \<open>The two nested loops over the delta that stop at the first numeric user.\<close>

definition has_traffic :: "traffic \<Rightarrow> bool" where
  "has_traffic delta \<longleftrightarrow> list_ex (\<lambda>(inbound, users). list_ex (\<lambda>(user, d). isNumericUser user) users) delta"

definition flatten :: "traffic \<Rightarrow> user_traffic" where
  "flatten d = fold (\<lambda>(inbound, users) out. fold flat_add users out) d []"

definition commitDelta :: "traffic \<Rightarrow> traffic" where
  "commitDelta d =
     fold (\<lambda>(inbound, users) out.
         fold (\<lambda>(user, v) out.
             if \<not> isNumericUser user then out
             else
               (let out = (if mget out inbound = None then mput inbound [] out else out)
                in mput inbound (mput user v (mget_or [] out inbound)) out))
           users out)
       d []"

definition flush :: "('s, 'w) syncer \<Rightarrow> ('s \<Rightarrow> 's) \<Rightarrow> 's \<times> 'w \<Rightarrow> string + 's \<times> 'w" where
  "flush sy work sw =
     (case (sy_Panel sy, sy_Snapshot sy, sy_Commit sy) of
        (Some p, Some snapshot, Some commit) \<Rightarrow>
          (case sw of (s, w) \<Rightarrow>
             let delta = snapshot s
             in if delta = [] then Inr (s, w)
                else if \<not> has_traffic delta then Inr (s, w)
                else
                  (case PushTraffic p delta w of
                     (Panicked m, w) \<Rightarrow> Inl m
                   | (Failed err, w) \<Rightarrow> Inr (work s, w)
                   | (NoError, w) \<Rightarrow> Inr (commit (commitDelta delta) (work s), w)))
      | _ \<Rightarrow> Inr sw)"

section \<open>Flushing devices\<close>

definition flushAlive :: "('s, 'w) syncer \<Rightarrow> ('s \<Rightarrow> 's) \<Rightarrow> 's \<times> 'w \<Rightarrow> string + 's \<times> 'w" where
  "flushAlive sy work sw =
     (case (sy_Panel sy, sy_Alive sy, sy_CommitAlive sy) of
        (Some p, Some alive_of, Some commit) \<Rightarrow>
          (case sw of (s, w) \<Rightarrow>
             let alive = alive_of s
             in if alive = [] then Inr (s, w)
                else
                  (case PushAlive p alive w of
                     (Panicked m, w) \<Rightarrow> Inl m
                   | (Failed err, w) \<Rightarrow> Inr (work s, w)
                   | (NoError, w) \<Rightarrow> Inr (commit alive (work s), w)))
      | _ \<Rightarrow> Inr sw)"

section \<open>Rounds\<close>

text \<open>A call that may panic, then the rest.\<close>

definition and_then :: "string + 'x \<Rightarrow> ('x \<Rightarrow> string + 'y) \<Rightarrow> string + 'y" where
  "and_then r f = (case r of Inl m \<Rightarrow> Inl m | Inr x \<Rightarrow> f x)"

definition fetch_and_apply :: "('s, 'w) syncer \<Rightarrow> 'w panel \<Rightarrow> ('s \<Rightarrow> 's) \<Rightarrow> 's \<times> 'w \<Rightarrow> 's \<times> 'w" where
  "fetch_and_apply sy p work sw =
     (case sw of (s, w) \<Rightarrow>
        (case FetchUsers p w of
           (Inl err, w) \<Rightarrow> (work s, w)
         | (Inr users, w) \<Rightarrow>
             (case sy_Users sy of
                None \<Rightarrow> (work s, w)
              | Some apply_users \<Rightarrow> (snd (apply_users users (work s)), w))))"

definition syncOnce :: "('s, 'w) syncer \<Rightarrow> 's meanwhile \<Rightarrow> 's \<times> 'w \<Rightarrow> string + 's \<times> 'w" where
  "syncOnce sy m sw =
     (case sy_Panel sy of
        None \<Rightarrow> Inr sw
      | Some p \<Rightarrow>
          and_then (flushAlive sy (while_pushing_alive m) (fetch_and_apply sy p (while_fetching m) sw))
            (flush sy (while_pushing m)))"

text \<open>
  What the \<open>select\<close> of \<open>Run\<close> receives: a tick, or the end of the context. The list of the events is
  the history of the process; \<open>Waiting\<close> is a \<open>Run\<close> that has used it up and blocks in the \<open>select\<close>.
\<close>

datatype 's event = Tick "'s meanwhile" | CtxDone "'s meanwhile"

datatype ('s, 'w) running = Waiting "'s \<times> 'w" | Returned "'s \<times> 'w" | Died string

definition idle :: "'s meanwhile \<Rightarrow> 's \<times> 'w \<Rightarrow> 's \<times> 'w" where
  "idle m sw = (while_idle m (fst sw), snd sw)"

fun Run_loop :: "('s, 'w) syncer \<Rightarrow> 's event list \<Rightarrow> 's \<times> 'w \<Rightarrow> ('s, 'w) running" where
  "Run_loop sy [] sw = Waiting sw"
| "Run_loop sy (CtxDone m # es) sw =
     (case flush sy (while_pushing m) (idle m sw) of Inl msg \<Rightarrow> Died msg | Inr sw \<Rightarrow> Returned sw)"
| "Run_loop sy (Tick m # es) sw =
     (case syncOnce sy m (idle m sw) of Inl msg \<Rightarrow> Died msg | Inr sw \<Rightarrow> Run_loop sy es sw)"

definition minute :: i64 where
  "minute = 60000000000"

definition Run :: "('s, 'w) syncer \<Rightarrow> 's meanwhile \<Rightarrow> 's event list \<Rightarrow> 's \<times> 'w \<Rightarrow> ('s, 'w) running" where
  "Run sy first es sw =
     (let sy = (if sint (sy_Every sy) \<le> 0 then sy\<lparr>sy_Every := minute\<rparr> else sy)
      in case syncOnce sy first sw of
           Inl msg \<Rightarrow> Died msg
         | Inr sw \<Rightarrow>
             if sint (sy_Every sy) \<le> 0 then Died ''non-positive interval for NewTicker''
             else Run_loop sy es sw)"

section \<open>What is committed\<close>

lemma mput_mput [simp]: "mput k v (mput k v' m) = mput k v m"
  by (induction m) auto

lemma commitDelta_eq:
  "commitDelta d = fold (\<lambda>(i, u, v) out. if isNumericUser u then mput2 i u v out else out) (triples d) []"
proof -
  have "(if \<not> isNumericUser u then out
        else (let out = (if mget out i = None then mput i [] out else out)
              in mput i (mput u v (mget_or [] out i)) out))
      = (if isNumericUser u then mput2 i u v out else out)" for i u and v :: pair64 and out
    by (auto simp: mput2_def Let_def mget_or_def mget_mput)
  then show ?thesis unfolding commitDelta_def by (simp only: fold_triples)
qed

lemma mget2_commitDelta:
  assumes "wf_map2 d"
  shows "mget2 (commitDelta d) i u = (if isNumericUser u then mget2 d i u else None)"
  using mget2_fold_mput2 [OF assms, of "\<lambda>i u v. isNumericUser u" "\<lambda>v. v" "[]" i u]
  by (auto simp: commitDelta_eq split: option.split)

lemma wf_map2_mput2: "wf_map2 m \<Longrightarrow> wf_map2 (mput2 i u v m)"
  by (simp add: mput2_def wf_map2_mput wf_mput wf_map_mget_or)

lemma wf_commitDelta: "wf_map2 (commitDelta d)"
  unfolding commitDelta_eq
  by (rule fold_invariant [where P = wf_map2]) (auto simp: wf_map2_mput2)

lemma has_traffic_iff:
  assumes "wf_map2 d"
  shows "has_traffic d \<longleftrightarrow> (\<exists>i u. isNumericUser u \<and> mget2 d i u \<noteq> None)"
proof -
  have "has_traffic d \<longleftrightarrow> (\<exists>i u v. isNumericUser u \<and> (i, u, v) \<in> set (triples d))"
    by (force simp: has_traffic_def list_ex_iff triples_def)
  then show ?thesis unfolding triples_mget2 [OF assms] by blast
qed

lemma commitDelta_nothing:
  assumes "wf_map2 d" and "\<not> has_traffic d"
  shows "mget2 (commitDelta d) i u = None"
  using has_traffic_iff [OF assms(1)] assms(2) by (cases "mget2 d i u") (auto simp: mget2_commitDelta [OF assms(1)])

section \<open>Rounds\<close>

lemma flush_wired:
  assumes "sy_Panel sy = Some p" and "sy_Snapshot sy = Some snap" and "sy_Commit sy = Some cm"
  shows "flush sy work (s, w) =
    (if \<not> has_traffic (snap s) then Inr (s, w)
     else
       (case PushTraffic p (snap s) w of
          (Panicked m, w) \<Rightarrow> Inl m
        | (Failed err, w) \<Rightarrow> Inr (work s, w)
        | (NoError, w) \<Rightarrow> Inr (cm (commitDelta (snap s)) (work s), w)))"
proof -
  have "\<not> has_traffic []" by (simp add: has_traffic_def)
  then show ?thesis using assms by (auto simp: flush_def Let_def)
qed

lemma flush_every [simp]: "flush (sy\<lparr>sy_Every := n\<rparr>) = flush sy"
  by (simp add: flush_def fun_eq_iff)

lemma syncOnce_every [simp]: "syncOnce (sy\<lparr>sy_Every := n\<rparr>) = syncOnce sy"
proof -
  have "flushAlive (sy\<lparr>sy_Every := n\<rparr>) = flushAlive sy" "fetch_and_apply (sy\<lparr>sy_Every := n\<rparr>) = fetch_and_apply sy"
    by (auto simp: flushAlive_def fetch_and_apply_def fun_eq_iff split: sum.split prod.split)
  then show ?thesis by (intro ext) (simp add: syncOnce_def split: option.split)
qed

lemma Run_loop_every [simp]: "Run_loop (sy\<lparr>sy_Every := n\<rparr>) es sw = Run_loop sy es sw"
  by (induction sy es sw rule: Run_loop.induct) (auto split: sum.split)

text \<open>The default interval keeps the ticker from panicking.\<close>

lemma Run_eq:
  "Run sy first es sw = (case syncOnce sy first sw of Inl msg \<Rightarrow> Died msg | Inr sw \<Rightarrow> Run_loop sy es sw)"
  by (auto simp: Run_def Let_def minute_def split: sum.split)

lemma Run_loop_append:
  "Run_loop sy (es @ es') sw
   = (case Run_loop sy es sw of Waiting sw \<Rightarrow> Run_loop sy es' sw | r \<Rightarrow> r)"
  by (induction sy es sw rule: Run_loop.induct) (auto split: sum.split)

text \<open>A panel that does not panic lets every round finish.\<close>

definition calm :: "'w panel \<Rightarrow> bool" where
  "calm p \<longleftrightarrow> (\<forall>d w m. fst (PushTraffic p d w) \<noteq> Panicked m) \<and> (\<forall>a w m. fst (PushAlive p a w) \<noteq> Panicked m)"

lemma calm_flush:
  assumes "sy_Panel sy = Some p" and "calm p"
  shows "\<exists>sw'. flush sy work sw = Inr sw'"
proof (cases sw)
  case (Pair s w)
  show ?thesis
  proof (cases "sy_Snapshot sy = None \<or> sy_Commit sy = None")
    case True
    then show ?thesis using Pair by (auto simp: flush_def split: option.splits)
  next
    case False
    then obtain snap cm where "sy_Snapshot sy = Some snap" "sy_Commit sy = Some cm" by auto
    from flush_wired [OF assms(1) this, of work s w] show ?thesis
      using Pair assms(2) by (auto simp: calm_def split: prod.splits outcome.splits) (metis fst_conv)
  qed
qed

lemma calm_flushAlive:
  assumes "sy_Panel sy = Some p" and "calm p"
  shows "\<exists>sw'. flushAlive sy work sw = Inr sw'"
  using assms
  by (auto simp: flushAlive_def calm_def Let_def split: prod.splits outcome.splits option.splits) (metis fst_conv)

lemma calm_syncOnce:
  assumes "sy_Panel sy = Some p" and "calm p"
  shows "\<exists>sw'. syncOnce sy m sw = Inr sw'"
proof -
  let ?sw = "fetch_and_apply sy p (while_fetching m) sw"
  obtain sw1 where "flushAlive sy (while_pushing_alive m) ?sw = Inr sw1" using calm_flushAlive [OF assms] by blast
  moreover obtain sw2 where "flush sy (while_pushing m) sw1 = Inr sw2" using calm_flush [OF assms] by blast
  ultimately show ?thesis using assms(1) by (simp add: syncOnce_def and_then_def)
qed

lemma calm_ticks:
  assumes "sy_Panel sy = Some p" and "calm p"
  shows "\<exists>sw'. Run_loop sy (map Tick ms) sw = Waiting sw'"
proof (induction ms arbitrary: sw)
  case (Cons m ms)
  obtain sw1 where "syncOnce sy m (idle m sw) = Inr sw1" using calm_syncOnce [OF assms] by blast
  with Cons.IH show ?case by simp
qed simp

section \<open>A component and its books\<close>

text \<open>
  What the goroutines do between the actions of the synchroniser is a run of \<open>env\<close>.
\<close>

definition works :: "('s \<Rightarrow> 's \<Rightarrow> bool) \<Rightarrow> 's meanwhile \<Rightarrow> bool" where
  "works env m \<longleftrightarrow>
     (\<forall>f \<in> {while_idle m, while_fetching m, while_pushing_alive m, while_pushing m}. \<forall>s. env\<^sup>*\<^sup>* s (f s))"

fun event_works :: "('s \<Rightarrow> 's \<Rightarrow> bool) \<Rightarrow> 's event \<Rightarrow> bool" where
  "event_works env (Tick m) = works env m"
| "event_works env (CtxDone m) = works env m"

text \<open>What the other goroutines and the three calls of a round keep holds at the end of a run.\<close>

definition kept_by :: "('s \<Rightarrow> 's \<Rightarrow> bool) \<Rightarrow> ('s, 'w) syncer \<Rightarrow> 'w panel \<Rightarrow> ('s \<times> 'w \<Rightarrow> bool) \<Rightarrow> bool" where
  "kept_by env sy p Q \<longleftrightarrow>
     sy_Panel sy = Some p
     \<and> (\<forall>s s' w. env\<^sup>*\<^sup>* s s' \<longrightarrow> Q (s, w) \<longrightarrow> Q (s', w))
     \<and> (\<forall>work sw. (\<forall>s. env\<^sup>*\<^sup>* s (work s)) \<longrightarrow> Q sw \<longrightarrow>
          Q (fetch_and_apply sy p work sw)
          \<and> (\<forall>sw'. flushAlive sy work sw = Inr sw' \<or> flush sy work sw = Inr sw' \<longrightarrow> Q sw'))"

lemma kept_byI:
  assumes "sy_Panel sy = Some p" and "\<And>s s' w. Q (s, w) \<Longrightarrow> env\<^sup>*\<^sup>* s s' \<Longrightarrow> Q (s', w)"
    and "\<And>work s w. (\<And>s. env\<^sup>*\<^sup>* s (work s)) \<Longrightarrow> Q (s, w) \<Longrightarrow> Q (fetch_and_apply sy p work (s, w))"
    and "\<And>work s w sw'. (\<And>s. env\<^sup>*\<^sup>* s (work s)) \<Longrightarrow> Q (s, w) \<Longrightarrow> flushAlive sy work (s, w) = Inr sw' \<Longrightarrow> Q sw'"
    and "\<And>work s w sw'. (\<And>s. env\<^sup>*\<^sup>* s (work s)) \<Longrightarrow> Q (s, w) \<Longrightarrow> flush sy work (s, w) = Inr sw' \<Longrightarrow> Q sw'"
  shows "kept_by env sy p Q"
  unfolding kept_by_def
proof (intro conjI allI impI)
  fix work sw sw' assume "\<forall>s. env\<^sup>*\<^sup>* s (work s)" and sw: "Q sw"
  then have work: "\<And>s. env\<^sup>*\<^sup>* s (work s)" by blast
  show "Q (fetch_and_apply sy p work sw)" using assms(3) [OF work] sw by (cases sw) simp
  show "Q sw'" if "flushAlive sy work sw = Inr sw' \<or> flush sy work sw = Inr sw'"
    using that assms(4,5) [OF work, of "fst sw" "snd sw" sw'] sw by simp blast
qed (use assms(1,2) in blast)+

lemma kept_byD:
  assumes "kept_by env sy p Q"
  shows "sy_Panel sy = Some p" and "env\<^sup>*\<^sup>* s s' \<Longrightarrow> Q (s, w) \<Longrightarrow> Q (s', w)"
    and "(\<And>s. env\<^sup>*\<^sup>* s (work s)) \<Longrightarrow> Q sw \<Longrightarrow> Q (fetch_and_apply sy p work sw)"
    and "(\<And>s. env\<^sup>*\<^sup>* s (work s)) \<Longrightarrow> Q sw \<Longrightarrow> flushAlive sy work sw = Inr sw' \<Longrightarrow> Q sw'"
    and "(\<And>s. env\<^sup>*\<^sup>* s (work s)) \<Longrightarrow> Q sw \<Longrightarrow> flush sy work sw = Inr sw' \<Longrightarrow> Q sw'"
  using assms unfolding kept_by_def by blast+

lemma syncOnce_keeps:
  assumes "kept_by env sy p Q" and "works env m" and "Q sw" and "syncOnce sy m sw = Inr sw'"
  shows "Q sw'"
proof -
  note keep = kept_byD [OF assms(1)]
  have env: "\<And>s. env\<^sup>*\<^sup>* s (while_fetching m s)" "\<And>s. env\<^sup>*\<^sup>* s (while_pushing_alive m s)"
    "\<And>s. env\<^sup>*\<^sup>* s (while_pushing m s)"
    using assms(2) by (auto simp: works_def)
  obtain sw1 where sw1: "flushAlive sy (while_pushing_alive m) (fetch_and_apply sy p (while_fetching m) sw) = Inr sw1"
    and flush: "flush sy (while_pushing m) sw1 = Inr sw'"
    using assms(4) keep(1) by (auto simp: syncOnce_def and_then_def split: sum.splits)
  have "Q sw1" using keep(4) [OF env(2) keep(3) [OF env(1) assms(3)] sw1] .
  with flush show ?thesis using keep(5) [OF env(3)] by blast
qed

lemma Run_loop_keeps:
  assumes "kept_by env sy p Q" and "\<forall>e \<in> set es. event_works env e" and "Q sw"
    and "Run_loop sy es sw = Waiting sw' \<or> Run_loop sy es sw = Returned sw'"
  shows "Q sw'"
  using assms(2-)
proof (induction es arbitrary: sw)
  case Nil
  then show ?case by simp
next
  case (Cons e es)
  have idle: "Q (idle m sw)" if "works env m" for m
    using that Cons.prems(2) kept_byD(2) [OF assms(1), of "fst sw" "while_idle m (fst sw)" "snd sw"]
    by (simp add: idle_def works_def)
  show ?case
  proof (cases e)
    case (Tick m)
    with Cons.prems obtain sw1 where sw1: "syncOnce sy m (idle m sw) = Inr sw1"
      and "Run_loop sy es sw1 = Waiting sw' \<or> Run_loop sy es sw1 = Returned sw'"
      by (auto split: sum.splits)
    with Tick Cons idle [of m] syncOnce_keeps [OF assms(1) _ _ sw1] show ?thesis by simp
  next
    case (CtxDone m)
    with Cons.prems have m: "works env m" and flush: "flush sy (while_pushing m) (idle m sw) = Inr sw'"
      by (auto split: sum.splits)
    from m have "\<And>s. env\<^sup>*\<^sup>* s (while_pushing m s)" by (simp add: works_def)
    from kept_byD(5) [OF assms(1) this idle [OF m] flush] show ?thesis .
  qed
qed

lemma Run_keeps:
  assumes "kept_by env sy p Q" and "works env first" and "\<forall>e \<in> set es. event_works env e" and "Q sw"
    and "Run sy first es sw = Waiting sw' \<or> Run sy first es sw = Returned sw'"
  shows "Q sw'"
proof -
  from assms(5) obtain sw1 where sw1: "syncOnce sy first sw = Inr sw1"
    and run: "Run_loop sy es sw1 = Waiting sw' \<or> Run_loop sy es sw1 = Returned sw'"
    by (auto simp: Run_eq split: sum.splits)
  show ?thesis
    by (rule Run_loop_keeps [OF assms(1,3) syncOnce_keeps [OF assms(1,2,4) sw1] run])
qed

text \<open>
  A panel that keeps books: \<open>view\<close> reads them off the world. An accepted push of a \<open>good\<close> delta adds the
  amounts of the numeric users, nothing else changes the books, and every list of users it hands
  out is \<open>listed\<close>.
\<close>

definition keeps_books ::
  "(traffic \<Rightarrow> bool) \<Rightarrow> ('w \<Rightarrow> 'v) \<Rightarrow> (traffic \<Rightarrow> 'v \<Rightarrow> 'v) \<Rightarrow> (user list \<Rightarrow> bool) \<Rightarrow> 'w panel \<Rightarrow> bool" where
  "keeps_books good view apply_delta listed p \<longleftrightarrow>
     (\<forall>d w r w'. good d \<longrightarrow> PushTraffic p d w = (r, w') \<longrightarrow>
        view w' = (if r = NoError then apply_delta (commitDelta d) (view w) else view w))
     \<and> (\<forall>a w. view (snd (PushAlive p a w)) = view w)
     \<and> (\<forall>w r w'. FetchUsers p w = (r, w') \<longrightarrow> view w' = view w \<and> (\<forall>us. r = Inr us \<longrightarrow> listed us))"

text \<open>A synchroniser wired to the callbacks of a source, as \<open>main\<close> wires it.\<close>

definition wired_to ::
  "('s \<Rightarrow> traffic) \<Rightarrow> (traffic \<Rightarrow> 's \<Rightarrow> 's) \<Rightarrow> ('s \<Rightarrow> alive_map) \<Rightarrow> (alive_map \<Rightarrow> 's \<Rightarrow> 's)
   \<Rightarrow> (user list \<Rightarrow> 's \<Rightarrow> error option \<times> 's) \<Rightarrow> ('s, 'w) syncer \<Rightarrow> 'w panel \<Rightarrow> bool" where
  "wired_to snap commit alive_of commit_alive apply_users sy p \<longleftrightarrow>
     sy_Panel sy = Some p \<and> sy_Snapshot sy = Some snap \<and> sy_Commit sy = Some commit
     \<and> sy_Alive sy = Some alive_of \<and> sy_CommitAlive sy = Some commit_alive \<and> sy_Users sy = Some apply_users"

text \<open>The books agree with what the source has recorded as reported.\<close>

definition books_agree :: "('s \<Rightarrow> bool) \<Rightarrow> ('s \<Rightarrow> 'v) \<Rightarrow> ('w \<Rightarrow> 'v) \<Rightarrow> 's \<times> 'w \<Rightarrow> bool" where
  "books_agree ok reported view sw \<longleftrightarrow> ok (fst sw) \<and> view (snd sw) = reported (fst sw)"

text \<open>
  A traffic source is a \<open>delta_source\<close> whose snapshots are good, with the other callbacks the
  synchroniser runs on it: they keep what has been reported.
\<close>

locale traffic_source =
  delta_source inv "\<lambda>s. commitDelta (snap s)" commit current reported apply_delta covers env
  for inv :: "'s \<Rightarrow> bool" and snap :: "'s \<Rightarrow> traffic" and commit :: "traffic \<Rightarrow> 's \<Rightarrow> 's"
    and current :: "'s \<Rightarrow> 'v" and reported :: "'s \<Rightarrow> 'v" and apply_delta :: "traffic \<Rightarrow> 'v \<Rightarrow> 'v"
    and covers :: "traffic \<Rightarrow> 's \<Rightarrow> bool" and env :: "'s \<Rightarrow> 's \<Rightarrow> bool" +
  fixes good :: "traffic \<Rightarrow> bool"
    and listed :: "user list \<Rightarrow> bool"
    and apply_users :: "user list \<Rightarrow> 's \<Rightarrow> error option \<times> 's"
    and alive_of :: "'s \<Rightarrow> alive_map"
    and commit_alive :: "alive_map \<Rightarrow> 's \<Rightarrow> 's"
  assumes snap_good: "inv s \<Longrightarrow> good (snap s)"
    and users_keep: "inv s \<Longrightarrow> listed us \<Longrightarrow>
      inv (snd (apply_users us s)) \<and> reported (snd (apply_users us s)) = reported s"
    and alive_keep: "inv s \<Longrightarrow> inv (commit_alive a s) \<and> reported (commit_alive a s) = reported s"
begin

abbreviation wired :: "('s, 'w) syncer \<Rightarrow> 'w panel \<Rightarrow> bool" where
  "wired \<equiv> wired_to snap commit alive_of commit_alive apply_users"

abbreviation agrees :: "('w \<Rightarrow> 'v) \<Rightarrow> 's \<times> 'w \<Rightarrow> bool" where
  "agrees \<equiv> books_agree inv reported"

lemmas wired_def = wired_to_def and agrees_def = books_agree_def

lemma agrees_work: "agrees view (s, w) \<Longrightarrow> env\<^sup>*\<^sup>* s s' \<Longrightarrow> agrees view (s', w)"
  by (auto simp: agrees_def dest: envs_keep)

lemma flush_agrees:
  assumes "wired sy p" and "keeps_books good view apply_delta listed p" and "\<And>s. env\<^sup>*\<^sup>* s (work s)"
    and "agrees view (s, w)" and "flush sy work (s, w) = Inr sw'"
  shows "agrees view sw'"
proof -
  obtain r w1 where push: "PushTraffic p (snap s) w = (r, w1)" by fastforce
  have s: "inv s" "view w = reported s" and work: "env\<^sup>*\<^sup>* s (work s)"
    using assms(3,4) by (auto simp: agrees_def)
  from assms(2) push snap_good [OF s(1)]
  have books: "view w1 = (if r = NoError then apply_delta (commitDelta (snap s)) (view w) else view w)"
    unfolding keeps_books_def by blast
  have "flush sy work (s, w) = (if \<not> has_traffic (snap s) then Inr (s, w)
      else case r of Panicked m \<Rightarrow> Inl m | Failed err \<Rightarrow> Inr (work s, w1)
        | NoError \<Rightarrow> Inr (commit (commitDelta (snap s)) (work s), w1))"
    using assms(1) push by (subst flush_wired) (auto simp: wired_def split: outcome.split)
  with assms(4,5) books s agrees_work [OF assms(4) work] accepted_cycle [OF s(1) work] snapshot_complete [OF s(1)]
  show ?thesis by (cases r) (auto simp: agrees_def split: if_splits)
qed

lemma flushAlive_agrees:
  assumes "wired sy p" and "keeps_books good view apply_delta listed p" and "\<And>s. env\<^sup>*\<^sup>* s (work s)"
    and "agrees view (s, w)" and "flushAlive sy work (s, w) = Inr sw'"
  shows "agrees view sw'"
proof -
  obtain r w1 where push: "PushAlive p (alive_of s) w = (r, w1)" by fastforce
  with assms(2) have "view w1 = view w" unfolding keeps_books_def by (metis snd_conv)
  moreover have "agrees view (work s, w)" using agrees_work [OF assms(4)] assms(3) by blast
  ultimately show ?thesis
    using assms(1,4,5) push alive_keep
    by (auto simp: flushAlive_def wired_def Let_def agrees_def split: outcome.splits if_splits)
qed

lemma fetch_agrees:
  assumes "wired sy p" and "keeps_books good view apply_delta listed p" and "\<And>s. env\<^sup>*\<^sup>* s (work s)"
    and "agrees view (s, w)"
  shows "agrees view (fetch_and_apply sy p work (s, w))"
proof -
  obtain r w1 where fetch: "FetchUsers p w = (r, w1)" by fastforce
  with assms(2) have "view w1 = view w" "\<forall>us. r = Inr us \<longrightarrow> listed us" unfolding keeps_books_def by blast+
  moreover have "agrees view (work s, w)" using agrees_work [OF assms(4)] assms(3) by blast
  ultimately show ?thesis
    using assms(1) fetch users_keep by (cases r) (auto simp: fetch_and_apply_def wired_def agrees_def)
qed

lemma Run_agrees:
  assumes "wired sy p" and "keeps_books good view apply_delta listed p"
    and "works env first" and "\<forall>e \<in> set es. event_works env e"
    and "agrees view sw" and "Run sy first es sw = Waiting sw' \<or> Run sy first es sw = Returned sw'"
  shows "agrees view sw'"
proof -
  have "sy_Panel sy = Some p" using assms(1) by (simp add: wired_def)
  then have "kept_by env sy p (agrees view)"
    by (rule kept_byI [OF _ agrees_work fetch_agrees [OF assms(1,2)] flushAlive_agrees [OF assms(1,2)]
        flush_agrees [OF assms(1,2)]])
  from Run_keeps [OF this assms(3-6)] show ?thesis .
qed

end

section \<open>Properties\<close>

text \<open>
  C29: \<open>flush\<close> commits exactly what the panel accepted: nothing is pushed unless some numeric user has
  traffic; when the push returns nil the committed delta holds the pushed amount of every numeric
  user and of nobody else; when it returns an error nothing is committed.
\<close>

theorem flush_commits_what_was_accepted:
  assumes "sy_Panel sy = Some p" and "sy_Snapshot sy = Some snap" and "sy_Commit sy = Some cm"
    and "wf_map2 (snap s)" and "flush sy work (s, w) = Inr (s', w')"
  shows "if \<exists>i u. isNumericUser u \<and> mget2 (snap s) i u \<noteq> None
    then \<exists>r. PushTraffic p (snap s) w = (r, w')
      \<and> (r = NoError \<longrightarrow> (\<exists>d. s' = cm d (work s) \<and>
           (\<forall>i u. mget2 d i u = (if isNumericUser u then mget2 (snap s) i u else None))))
      \<and> (r \<noteq> NoError \<longrightarrow> s' = work s)
    else s' = s \<and> w' = w"
proof -
  obtain r w1 where push: "PushTraffic p (snap s) w = (r, w1)" by fastforce
  have "flush sy work (s, w) = (if \<not> has_traffic (snap s) then Inr (s, w)
      else case r of Panicked m \<Rightarrow> Inl m | Failed err \<Rightarrow> Inr (work s, w1)
        | NoError \<Rightarrow> Inr (cm (commitDelta (snap s)) (work s), w1))"
    using push by (simp add: flush_wired [OF assms(1-3)] split: outcome.split)
  then show ?thesis
    using assms(5) push mget2_commitDelta [OF assms(4)] unfolding has_traffic_iff [OF assms(4), symmetric]
    by (cases r) auto
qed

text \<open>A panel that adds up the amounts it is sent, until it fails.\<close>

definition ledger_push :: "bool \<Rightarrow> traffic \<Rightarrow> (string \<Rightarrow> string \<Rightarrow> pair64) \<Rightarrow> outcome \<times> (string \<Rightarrow> string \<Rightarrow> pair64)" where
  "ledger_push up d w =
     (if up then (NoError, \<lambda>i u. add2 (w i u) (mget_or zero2 (mget_or [] d i) u)) else (Failed (Extern ''down''), w))"

definition ledger_panel :: "bool \<Rightarrow> user list \<Rightarrow> (string \<Rightarrow> string \<Rightarrow> pair64) panel" where
  "ledger_panel up us =
     \<lparr>identity = Pointer 0, FetchUsers = (\<lambda>w. (Inr us, w)), PushTraffic = ledger_push up,
      PushAlive = (\<lambda>a w. (NoError, w))\<rparr>"

definition one_delta :: traffic where
  "one_delta = [(''vless-in'', [(''7'', (10, 20)), (''guest'', (1, 1))])]"

text \<open>A source with one delta, which a commit clears.\<close>

definition ledger_syncer :: "'w panel \<Rightarrow> (traffic, 'w) syncer" where
  "ledger_syncer p =
     \<lparr>sy_Panel = Some p, sy_Snapshot = Some (\<lambda>s. s), sy_Commit = Some (\<lambda>d s. []), sy_Alive = None,
      sy_CommitAlive = None, sy_Users = None, sy_Every = 0\<rparr>"

definition resting :: "'s meanwhile" where
  "resting = \<lparr>while_idle = id, while_fetching = id, while_pushing_alive = id, while_pushing = id\<rparr>"

lemma one_delta_numeric: "has_traffic one_delta" "isNumericUser ''7''" "mget2 one_delta ''vless-in'' ''7'' = Some (10, 20)"
  "wf_map2 one_delta"
  by code_simp+

lemma ledger_flush:
  "flush (ledger_syncer (ledger_panel up us)) id (one_delta, w)
   = Inr (if up then [] else one_delta, snd (ledger_push up one_delta w))"
  using one_delta_numeric
  by (subst flush_wired [where snap = "\<lambda>s. s" and cm = "\<lambda>d s. []" and p = "ledger_panel up us"])
    (simp_all add: ledger_syncer_def ledger_panel_def ledger_push_def)

theorem flush_commits_what_was_accepted_witness:
  "flush (ledger_syncer (ledger_panel False [])) id (one_delta, \<lambda>i u. zero2) = Inr (one_delta, \<lambda>i u. zero2)
   \<and> (\<exists>r. PushTraffic (ledger_panel False []) one_delta (\<lambda>i u. zero2) = (r, \<lambda>i u. zero2) \<and> r \<noteq> NoError)"
proof -
  have f: "flush (ledger_syncer (ledger_panel False [])) id (one_delta, \<lambda>i u. zero2) = Inr (one_delta, \<lambda>i u. zero2)"
    by (simp add: ledger_flush ledger_push_def)
  have "\<exists>i u. isNumericUser u \<and> mget2 one_delta i u \<noteq> None" using one_delta_numeric by blast
  with flush_commits_what_was_accepted [of "ledger_syncer (ledger_panel False [])" "ledger_panel False []" "\<lambda>s. s"
      "\<lambda>d s. []" one_delta id "\<lambda>i u. zero2" one_delta "\<lambda>i u. zero2"] f one_delta_numeric(4)
  have "\<exists>r. PushTraffic (ledger_panel False []) one_delta (\<lambda>i u. zero2) = (r, \<lambda>i u. zero2)"
    by (auto simp: ledger_syncer_def)
  with f show ?thesis by (auto simp: ledger_panel_def ledger_push_def)
qed

text \<open>
  C30: \<open>Run\<close> ends: with a panel that does not panic it survives any number of ticks, whatever its
  pushes return, and after the end of the context it makes one more flush and returns.
\<close>

theorem Run_ends_with_a_flush:
  assumes "sy_Panel sy = Some p" and "calm p"
  shows "\<exists>sw1 sw2. Run sy first (map Tick ms) sw = Waiting sw1
    \<and> flush sy (while_pushing m) (idle m sw1) = Inr sw2
    \<and> Run sy first (map Tick ms @ CtxDone m # es) sw = Returned sw2"
proof -
  obtain sw0 where sw0: "syncOnce sy first sw = Inr sw0" using calm_syncOnce [OF assms] by blast
  obtain sw1 where sw1: "Run_loop sy (map Tick ms) sw0 = Waiting sw1" using calm_ticks [OF assms] by blast
  obtain sw2 where "flush sy (while_pushing m) (idle m sw1) = Inr sw2" using calm_flush [OF assms] by blast
  with sw0 sw1 show ?thesis by (simp add: Run_eq Run_loop_append)
qed

lemma calm_ledger: "calm (ledger_panel up us)"
  by (simp add: calm_def ledger_panel_def ledger_push_def)

theorem Run_ends_with_a_flush_witness:
  "\<exists>sw. Run (ledger_syncer (ledger_panel True [])) resting [Tick resting, CtxDone resting] (one_delta, \<lambda>i u. zero2)
     = Returned sw"
proof -
  have "sy_Panel (ledger_syncer (ledger_panel True [])) = Some (ledger_panel True [])"
    by (simp add: ledger_syncer_def)
  from Run_ends_with_a_flush [OF this calm_ledger, where ms = "[resting]" and es = "[]"]
  show ?thesis by (simp only: list.map append_Cons append_Nil) blast
qed

text \<open>
  C31: A \<open>MultiPanel\<close> that fails half way bills twice: when the second panel refuses a push the
  first one has accepted, nothing is committed, so the next round sends the first panel the same
  traffic again; after it the first panel has billed twice what is committed once.
\<close>

theorem partial_failure_bills_twice:
  assumes "sy_Panel sy = Some (MultiPanel [Some p, Some q])" and "sy_Snapshot sy = Some snap"
    and "sy_Commit sy = Some cm" and "snap s = d" and "snap (work s) = d" and "has_traffic d"
    and books: "\<And>w w'. PushTraffic p d w = (NoError, w') \<Longrightarrow> view w' = add2 (view w) x"
    and other: "\<And>w r w'. PushTraffic q d w = (r, w') \<Longrightarrow> view w' = view w"
    and "PushTraffic p d w = (NoError, w1)" and "PushTraffic q d w1 = (Failed e, w2)"
    and "PushTraffic p d w2 = (NoError, w3)" and "PushTraffic q d w3 = (NoError, w4)"
  shows "flush sy work (s, w) = Inr (work s, w2)
    \<and> flush sy work' (work s, w2) = Inr (cm (commitDelta d) (work' (work s)), w4)
    \<and> view w4 = add2 (view w) (add2 x x)"
proof -
  have "PushTraffic (MultiPanel [Some p, Some q]) d w = (Failed (Wrap ''push traffic to panel'' e), w2)"
    "PushTraffic (MultiPanel [Some p, Some q]) d w2 = (NoError, w4)"
    using assms by (simp_all add: MultiPanel_def)
  moreover have "view w4 = add2 (view w) (add2 x x)"
    using books assms(9,11) other assms(10,12) by (metis add2_assoc)
  ultimately show ?thesis
    using assms(4,5,6) by (simp add: flush_wired [OF assms(1-3)])
qed

text \<open>Two ledgers and the number of pushes the second panel still refuses.\<close>

definition first_ledger :: "((string \<Rightarrow> string \<Rightarrow> pair64) \<times> nat) panel" where
  "first_ledger =
     \<lparr>identity = Pointer 1, FetchUsers = (\<lambda>w. (Inr [], w)),
      PushTraffic = (\<lambda>d w. (NoError, (snd (ledger_push True d (fst w)), snd w))), PushAlive = (\<lambda>a w. (NoError, w))\<rparr>"

definition flaky_panel :: "((string \<Rightarrow> string \<Rightarrow> pair64) \<times> nat) panel" where
  "flaky_panel =
     \<lparr>identity = Pointer 2, FetchUsers = (\<lambda>w. (Inr [], w)),
      PushTraffic = (\<lambda>d w. if 0 < snd w then (Failed (Extern ''timeout''), (fst w, snd w - 1)) else (NoError, w)),
      PushAlive = (\<lambda>a w. (NoError, w))\<rparr>"

theorem partial_failure_bills_twice_witness:
  "\<exists>w2 w4. flush (ledger_syncer (MultiPanel [Some first_ledger, Some flaky_panel])) id (one_delta, (\<lambda>i u. zero2, 1))
       = Inr (one_delta, w2)
     \<and> flush (ledger_syncer (MultiPanel [Some first_ledger, Some flaky_panel])) id (one_delta, w2) = Inr ([], w4)
     \<and> fst w4 ''vless-in'' ''7'' = (20, 40)"
proof -
  let ?one = "\<lambda>i u. mget_or zero2 (mget_or [] one_delta i) u"
  let ?two = "\<lambda>i u. add2 (?one i u) (?one i u)"
  let ?sy = "ledger_syncer (MultiPanel [Some first_ledger, Some flaky_panel])"
  have wired: "sy_Panel ?sy = Some (MultiPanel [Some first_ledger, Some flaky_panel])"
    "sy_Snapshot ?sy = Some (\<lambda>s. s)" "sy_Commit ?sy = Some (\<lambda>d s. [])"
    by (simp_all add: ledger_syncer_def)
  have amount: "?one ''vless-in'' ''7'' = (10, 20)" by (simp add: one_delta_def mget_or_def)
  have pushes: "PushTraffic first_ledger one_delta (\<lambda>i u. zero2, 1) = (NoError, (?one, 1))"
    "PushTraffic flaky_panel one_delta (?one, 1) = (Failed (Extern ''timeout''), (?one, 0))"
    "PushTraffic first_ledger one_delta (?one, 0) = (NoError, (?two, 0))"
    "PushTraffic flaky_panel one_delta (?two, 0) = (NoError, (?two, 0))"
    by (simp_all add: first_ledger_def flaky_panel_def ledger_push_def)
  have books: "PushTraffic first_ledger one_delta w = (NoError, w') \<Longrightarrow>
      fst w' ''vless-in'' ''7'' = add2 (fst w ''vless-in'' ''7'') (10, 20)" for w w'
    using amount by (auto simp: first_ledger_def ledger_push_def)
  have other: "PushTraffic flaky_panel one_delta w = (r, w') \<Longrightarrow> fst w' ''vless-in'' ''7'' = fst w ''vless-in'' ''7''" for w r w'
    by (auto simp: flaky_panel_def split: if_splits)
  note twice = partial_failure_bills_twice [where view = "\<lambda>w. fst w ''vless-in'' ''7''" and x = "(10, 20)"
      and s = one_delta and d = one_delta and work = id and work' = id,
      OF wired refl _ one_delta_numeric(1) books other pushes]
  show ?thesis
    using twice amount by (intro exI [of _ "(?one, 0)"] exI [of _ "(?two, 0)"]) (simp add: add2_def)
qed

end
