(* ===== verification/Traffic_Accounting.thy ===== *)
theory Traffic_Accounting
  imports Traffic_Counter Delta_Sync
begin

text \<open>
  The accounting contract of \<open>counter/counter.go\<close>: what \<open>SnapshotDelta\<close> and \<open>CommitSnapshot\<close>
  together promise while connections keep counting. \<open>traffic_step\<close> is one step of a connection:
  \<open>GetCounter\<close>, or a positive amount added through a pointer it holds (to a storage in the map
  or to one that was removed from it). Amounts not yet reported stay below \<open>2^63\<close> bytes.
\<close>

section \<open>Steps of connections\<close>

type_synonym counters = "traffic_counter \<times> store"

inductive traffic_step :: "counters \<Rightarrow> counters \<Rightarrow> bool" where
  step_get: "GetCounter user tc st = (a, tc', st') \<Longrightarrow> traffic_step (tc, st) (tc', st')"
| step_up: "a < fresh st \<Longrightarrow> 0 <s n \<Longrightarrow> sint (fst (pending (cell st a))) + sint n < 2 ^ 63 \<Longrightarrow>
     traffic_step (tc, st) (tc, add_up n a st)"
| step_down: "a < fresh st \<Longrightarrow> 0 <s n \<Longrightarrow> sint (snd (pending (cell st a))) + sint n < 2 ^ 63 \<Longrightarrow>
     traffic_step (tc, st) (tc, add_down n a st)"

inductive_cases traffic_stepE: "traffic_step s s'"

section \<open>Views per user\<close>

definition used_of :: "counters \<Rightarrow> string \<Rightarrow> pair64" where
  "used_of s u = (case mget (fst s) u of None \<Rightarrow> zero2 | Some a \<Rightarrow> used (cell (snd s) a))"

definition committed_of :: "counters \<Rightarrow> string \<Rightarrow> pair64" where
  "committed_of s u = (case mget (fst s) u of None \<Rightarrow> zero2 | Some a \<Rightarrow> committed (cell (snd s) a))"

definition apply_traffic :: "user_traffic \<Rightarrow> (string \<Rightarrow> pair64) \<Rightarrow> string \<Rightarrow> pair64" where
  "apply_traffic d v u = add2 (v u) (mget_or zero2 d u)"

definition nonneg2 :: "pair64 \<Rightarrow> bool" where
  "nonneg2 p \<longleftrightarrow> 0 \<le> sint (fst p) \<and> 0 \<le> sint (snd p)"

definition traffic_inv :: "counters \<Rightarrow> bool" where
  "traffic_inv s \<longleftrightarrow> wf_tc (fst s) (snd s) \<and> (\<forall>a. nonneg2 (pending (cell (snd s) a)))"

definition traffic_covers :: "user_traffic \<Rightarrow> counters \<Rightarrow> bool" where
  "traffic_covers d s \<longleftrightarrow> wf_map d \<and> (\<forall>u. mget d u \<noteq> None \<longrightarrow> mget (fst s) u \<noteq> None)"

definition snapshot_traffic :: "counters \<Rightarrow> user_traffic" where
  "snapshot_traffic s = SnapshotDelta (fst s) (snd s)"

definition commit_traffic :: "user_traffic \<Rightarrow> counters \<Rightarrow> counters" where
  "commit_traffic d s = (fst s, CommitSnapshot d (fst s) (snd s))"

lemma nonneg2_not_positive: "nonneg2 p \<Longrightarrow> \<not> positive2 p \<Longrightarrow> p = zero2"
  by (cases p) (auto simp: nonneg2_def positive2_def zero2_def word_sless_alt intro: signed_word_eqI)

lemma sint_add_nonneg:
  "0 \<le> sint (x :: i64) \<Longrightarrow> 0 <s n \<Longrightarrow> sint x + sint n < 2 ^ 63 \<Longrightarrow> sint (x + n) = sint x + sint n"
  by (simp add: word_sless_alt sint_word_ariths signed_take_bit_int_eq_self)


lemma nonneg2_add:
  "nonneg2 p \<Longrightarrow> 0 <s n \<Longrightarrow> sint (fst p) + sint n < 2 ^ 63 \<Longrightarrow> nonneg2 (add2 p (n, 0))"
  "nonneg2 p \<Longrightarrow> 0 <s n \<Longrightarrow> sint (snd p) + sint n < 2 ^ 63 \<Longrightarrow> nonneg2 (add2 p (0, n))"
  by (auto simp: nonneg2_def add2_def sint_add_nonneg word_sless_alt)

lemma pending_add_up:
  "pending (cell (add_up n a st) b) = (if b = a then add2 (pending (cell st a)) (n, 0) else pending (cell st b))"
  "pending (cell (add_down n a st) b) = (if b = a then add2 (pending (cell st a)) (0, n) else pending (cell st b))"
  by (simp_all add: pending_def used_add_up used_add_down sub2_def add2_def)

section \<open>The counters meet the contract\<close>

lemma GetCounter_views:
  assumes "wf_tc tc st" and "GetCounter user tc st = (a, tc', st')"
  shows "used_of (tc', st') = used_of (tc, st)" and "committed_of (tc', st') = committed_of (tc, st)"
    and "pending (cell st' b) = pending (cell st b) \<or> pending (cell st' b) = zero2"
proof -
  note spec = GetCounter_spec [OF assms]
  have same: "mget tc user \<noteq> None \<Longrightarrow> tc' = tc \<and> st' = st"
    using assms(2) by (auto simp: GetCounter_def)
  have old: "mget tc u = Some b \<Longrightarrow> cell st' b = cell st b" for u b
    using spec(4) wf_tc_fresh [OF assms(1)] by blast
  show "used_of (tc', st') = used_of (tc, st)" "committed_of (tc', st') = committed_of (tc, st)"
    using spec same old
    by (auto simp: used_of_def committed_of_def fun_eq_iff split: option.splits)
      (metis committed_simps(1) option.distinct(1) option.sel used_simps(1))+
  show "pending (cell st' b) = pending (cell st b) \<or> pending (cell st' b) = zero2"
    using assms(2)
    by (auto simp: GetCounter_def LoadOrStore_def Let_def pending_zero_iff zero_storage_def
        split: option.splits if_splits)
qed

lemma traffic_step_keeps:
  assumes "traffic_step s s'" and "traffic_inv s"
  shows "traffic_inv s'" and "committed_of s' = committed_of s"
    and "traffic_covers d s \<Longrightarrow> traffic_covers d s'"
proof -
  have "traffic_inv s' \<and> committed_of s' = committed_of s \<and> (traffic_covers d s \<longrightarrow> traffic_covers d s')"
    using assms
  proof (induction rule: traffic_step.induct)
    case (step_get user tc st a tc' st')
    then have wf: "wf_tc tc st" by (simp add: traffic_inv_def)
    note spec = GetCounter_spec [OF wf step_get(1)] and views = GetCounter_views [OF wf step_get(1)]
    have "nonneg2 (pending (cell st' b))" for b
      using step_get(2) views(3) [of b] by (auto simp: traffic_inv_def nonneg2_def zero2_def)
    moreover have "mget tc u \<noteq> None \<Longrightarrow> mget tc' u \<noteq> None" for u
      using spec(2,3) by (cases "u = user") auto
    ultimately show ?case
      using spec(1) views(2) by (auto simp: traffic_inv_def traffic_covers_def)
  next
    case (step_up a st n tc)
    then show ?case
      by (auto simp: traffic_inv_def traffic_covers_def committed_of_def used_add_up pending_add_up
          nonneg2_add wf_tc_def fun_eq_iff split: option.splits)
  next
    case (step_down a st n tc)
    then show ?case
      by (auto simp: traffic_inv_def traffic_covers_def committed_of_def used_add_down pending_add_up
          nonneg2_add wf_tc_def fun_eq_iff split: option.splits)
  qed
  then show "traffic_inv s'" and "committed_of s' = committed_of s"
    and "traffic_covers d s \<Longrightarrow> traffic_covers d s'" by auto
qed

lemma mget_or_snapshot:
  assumes "traffic_inv s"
  shows "mget_or zero2 (snapshot_traffic s) u
    = (case mget (fst s) u of None \<Rightarrow> zero2 | Some a \<Rightarrow> pending (cell (snd s) a))"
proof -
  have "wf_map (fst s)" "\<And>a. nonneg2 (pending (cell (snd s) a))"
    using assms by (auto simp: traffic_inv_def wf_tc_def)
  moreover from this have "\<And>a. \<not> positive2 (pending (cell (snd s) a)) \<Longrightarrow> pending (cell (snd s) a) = zero2"
    by (blast intro: nonneg2_not_positive)
  ultimately show ?thesis
    by (auto simp: snapshot_traffic_def mget_or_def mget_SnapshotDelta split: option.splits) metis
qed

lemma views_commit:
  assumes "traffic_inv s" and "traffic_covers d s"
  shows "committed_of (commit_traffic d s) = apply_traffic d (committed_of s)"
    and "used_of (commit_traffic d s) = used_of s"
proof -
  have wf: "wf_tc (fst s) (snd s)" "wf_map d"
    using assms by (auto simp: traffic_inv_def traffic_covers_def)
  show "committed_of (commit_traffic d s) = apply_traffic d (committed_of s)"
    using assms(2) cell_CommitSnapshot [OF wf]
    by (auto simp: commit_traffic_def committed_of_def apply_traffic_def mget_or_def fun_eq_iff
        traffic_covers_def split: option.splits)
      (metis option.distinct(1))
  show "used_of (commit_traffic d s) = used_of s"
    by (auto simp: commit_traffic_def used_of_def fun_eq_iff split: option.splits)
qed

definition grows2 :: "pair64 \<Rightarrow> pair64 \<Rightarrow> bool" where
  "grows2 p q \<longleftrightarrow> sint (fst p) \<le> sint (fst q) \<and> sint (snd p) \<le> sint (snd q)"

definition traffic_grows :: "counters \<Rightarrow> counters \<Rightarrow> bool" where
  "traffic_grows s s' \<longleftrightarrow> fresh (snd s) \<le> fresh (snd s')
     \<and> (\<forall>u a. mget (fst s) u = Some a \<longrightarrow> mget (fst s') u = Some a)
     \<and> (\<forall>a < fresh (snd s). grows2 (pending (cell (snd s) a)) (pending (cell (snd s') a)))"

lemma grows2_refl [simp]: "grows2 p p"
  by (simp add: grows2_def)

lemma grows2_add:
  "nonneg2 p \<Longrightarrow> 0 <s n \<Longrightarrow> sint (fst p) + sint n < 2 ^ 63 \<Longrightarrow> grows2 p (add2 p (n, 0))"
  "nonneg2 p \<Longrightarrow> 0 <s n \<Longrightarrow> sint (snd p) + sint n < 2 ^ 63 \<Longrightarrow> grows2 p (add2 p (0, n))"
  by (auto simp: nonneg2_def grows2_def add2_def sint_add_nonneg word_sless_alt)

lemma sint_diff_nonneg:
  "0 \<le> sint (x :: i64) \<Longrightarrow> sint x \<le> sint y \<Longrightarrow> sint (y - x) = sint y - sint x"
  using sint_i64_bounds [of y] by (simp add: sint_word_ariths signed_take_bit_int_eq_self)

lemma nonneg2_sub: "nonneg2 p \<Longrightarrow> grows2 p q \<Longrightarrow> nonneg2 (sub2 q p)"
  by (auto simp: nonneg2_def grows2_def sub2_def sint_diff_nonneg)

lemma traffic_step_grows: "traffic_step s s' \<Longrightarrow> traffic_inv s \<Longrightarrow> traffic_grows s s'"
proof (induction rule: traffic_step.induct)
  case (step_get user tc st a tc' st')
  then have "wf_tc tc st" by (simp add: traffic_inv_def)
  note spec = GetCounter_spec [OF this step_get(1)]
  have "mget tc u = Some b \<Longrightarrow> mget tc' u = Some b" for u b
    using spec(3) step_get(1) by (cases "u = user") (auto simp: GetCounter_def)
  with spec show ?case by (auto simp: traffic_grows_def)
qed (auto simp: traffic_grows_def traffic_inv_def pending_add_up grows2_add)

lemma traffic_steps_grow:
  "traffic_step\<^sup>*\<^sup>* s s' \<Longrightarrow> traffic_inv s \<Longrightarrow> traffic_inv s' \<and> traffic_grows s s'"
proof (induction rule: rtranclp_induct)
  case base
  then show ?case by (simp add: traffic_grows_def)
next
  case (step y z)
  then have "traffic_grows y z" "traffic_inv z"
    using traffic_step_grows traffic_step_keeps(1) by blast+
  with step show ?case
    unfolding traffic_grows_def grows2_def by (meson le_less_trans order.trans less_le_trans)
qed

text \<open>Committing amounts that are at most what is on its way keeps the invariant.\<close>

lemma traffic_commit_below:
  assumes inv: "traffic_inv s" and wfd: "wf_map d"
    and below: "\<And>u a v. mget (fst s) u = Some a \<Longrightarrow> mget d u = Some v \<Longrightarrow>
      nonneg2 v \<and> grows2 v (pending (cell (snd s) a))"
  shows "traffic_inv (commit_traffic d s)"
proof -
  have wf: "wf_tc (fst s) (snd s)" using inv by (simp add: traffic_inv_def)
  have "nonneg2 (pending (cell (snd (commit_traffic d s)) a))" for a
  proof (cases "\<exists>u v. mget (fst s) u = Some a \<and> mget d u = Some v")
    case False
    then have "cell (snd (commit_traffic d s)) a = cell (snd s) a"
      using cell_CommitSnapshot [OF wf wfd] cell_CommitSnapshot_other
      by (fastforce simp: commit_traffic_def split: option.splits)
    with inv show ?thesis by (simp add: traffic_inv_def)
  next
    case True
    then obtain u v where u: "mget (fst s) u = Some a" "mget d u = Some v" by blast
    then show ?thesis
      using below [OF u] cell_CommitSnapshot [OF wf wfd u(1)]
      by (simp add: commit_traffic_def pending_commit_cell nonneg2_sub)
  qed
  with wf show ?thesis by (simp add: traffic_inv_def commit_traffic_def wf_tc_def)
qed

lemma traffic_commit_inv:
  assumes "traffic_inv s" and "traffic_step\<^sup>*\<^sup>* s s'"
  shows "traffic_inv (commit_traffic (snapshot_traffic s) s')"
proof -
  from traffic_steps_grow [OF assms(2,1)]
  have inv': "traffic_inv s'" and grow: "traffic_grows s s'" by auto
  have wf: "wf_tc (fst s) (snd s)" using assms(1) by (simp add: traffic_inv_def)
  show ?thesis
  proof (rule traffic_commit_below [OF inv'])
    show "wf_map (snapshot_traffic s)"
      using wf by (simp add: snapshot_traffic_def wf_SnapshotDelta wf_tc_def)
  next
    fix u a v assume u: "mget (fst s') u = Some a" "mget (snapshot_traffic s) u = Some v"
    then obtain b where b: "mget (fst s) u = Some b" "v = pending (cell (snd s) b)"
      using wf by (auto simp: snapshot_traffic_def mget_SnapshotDelta wf_tc_def split: option.splits if_splits)
    with u(1) grow have "a = b" by (auto simp: traffic_grows_def)
    moreover have "b < fresh (snd s)" using wf b(1) by (rule wf_tc_fresh)
    ultimately show "nonneg2 v \<and> grows2 v (pending (cell (snd s') a))"
      using grow b assms(1) by (auto simp: traffic_grows_def traffic_inv_def)
  qed
qed

interpretation tr: delta_source traffic_inv snapshot_traffic commit_traffic used_of committed_of
  apply_traffic traffic_covers traffic_step
proof
  fix s d s'
  show "traffic_covers (snapshot_traffic s) s" if "traffic_inv s"
    using that by (auto simp: traffic_covers_def snapshot_traffic_def traffic_inv_def wf_tc_def
        wf_SnapshotDelta mget_SnapshotDelta split: option.splits)
  show "apply_traffic (snapshot_traffic s) (committed_of s) = used_of s" if "traffic_inv s"
    using mget_or_snapshot [OF that]
    by (auto simp: apply_traffic_def used_of_def committed_of_def fun_eq_iff used_eq split: option.splits)
  show "committed_of (commit_traffic d s) = apply_traffic d (committed_of s)"
    "used_of (commit_traffic d s) = used_of s" if "traffic_inv s" "traffic_covers d s"
    using that by (auto simp: views_commit)
  show "traffic_inv s'" "committed_of s' = committed_of s" if "traffic_step s s'" "traffic_inv s"
    using that traffic_step_keeps by auto
  show "traffic_covers d s'" if "traffic_step s s'" "traffic_inv s" "traffic_covers d s"
    using that traffic_step_keeps by auto
  show "traffic_inv (commit_traffic (snapshot_traffic s) s')" if "traffic_inv s" "traffic_step\<^sup>*\<^sup>* s s'"
    using that by (rule traffic_commit_inv)
qed

section \<open>Properties\<close>

lemma traffic_inv_empty: "traffic_inv (NewTrafficCounter, empty_store)"
  by (simp add: traffic_inv_def wf_tc_def NewTrafficCounter_def empty_store_def nonneg2_def zero2_def
      pending_def)

text \<open>
  C4: A delta that was pushed and committed accounts for every byte counted before its snapshot,
  exactly once: whatever connections do between \<open>SnapshotDelta\<close> and \<open>CommitSnapshot\<close>, the
  committed totals become the totals counted at the snapshot, and what stays unreported is what
  was counted after it.
\<close>

theorem commit_reports_exactly_once:
  assumes "traffic_inv (tc, st)" and "traffic_step\<^sup>*\<^sup>* (tc, st) (tc', st')"
  shows "committed_of (tc', CommitSnapshot (SnapshotDelta tc st) tc' st') u = used_of (tc, st) u
    \<and> sub2 (used_of (tc', CommitSnapshot (SnapshotDelta tc st) tc' st') u)
           (committed_of (tc', CommitSnapshot (SnapshotDelta tc st) tc' st') u)
      = sub2 (used_of (tc', st') u) (used_of (tc, st) u)"
proof -
  have "committed_of (commit_traffic (snapshot_traffic (tc, st)) (tc', st')) = used_of (tc, st)"
    and "used_of (commit_traffic (snapshot_traffic (tc, st)) (tc', st')) = used_of (tc', st')"
    using tr.accepted_cycle [OF assms] by auto
  then show ?thesis by (simp add: commit_traffic_def snapshot_traffic_def)
qed

theorem commit_reports_exactly_once_witness:
  "traffic_inv ([(''7'', 0)], add_up 5 0 (empty_store\<lparr>fresh := 1\<rparr>))
   \<and> committed_of ([(''7'', 0)],
        CommitSnapshot (SnapshotDelta [(''7'', 0)] (add_up 5 0 (empty_store\<lparr>fresh := 1\<rparr>))) [(''7'', 0)]
          (add_up 9 0 (add_up 5 0 (empty_store\<lparr>fresh := 1\<rparr>)))) ''7''
      = used_of ([(''7'', 0)], add_up 5 0 (empty_store\<lparr>fresh := 1\<rparr>)) ''7''"
proof -
  let ?st = "add_up 5 0 (empty_store\<lparr>fresh := 1\<rparr>)"
  have inv: "traffic_inv ([(''7'', 0)], ?st)"
    by (auto simp: traffic_inv_def wf_tc_def nonneg2_def add_up_def empty_store_def
        pending_pair zero_storage_def)
  have "traffic_step ([(''7'', 0)], ?st) ([(''7'', 0)], add_up 9 0 ?st)"
    by (rule step_up)
      (simp_all add: add_up_def empty_store_def pending_pair zero_storage_def word_sless_alt)
  then have "traffic_step\<^sup>*\<^sup>* ([(''7'', 0)], ?st) ([(''7'', 0)], add_up 9 0 ?st)" by blast
  from inv commit_reports_exactly_once [OF inv this, of "''7''"] show ?thesis by simp
qed

text \<open>
  However pushes are accepted, refused and retried and however connections interleave with
  them, the totals the panel has accepted are the committed totals, and the next delta brings
  them to exactly what has been counted.
\<close>

theorem ledger_matches_counters:
  assumes "sync_run snapshot_traffic commit_traffic apply_traffic traffic_step
    ((NewTrafficCounter, empty_store), \<lambda>_. zero2) ((tc, st), ledger)"
  shows "ledger = committed_of (tc, st) \<and> apply_traffic (SnapshotDelta tc st) ledger = used_of (tc, st)"
proof -
  have "(\<lambda>_. zero2) = committed_of (NewTrafficCounter, empty_store)"
    by (simp add: committed_of_def NewTrafficCounter_def fun_eq_iff)
  then have "traffic_inv (tc, st) \<and> ledger = committed_of (tc, st)"
    using tr.run_agrees [OF assms traffic_inv_empty] by blast
  then show ?thesis
    using tr.snapshot_complete [of "(tc, st)"] by (simp add: snapshot_traffic_def)
qed

theorem ledger_matches_counters_witness:
  "(\<lambda>_. zero2) = committed_of (NewTrafficCounter, empty_store)
   \<and> apply_traffic (SnapshotDelta NewTrafficCounter empty_store) (\<lambda>_. zero2)
      = used_of (NewTrafficCounter, empty_store)"
  by (rule ledger_matches_counters) (rule run_start)

text \<open>
  C7: Pruning the users the panel no longer lists removes a counter only when everything it
  counted has been committed, and never changes what the next delta reports.
\<close>

theorem RemoveAbsent_keeps_delta:
  assumes "wf_map tc"
  shows "mget (SnapshotDelta (RemoveAbsent active tc st) st) u = mget (SnapshotDelta tc st) u
    \<and> (mget tc u = Some a \<longrightarrow>
        (mget (RemoveAbsent active tc st) u = None \<longleftrightarrow>
           mget active u = None \<and> used (cell st a) = committed (cell st a)))"
proof -
  have "wf_map (RemoveAbsent active tc st)"
    using assms by (rule wf_RemoveAbsent)
  moreover have "\<not> positive2 zero2" by (simp add: positive2_def zero2_def)
  ultimately show ?thesis
    using assms
    by (auto simp: mget_SnapshotDelta mget_RemoveAbsent pending_zero [symmetric]
        split: option.splits)
qed

theorem RemoveAbsent_keeps_delta_witness:
  "wf_map [(''7'', 0)]
   \<and> mget (SnapshotDelta (RemoveAbsent [] [(''7'', 0)] empty_store) empty_store) ''7''
      = mget (SnapshotDelta [(''7'', 0)] empty_store) ''7''
   \<and> mget (RemoveAbsent [] [(''7'', 0)] empty_store) ''7'' = None"
proof -
  have wf: "wf_map [(''7'', 0)]" by simp
  show ?thesis
    using RemoveAbsent_keeps_delta [OF wf, of "[]" empty_store "''7''" 0]
    by (simp add: empty_store_def)
qed

text \<open>
  C8: A connection that keeps its pointer to a pruned counter counts into a storage no snapshot
  reads: bytes it adds afterwards are in no delta, although the same bytes counted without the
  pruning would have been reported.
\<close>

theorem pruned_counter_loses_traffic:
  assumes "wf_tc tc st" and "mget tc u = Some a" and "mget active u = None"
    and "used (cell st a) = committed (cell st a)" and "0 <s n"
  shows "mget (SnapshotDelta (RemoveAbsent active tc st) (add_up n a st)) u = None
    \<and> mget (SnapshotDelta tc (add_up n a st)) u = Some (n, 0)"
proof -
  have wf: "wf_map tc" "wf_map (RemoveAbsent active tc st)"
    using assms(1) by (auto simp: wf_tc_def wf_RemoveAbsent)
  have p: "pending (cell st a) = zero2" using assms(4) by (simp add: pending_def)
  have "mget (RemoveAbsent active tc st) u = None"
    using wf assms(2,3) p by (simp add: mget_RemoveAbsent)
  moreover have "pending (cell (add_up n a st) a) = (n, 0)"
    using p by (simp add: pending_add_up)
  ultimately show ?thesis
    using wf assms(2,5) by (simp add: mget_SnapshotDelta positive2_def)
qed

theorem pruned_counter_loses_traffic_witness:
  "mget (SnapshotDelta (RemoveAbsent [] [(''7'', 0)] (empty_store\<lparr>fresh := 1\<rparr>))
      (add_up 5 0 (empty_store\<lparr>fresh := 1\<rparr>))) ''7'' = None
   \<and> mget (SnapshotDelta [(''7'', 0)] (add_up 5 0 (empty_store\<lparr>fresh := 1\<rparr>))) ''7'' = Some (5, 0)"
  by (rule pruned_counter_loses_traffic) (simp_all add: wf_tc_def empty_store_def word_sless_alt)

end
