(* ===== verification/Rate_Limiter.thy ===== *)
theory Rate_Limiter
  imports Go_Strings
begin

text \<open>
  The token bucket wrapper of \<open>counter/ratelimit.go\<close>: \<open>RateLimiter\<close> with \<open>SetRate\<close>, \<open>Close\<close>,
  \<open>Wait\<close> and \<open>Allow\<close>. The bucket itself is \<open>golang.org/x/time/rate\<close>, a package: its operations
  are the record \<open>xrate\<close>, a parameter. What the wrapper relies on is \<open>xrate_spec\<close>, the package's
  documented behaviour: a request within the burst is granted after a wait and charged, and the burst is
  what the constructor or \<open>SetBurstAt\<close> set last.

  \<open>Wait\<close> and \<open>Allow\<close> copy the fields under the lock (\<open>snapshot\<close>), release it and only then call the
  bucket, through the pointer they copied. Other goroutines run before the snapshot and between it and that
  call (\<open>others\<close>): a rate change may reach the bucket that is held, and \<open>Close\<close> may drop it from the
  limiter while it is held. \<open>int\<close> stands for Go's \<open>int\<close> where values are lengths and bursts, which stay
  far below \<open>2^63\<close>.
\<close>

section \<open>State\<close>

text \<open>
  \<open>xrate.Limit(r)\<close> is a conversion to float64: the nearest number of 53 binary digits, ties to the even
  one. A rate of 54 or more digits becomes a multiple of a power of two, so the value is an integer.
\<close>

definition round_half_even :: "int \<Rightarrow> int \<Rightarrow> int" where
  "round_half_even x d =
     (let q = x div d; r = x mod d
      in (if 2 * r < d \<or> (2 * r = d \<and> even q) then q else q + 1) * d)"

fun binary_digits :: "nat \<Rightarrow> nat" where
  "binary_digits n = (if n = 0 then 0 else Suc (binary_digits (n div 2)))"

declare binary_digits.simps [simp del]

definition Limit :: "i64 \<Rightarrow> int" where
  "Limit r =
     (let x = sint r
      in if \<bar>x\<bar> < 2 ^ 53 then x else round_half_even x (2 ^ (binary_digits (nat \<bar>x\<bar>) - 53)))"

record ('l, 't) xrate =
  NewLimiter :: "int \<Rightarrow> int \<Rightarrow> 'l"
  SetLimitAt :: "'t \<Rightarrow> int \<Rightarrow> 'l \<Rightarrow> 'l"
  SetBurstAt :: "'t \<Rightarrow> int \<Rightarrow> 'l \<Rightarrow> 'l"
  AllowN :: "'t \<Rightarrow> int \<Rightarrow> 'l \<Rightarrow> bool \<times> 'l"
  WaitN :: "int \<Rightarrow> 'l \<Rightarrow> error option \<times> 'l"

record 'l rate_limiter =
  rl_rate :: i64
  rl_burst :: int
  rl_limiter :: "'l option"
  rl_disabled :: bool
  rl_closed :: bool

definition maxWriteChunk :: int where
  "maxWriteChunk = 64 * 1024"

definition maxReadChunk :: int where
  "maxReadChunk = 64 * 1024"

definition defaultBurstWindow :: i64 where
  "defaultBurstWindow = 200000000"

definition second_ns :: i64 where
  "second_ns = 1000000000"

definition zero_limiter :: "'l rate_limiter" where
  "zero_limiter = \<lparr>rl_rate = 0, rl_burst = 0, rl_limiter = None, rl_disabled = False, rl_closed = False\<rparr>"

section \<open>Operations\<close>

definition burstFor :: "i64 \<Rightarrow> int" where
  "burstFor bytesPerSecond =
     (let burst = i64_div (bytesPerSecond * defaultBurstWindow) second_ns;
          burst = (if sint burst < maxWriteChunk then word_of_int maxWriteChunk else burst)
      in if 2 ^ 63 - 1 < sint burst then 2 ^ 63 - 1 else sint burst)"

definition SetRate :: "('l, 't) xrate \<Rightarrow> 't \<Rightarrow> i64 \<Rightarrow> 'l rate_limiter \<Rightarrow> 'l rate_limiter" where
  "SetRate X now bytesPerSecond l =
     (let l = l\<lparr>rl_rate := bytesPerSecond\<rparr>
      in if sint bytesPerSecond \<le> 0
         then l\<lparr>rl_disabled := True, rl_burst := 0, rl_limiter := None\<rparr>
         else
           (let burst = burstFor bytesPerSecond;
                lim = (case rl_limiter l of
                         None \<Rightarrow> NewLimiter X (Limit bytesPerSecond) burst
                       | Some lim \<Rightarrow> SetBurstAt X now burst (SetLimitAt X now (Limit bytesPerSecond) lim));
                lim = snd (AllowN X now burst lim)
            in l\<lparr>rl_closed := False, rl_disabled := False, rl_burst := burst, rl_limiter := Some lim\<rparr>))"

definition NewRateLimiter :: "('l, 't) xrate \<Rightarrow> 't \<Rightarrow> i64 \<Rightarrow> 'l rate_limiter" where
  "NewRateLimiter X now bytesPerSecond = SetRate X now bytesPerSecond zero_limiter"

definition Close :: "'l rate_limiter option \<Rightarrow> 'l rate_limiter option" where
  "Close l =
     map_option (\<lambda>l. l\<lparr>rl_closed := True, rl_disabled := True, rl_rate := 0, rl_burst := 0,
                       rl_limiter := None\<rparr>) l"

definition Closed :: "'l rate_limiter option \<Rightarrow> bool" where
  "Closed l = (case l of None \<Rightarrow> True | Some l \<Rightarrow> rl_closed l)"

definition Rate :: "'l rate_limiter \<Rightarrow> i64" where
  "Rate l = rl_rate l"

definition limiter_snapshot :: "'l rate_limiter \<Rightarrow> 'l option \<times> int \<times> bool \<times> bool" where
  "limiter_snapshot l = (rl_limiter l, rl_burst l, rl_disabled l, rl_closed l)"

definition wait_chunk :: "int \<Rightarrow> int \<Rightarrow> int" where
  "wait_chunk burst remaining = (if 0 < burst \<and> burst < remaining then burst else remaining)"

text \<open>
  What another goroutine does meanwhile. A caller that holds the bucket of its snapshot sees a pair: the
  limiter, and the bucket it holds if the limiter has dropped it, \<open>None\<close> while the two are the same.
\<close>

datatype 't bucket_op = TakeN int | TryN 't int

datatype 't other = SetsRate 't i64 | Closes | OnBucket "'t bucket_op" | OnDropped "'t bucket_op"

fun bucket_step :: "('l, 't) xrate \<Rightarrow> 't bucket_op \<Rightarrow> 'l \<Rightarrow> 'l" where
  "bucket_step X (TakeN n) lim = snd (WaitN X n lim)"
| "bucket_step X (TryN now n) lim = snd (AllowN X now n lim)"

definition replaced :: "'l rate_limiter \<Rightarrow> 'l rate_limiter \<times> 'l option \<Rightarrow> 'l rate_limiter \<times> 'l option" where
  "replaced l' s =
     (case s of (l, dropped) \<Rightarrow>
        (l', if dropped = None \<and> rl_limiter l' = None then rl_limiter l else dropped))"

fun other_step ::
  "('l, 't) xrate \<Rightarrow> 't other \<Rightarrow> 'l rate_limiter \<times> 'l option \<Rightarrow> 'l rate_limiter \<times> 'l option" where
  "other_step X (SetsRate now r) s = replaced (SetRate X now r (fst s)) s"
| "other_step X Closes s = replaced (the (Close (Some (fst s)))) s"
| "other_step X (OnBucket op) s =
     ((fst s)\<lparr>rl_limiter := map_option (bucket_step X op) (rl_limiter (fst s))\<rparr>, snd s)"
| "other_step X (OnDropped op) s = (fst s, map_option (bucket_step X op) (snd s))"

abbreviation run_others ::
  "('l, 't) xrate \<Rightarrow> 't other list \<Rightarrow> 'l rate_limiter \<Rightarrow> 'l rate_limiter \<times> 'l option" where
  "run_others X ops l \<equiv> fold (other_step X) ops (l, None)"

text \<open>Before the snapshot of iteration \<open>i\<close>, and between it and the call of the bucket.\<close>

record 't others =
  before :: "nat \<Rightarrow> 't other list"
  between :: "nat \<Rightarrow> 't other list"

text \<open>No other goroutine touches the limiter.\<close>

definition quiet :: "'t others" where
  "quiet = \<lparr>before = (\<lambda>i. []), between = (\<lambda>i. [])\<rparr>"

text \<open>
  The call on the bucket that is held. While the limiter has not dropped it the bucket is the limiter's,
  which is then not nil.
\<close>

definition on_held ::
  "('l \<Rightarrow> 'r \<times> 'l) \<Rightarrow> 'r \<Rightarrow> 'l rate_limiter \<times> 'l option \<Rightarrow> 'r \<times> 'l rate_limiter" where
  "on_held call unheld s =
     (case s of (l, dropped) \<Rightarrow>
        (case dropped of
           Some lim \<Rightarrow> (fst (call lim), l)
         | None \<Rightarrow>
             (case rl_limiter l of
                Some lim \<Rightarrow> (let (r, lim) = call lim in (r, l\<lparr>rl_limiter := Some lim\<rparr>))
              | None \<Rightarrow> (unheld, l))))"

function Wait_loop ::
  "('l, 't) xrate \<Rightarrow> 't others \<Rightarrow> nat \<Rightarrow> int \<Rightarrow> 'l rate_limiter \<Rightarrow> error option \<times> 'l rate_limiter" where
  "Wait_loop X R i remaining l =
     (if 0 < remaining then
        (let l = fst (run_others X (before R i) l);
             (limiter, burst, disabled, closed) = limiter_snapshot l
         in if closed then (Some ErrLimiterClosed, l)
            else if disabled then (None, l)
            else
              (let chunk = wait_chunk burst remaining
               in if limiter = None then (None, l)
                  else
                    (case on_held (WaitN X chunk) None (run_others X (between R i) l) of
                       (Some err, l) \<Rightarrow> (Some err, l)
                     | (None, l) \<Rightarrow> Wait_loop X R (Suc i) (remaining - chunk) l)))
      else (None, l))"
  by pat_completeness auto
termination
  by (relation "measure (\<lambda>(X, R, i, remaining, l). nat remaining)") (auto simp: wait_chunk_def)

declare Wait_loop.simps [simp del]

definition Wait ::
  "('l, 't) xrate \<Rightarrow> 't others \<Rightarrow> int \<Rightarrow> 'l rate_limiter option \<Rightarrow> error option \<times> 'l rate_limiter option" where
  "Wait X R n l =
     (case l of
        None \<Rightarrow> (None, l)
      | Some l' \<Rightarrow>
          if n \<le> 0 then (None, l)
          else (let (err, l'') = Wait_loop X R 0 n l' in (err, Some l'')))"

text \<open>\<open>ops\<close> is what other goroutines do between the snapshot of \<open>Allow\<close> and its call of the bucket.\<close>

definition Allow ::
  "('l, 't) xrate \<Rightarrow> 't other list \<Rightarrow> 't \<Rightarrow> int \<Rightarrow> 'l rate_limiter option
   \<Rightarrow> (bool \<times> error option) \<times> 'l rate_limiter option" where
  "Allow X ops now n l =
     (case l of
        None \<Rightarrow> ((True, None), l)
      | Some l' \<Rightarrow>
          if n \<le> 0 then ((True, None), l)
          else
            (let (limiter, burst, disabled, closed) = limiter_snapshot l'
             in if closed then ((False, Some ErrLimiterClosed), l)
                else if disabled \<or> limiter = None then ((True, None), l)
                else
                  (let n = (if 0 < burst \<and> burst < n then burst else n);
                       (ok, l'') = on_held (AllowN X now n) True (run_others X ops l')
                   in ((ok, None), Some l''))))"

section \<open>Bursts\<close>

lemma i64_div_sint:
  assumes "0 \<le> sint a" and "0 < sint b"
  shows "sint (i64_div a b) = sint a div sint b"
proof -
  have "sint a sdiv sint b = sint a div sint b"
    using assms by (cases "sint a = 0") (auto simp: signed_divide_int_def)
  moreover have "0 \<le> sint a div sint b" "sint a div sint b \<le> sint a"
    using assms by (auto simp: pos_imp_zdiv_nonneg_iff intro: order.trans [OF zdiv_mono2 [of "sint a" 1]])
  ultimately show ?thesis
    using sint_i64_bounds [of a] by (simp add: i64_div_def sint_sbintrunc' signed_take_bit_int_eq_self)
qed

lemma burstFor_bounds: "maxWriteChunk \<le> burstFor r" "burstFor r < 2 ^ 63"
  by (auto simp: burstFor_def Let_def maxWriteChunk_def)

lemma burstFor_exact:
  assumes "0 \<le> sint r" and "sint r \<le> 46116860184"
  shows "burstFor r = max maxWriteChunk (sint r div 5)"
proof -
  have "sint (r * defaultBurstWindow) = sint r * 200000000"
    using assms by (simp add: defaultBurstWindow_def sint_word_ariths signed_take_bit_int_eq_self)
  then have "sint (i64_div (r * defaultBurstWindow) second_ns) = sint r * 200000000 div 1000000000"
    using assms by (subst i64_div_sint) (simp_all add: second_ns_def)
  also have "\<dots> = sint r div 5" by simp
  finally show ?thesis
    using sint_i64_bounds [of "i64_div (r * defaultBurstWindow) second_ns"]
    by (auto simp: burstFor_def Let_def maxWriteChunk_def)
qed

section \<open>The invariant\<close>

text \<open>
  Every limiter the constructor and the operations produce is closed or unlimited with no
  bucket, or open with a bucket whose burst is at least one write chunk.
\<close>

definition rl_inv :: "'l rate_limiter \<Rightarrow> bool" where
  "rl_inv l \<longleftrightarrow>
     (if rl_disabled l then rl_limiter l = None \<and> rl_burst l = 0 \<and> sint (rl_rate l) \<le> 0
      else rl_limiter l \<noteq> None \<and> \<not> rl_closed l \<and> rl_burst l = burstFor (rl_rate l)
        \<and> 0 < sint (rl_rate l))"

lemma SetRate_inv: "rl_inv (SetRate X now r l)"
  by (auto simp: SetRate_def rl_inv_def Let_def)

lemma NewRateLimiter_inv: "rl_inv (NewRateLimiter X now r)"
  by (simp add: NewRateLimiter_def SetRate_inv)

lemma Close_Some: "Close (Some l) = Some (the (Close (Some l)))"
  by (simp add: Close_def)

lemma Close_inv: "Close l = Some l' \<Longrightarrow> rl_inv l'"
  by (auto simp: Close_def rl_inv_def)

lemma rl_inv_limiter_upd: "rl_inv l \<Longrightarrow> rl_limiter l = Some lim \<Longrightarrow> rl_inv (l\<lparr>rl_limiter := Some lim'\<rparr>)"
  by (auto simp: rl_inv_def split: if_splits)

lemma rl_inv_burst: "rl_inv l \<Longrightarrow> \<not> rl_disabled l \<Longrightarrow> maxWriteChunk \<le> rl_burst l"
  by (simp add: rl_inv_def burstFor_bounds)

lemma wait_chunk_bounds: "0 < remaining \<Longrightarrow> 0 < wait_chunk burst remaining \<and> wait_chunk burst remaining \<le> remaining"
  by (simp add: wait_chunk_def)

text \<open>Other goroutines keep the invariant, and leave a bucket to the caller that holds one.\<close>

definition held :: "'l rate_limiter \<times> 'l option \<Rightarrow> 'l option" where
  "held s = (case snd s of None \<Rightarrow> rl_limiter (fst s) | Some lim \<Rightarrow> Some lim)"

lemma rl_inv_map: "rl_inv l \<Longrightarrow> rl_inv (l\<lparr>rl_limiter := map_option f (rl_limiter l)\<rparr>)"
  by (auto simp: rl_inv_def)

lemma other_step_inv:
  assumes "rl_inv (fst s)"
  shows "rl_inv (fst (other_step X op s))"
  using assms
  by (cases op) (auto simp: replaced_def SetRate_inv rl_inv_map Close_inv [OF Close_Some] split: prod.split)

lemma run_others_inv: "rl_inv (fst s) \<Longrightarrow> rl_inv (fst (fold (other_step X) ops s))"
  by (induction ops arbitrary: s) (simp_all add: other_step_inv)

lemma other_step_held: "held s \<noteq> None \<Longrightarrow> held (other_step X op s) \<noteq> None"
  by (cases op; cases s) (auto simp: held_def replaced_def split: option.splits)

lemma run_others_held: "held s \<noteq> None \<Longrightarrow> held (fold (other_step X) ops s) \<noteq> None"
proof (induction ops arbitrary: s)
  case (Cons op ops)
  from Cons.IH [OF other_step_held [OF Cons.prems]] show ?case by simp
qed simp

lemma on_held_inv: "rl_inv (fst s) \<Longrightarrow> rl_inv (snd (on_held call unheld s))"
  by (auto simp: on_held_def rl_inv_limiter_upd split: prod.split option.split)

lemma fst_on_held: "held s = Some lim \<Longrightarrow> fst (on_held call unheld s) = fst (call lim)"
  by (auto simp: on_held_def held_def split: prod.split option.splits)

text \<open>One iteration, on a limiter that satisfies the invariant.\<close>

lemma Wait_loop_done [simp]: "remaining \<le> 0 \<Longrightarrow> Wait_loop X R i remaining l = (None, l)"
  by (simp add: Wait_loop.simps [of X R i remaining l])

lemma Wait_loop_stops:
  assumes "0 < remaining" and "fst (run_others X (before R i) l) = l'" and "rl_disabled l'"
  shows "Wait_loop X R i remaining l = (if rl_closed l' then Some ErrLimiterClosed else None, l')"
  using assms by (simp add: Wait_loop.simps [of X R i remaining l] limiter_snapshot_def Let_def)

lemma Wait_loop_iter:
  assumes "0 < remaining" and "fst (run_others X (before R i) l) = l'" and "rl_inv l'" and "\<not> rl_disabled l'"
    and "on_held (WaitN X (wait_chunk (rl_burst l') remaining)) None (run_others X (between R i) l') = (r, l'')"
  shows "Wait_loop X R i remaining l =
    (if r = None then Wait_loop X R (Suc i) (remaining - wait_chunk (rl_burst l') remaining) l'' else (r, l''))"
proof -
  have "\<not> rl_closed l'" "rl_limiter l' \<noteq> None" using assms(3,4) by (auto simp: rl_inv_def)
  with assms show ?thesis
    by (auto simp: Wait_loop.simps [of X R i remaining l] limiter_snapshot_def Let_def split: option.split)
qed

text \<open>An induction over the iterations: each starts from a limiter in \<open>J\<close>, a caller's result is in \<open>Q\<close>.\<close>

lemma Wait_loop_induct:
  assumes "\<And>l. J l \<Longrightarrow> rl_inv l" and "J l"
    and before: "\<And>i l. J l \<Longrightarrow> J (fst (run_others X (before R i) l))"
    and stops: "\<And>l. J l \<Longrightarrow> Q (None, l)" "\<And>l. J l \<Longrightarrow> Q (Some ErrLimiterClosed, l)"
    and waits: "\<And>i m l r l'. J l \<Longrightarrow> \<not> rl_disabled l \<Longrightarrow> 0 < m \<Longrightarrow> m \<le> remaining \<Longrightarrow>
      on_held (WaitN X (wait_chunk (rl_burst l) m)) None (run_others X (between R i) l) = (r, l') \<Longrightarrow>
      J l' \<and> (r \<noteq> None \<longrightarrow> Q (r, l'))"
  shows "Q (Wait_loop X R i remaining l)"
proof -
  have "m \<le> remaining \<Longrightarrow> Q (Wait_loop X R i m l)" for m
    using assms(2)
  proof (induction "nat m" arbitrary: i m l rule: less_induct)
    case less
    obtain l1 where l1: "fst (run_others X (before R i) l) = l1" by blast
    have J: "J l1" using before [OF less.prems(2), of i] by (simp add: l1)
    consider "m \<le> 0" | "0 < m" "rl_disabled l1" | "0 < m" "\<not> rl_disabled l1" by linarith
    then show ?case
    proof cases
      case 3
      let ?c = "wait_chunk (rl_burst l1) m"
      obtain r l2 where w: "on_held (WaitN X ?c) None (run_others X (between R i) l1) = (r, l2)" by fastforce
      have "nat (m - ?c) < nat m" "m - ?c \<le> remaining"
        using 3(1) less.prems(1) wait_chunk_bounds [OF 3(1), of "rl_burst l1"] by simp_all
      then show ?thesis
        using Wait_loop_iter [OF 3(1) l1 assms(1) [OF J] 3(2) w] waits [OF J 3(2,1) less.prems(1) w] less.hyps
        by simp
    qed (use J less.prems stops l1 in \<open>simp_all add: Wait_loop_stops\<close>)
  qed
  then show ?thesis by simp
qed

lemma Wait_loop_inv: "rl_inv l \<Longrightarrow> rl_inv (snd (Wait_loop X R i remaining l))"
proof (rule Wait_loop_induct [where J = rl_inv])
  fix i m r and l l' :: "'a rate_limiter"
  assume "rl_inv l" and "on_held (WaitN X (wait_chunk (rl_burst l) m)) None (run_others X (between R i) l) = (r, l')"
  with on_held_inv [OF run_others_inv, of "(l, None)" "WaitN X (wait_chunk (rl_burst l) m)" None X "between R i"]
  show "rl_inv l' \<and> (r \<noteq> None \<longrightarrow> rl_inv (snd (r, l')))" by simp
qed (simp_all add: run_others_inv)

lemma Allow_inv: "rl_inv l \<Longrightarrow> snd (Allow X ops now n (Some l)) = Some l' \<Longrightarrow> rl_inv l'"
  using on_held_inv [OF run_others_inv, of "(l, None)" _ True X ops]
  by (auto simp: Allow_def limiter_snapshot_def Let_def case_prod_unfold split: if_splits)

lemma Wait_inv: "rl_inv l \<Longrightarrow> snd (Wait X R n (Some l)) = Some l' \<Longrightarrow> rl_inv l'"
  using Wait_loop_inv [of l X R 0 n] by (auto simp: Wait_def split: if_splits prod.splits)

section \<open>The bucket's documented behaviour\<close>

text \<open>
  \<open>cap\<close> reads a bucket's burst and \<open>charged\<close> the tokens it has handed out: \<open>WaitN\<close> within the
  burst is granted and charged, the constructor and \<open>SetBurstAt\<close> set the burst, and \<open>AllowN\<close> and
  \<open>WaitN\<close>, granted or not, keep it.
\<close>

definition xrate_spec :: "('l, 't) xrate \<Rightarrow> ('l \<Rightarrow> int) \<Rightarrow> ('l \<Rightarrow> int) \<Rightarrow> bool" where
  "xrate_spec X cap charged \<longleftrightarrow>
     (\<forall>n lim. 0 < n \<longrightarrow> n \<le> cap lim \<longrightarrow>
        (\<exists>lim'. WaitN X n lim = (None, lim') \<and> cap lim' = cap lim \<and> charged lim' = charged lim + n))
     \<and> (\<forall>r b. cap (NewLimiter X r b) = b)
     \<and> (\<forall>now b lim. cap (SetBurstAt X now b lim) = b)
     \<and> (\<forall>now n lim. cap (snd (AllowN X now n lim)) = cap lim)
     \<and> (\<forall>n lim. cap (snd (WaitN X n lim)) = cap lim)"

lemma WaitN_granted:
  "xrate_spec X cap charged \<Longrightarrow> 0 < n \<Longrightarrow> n \<le> cap lim \<Longrightarrow>
   \<exists>lim'. WaitN X n lim = (None, lim') \<and> cap lim' = cap lim \<and> charged lim' = charged lim + n"
  by (simp add: xrate_spec_def)

definition cap_ok :: "('l \<Rightarrow> int) \<Rightarrow> 'l rate_limiter \<Rightarrow> bool" where
  "cap_ok cap l \<longleftrightarrow> (\<forall>lim. rl_limiter l = Some lim \<longrightarrow> cap lim = rl_burst l)"

lemma SetRate_cap_ok: "xrate_spec X cap charged \<Longrightarrow> cap_ok cap (SetRate X now r l)"
  by (auto simp: xrate_spec_def cap_ok_def SetRate_def Let_def split: option.splits)

lemma NewRateLimiter_ok:
  assumes "xrate_spec X cap charged"
  shows "rl_inv (NewRateLimiter X now r) \<and> cap_ok cap (NewRateLimiter X now r)"
  using SetRate_cap_ok [OF assms, of now r zero_limiter] NewRateLimiter_inv [of X now r]
  by (simp add: NewRateLimiter_def)

text \<open>A bucket for evaluation: its burst and the tokens it has handed out.\<close>

definition counting_xrate :: "(int \<times> int, unit) xrate" where
  "counting_xrate =
     \<lparr>NewLimiter = (\<lambda>r b. (b, 0)), SetLimitAt = (\<lambda>now r l. l), SetBurstAt = (\<lambda>now b l. (b, snd l)),
      AllowN = (\<lambda>now n l. (True, (fst l, snd l + n))),
      WaitN = (\<lambda>n l. if n \<le> fst l then (None, (fst l, snd l + n))
                    else (Some (Extern ''rate: Wait(n) exceeds limiter's burst''), l))\<rparr>"

lemma counting_xrate_spec: "xrate_spec counting_xrate fst snd"
  by (simp add: xrate_spec_def counting_xrate_def)

lemma Wait_loop_charges:
  assumes "xrate_spec X cap charged" and "rl_inv l" and "cap_ok cap l"
    and "rl_limiter l = Some lim" and "0 \<le> remaining"
  shows "\<exists>lim'. Wait_loop X quiet i remaining l = (None, l\<lparr>rl_limiter := Some lim'\<rparr>)
    \<and> charged lim' = charged lim + remaining"
  using assms(2-5)
proof (induction "nat remaining" arbitrary: i remaining l lim rule: less_induct)
  case less
  show ?case
  proof (cases "remaining = 0")
    case True
    with less.prems(3) show ?thesis by (intro exI [of _ lim]) simp
  next
    case False
    then have pos: "0 < remaining" using less.prems(4) by simp
    let ?c = "wait_chunk (rl_burst l) remaining"
    have on: "\<not> rl_disabled l" using less.prems(1,3) by (auto simp: rl_inv_def split: if_splits)
    then have "0 < rl_burst l"
      using rl_inv_burst [OF less.prems(1)] by (simp add: maxWriteChunk_def)
    then have c: "0 < ?c" "?c \<le> cap lim" "?c \<le> remaining"
      using pos less.prems(2,3) by (auto simp: wait_chunk_def cap_ok_def)
    then obtain lim1 where w: "WaitN X ?c lim = (None, lim1)" "cap lim1 = cap lim"
      "charged lim1 = charged lim + ?c"
      using WaitN_granted [OF assms(1)] by blast
    let ?l1 = "l\<lparr>rl_limiter := Some lim1\<rparr>"
    have "rl_inv ?l1" using less.prems(1,3) by (rule rl_inv_limiter_upd)
    moreover have "cap_ok cap ?l1" using less.prems(2,3) w(2) by (simp add: cap_ok_def)
    ultimately obtain lim' where
      "Wait_loop X quiet (Suc i) (remaining - ?c) ?l1 = (None, ?l1\<lparr>rl_limiter := Some lim'\<rparr>)"
      "charged lim' = charged lim1 + (remaining - ?c)"
      using less.hyps [of "remaining - ?c" ?l1 lim1 "Suc i"] c pos by auto
    moreover have "on_held (WaitN X ?c) None (run_others X (between quiet i) l) = (None, ?l1)"
      using less.prems(3) w(1) by (simp add: on_held_def quiet_def)
    ultimately show ?thesis
      using Wait_loop_iter [OF pos _ less.prems(1) on, of X quiet i l] w(3)
      by (intro exI [of _ lim']) (simp add: quiet_def)
  qed
qed

section \<open>When the bucket refuses\<close>

text \<open>The burst of the bucket that is held changes through \<open>SetRate\<close> only.\<close>

definition resized :: "('l \<Rightarrow> int) \<Rightarrow> 'l \<Rightarrow> 't other set \<Rightarrow> 'l \<Rightarrow> bool" where
  "resized cap lim ops lim' \<longleftrightarrow>
     cap lim' = cap lim \<or> (\<exists>now r. SetsRate now r \<in> ops \<and> 0 < sint r \<and> cap lim' = burstFor r)"

lemma bucket_step_cap: "xrate_spec X cap charged \<Longrightarrow> cap (bucket_step X op lim) = cap lim"
  by (cases op) (simp_all add: xrate_spec_def)

lemma SetRate_bucket:
  assumes "xrate_spec X cap charged" and "rl_limiter (SetRate X now r l) = Some lim"
  shows "0 < sint r \<and> cap lim = burstFor r"
  using assms by (auto simp: SetRate_def Let_def xrate_spec_def split: if_splits option.splits)

lemma other_step_cap:
  assumes "xrate_spec X cap charged" and "cap_ok cap (fst s)"
  shows "cap_ok cap (fst (other_step X op s))"
proof (cases op)
  case (SetsRate now r)
  then show ?thesis using SetRate_cap_ok [OF assms(1)] by (simp add: replaced_def split: prod.split)
qed (use assms(2) bucket_step_cap [OF assms(1)] in \<open>auto simp: replaced_def cap_ok_def Close_def split: prod.split\<close>)

lemma run_others_cap:
  "xrate_spec X cap charged \<Longrightarrow> cap_ok cap (fst s) \<Longrightarrow> cap_ok cap (fst (fold (other_step X) ops s))"
  by (induction ops arbitrary: s) (simp_all add: other_step_cap)

lemma other_step_resized:
  assumes "xrate_spec X cap charged" and "held s = Some lim"
  shows "\<exists>lim'. held (other_step X op s) = Some lim' \<and> resized cap lim {op} lim'"
proof -
  obtain l d where s: "s = (l, d)" by (cases s)
  show ?thesis
  proof (cases op)
    case (SetsRate now r)
    then show ?thesis
      using assms(2) SetRate_bucket [OF assms(1), of now r l]
      by (cases d; cases "rl_limiter (SetRate X now r l)") (auto simp: s held_def replaced_def resized_def)
  qed (use assms bucket_step_cap [OF assms(1)] in
      \<open>auto simp: s held_def replaced_def resized_def Close_def split: option.splits\<close>)
qed

lemma run_others_resized:
  assumes "xrate_spec X cap charged" and "held s = Some lim"
  shows "\<exists>lim'. held (fold (other_step X) ops s) = Some lim' \<and> resized cap lim (set ops) lim'"
  using assms(2)
proof (induction ops arbitrary: s lim)
  case (Cons op ops)
  from other_step_resized [OF assms(1) Cons.prems, of op] obtain lim1 where
    "held (other_step X op s) = Some lim1" "resized cap lim {op} lim1" by blast
  with Cons.IH [of "other_step X op s" lim1] show ?case by (fastforce simp: resized_def)
qed (simp add: resized_def)

text \<open>So a refused call had its snapshot before a change of the rate to a burst below the request.\<close>

definition shrunk :: "'t others \<Rightarrow> int \<Rightarrow> bool" where
  "shrunk R n \<longleftrightarrow> (\<exists>i now r. SetsRate now r \<in> set (between R i) \<and> 0 < sint r \<and> burstFor r < n)"

lemma held_WaitN:
  assumes "xrate_spec X cap charged" and "rl_inv l" and "cap_ok cap l" and "\<not> rl_disabled l"
    and "0 < m" and "m \<le> remaining"
    and "on_held (WaitN X (wait_chunk (rl_burst l) m)) None (run_others X (between R i) l) = (r, l')"
  shows "rl_inv l' \<and> cap_ok cap l' \<and> (r \<noteq> None \<longrightarrow> shrunk R remaining)"
proof -
  let ?c = "wait_chunk (rl_burst l) m" and ?s = "run_others X (between R i) l"
  from assms(2,4) obtain lim where lim: "rl_limiter l = Some lim" by (auto simp: rl_inv_def)
  have c: "0 < ?c" "?c \<le> cap lim" "?c \<le> remaining"
    using assms(3,5,6) lim rl_inv_burst [OF assms(2,4)] by (auto simp: wait_chunk_def cap_ok_def maxWriteChunk_def)
  obtain lim' where lim': "held ?s = Some lim'" "resized cap lim (set (between R i)) lim'"
    using run_others_resized [OF assms(1), of "(l, None)" lim "between R i"] lim by (auto simp: held_def)
  have "r \<noteq> None \<Longrightarrow> cap lim' < ?c"
    using WaitN_granted [OF assms(1) c(1), of lim'] fst_on_held [OF lim'(1), of "WaitN X ?c" None] assms(7)
    by (cases "?c \<le> cap lim'") auto
  with c lim'(2) have "r \<noteq> None \<Longrightarrow> shrunk R remaining" unfolding resized_def shrunk_def by force
  moreover have "cap_ok cap l'"
  proof -
    have "cap_ok cap (fst ?s)" using run_others_cap [OF assms(1), of "(l, None)"] assms(3) by simp
    moreover have "cap (snd (WaitN X ?c b)) = cap b" for b using assms(1) by (simp add: xrate_spec_def)
    ultimately show ?thesis
      using assms(7) by (auto simp: on_held_def cap_ok_def split: prod.splits option.splits) (metis snd_conv)
  qed
  moreover have "rl_inv l'"
    using on_held_inv [OF run_others_inv, of "(l, None)" "WaitN X ?c" None X "between R i"] assms(2,7) by simp
  ultimately show ?thesis by blast
qed

lemma Wait_loop_errors:
  assumes "xrate_spec X cap charged" and "rl_inv l" and "cap_ok cap l"
  shows "fst (Wait_loop X R i remaining l) \<in> {None, Some ErrLimiterClosed} \<or> shrunk R remaining"
proof (rule Wait_loop_induct [where J = "\<lambda>l. rl_inv l \<and> cap_ok cap l"
      and Q = "\<lambda>q. fst q \<in> {None, Some ErrLimiterClosed} \<or> shrunk R remaining"])
  fix i l assume "rl_inv l \<and> cap_ok cap l"
  with run_others_inv [of "(l, None)"] run_others_cap [OF assms(1), of "(l, None)"]
  show "rl_inv (fst (run_others X (before R i) l)) \<and> cap_ok cap (fst (run_others X (before R i) l))" by simp
next
  fix i m l r l'
  assume "rl_inv l \<and> cap_ok cap l" "\<not> rl_disabled l" "0 < m" "m \<le> remaining"
    and "on_held (WaitN X (wait_chunk (rl_burst l) m)) None (run_others X (between R i) l) = (r, l')"
  with held_WaitN [OF assms(1), of l m remaining R i r l']
  show "(rl_inv l' \<and> cap_ok cap l') \<and> (r \<noteq> None \<longrightarrow> fst (r, l') \<in> {None, Some ErrLimiterClosed} \<or> shrunk R remaining)"
    by blast
qed (simp_all add: assms)

section \<open>Runs of operations\<close>

datatype 't limiter_op =
  OpSetRate 't i64 | OpClose | OpWait "'t others" int | OpAllow "'t other list" 't int

fun limiter_step :: "('l, 't) xrate \<Rightarrow> 'l rate_limiter option \<Rightarrow> 't limiter_op \<Rightarrow> 'l rate_limiter option" where
  "limiter_step X l (OpSetRate now r) = map_option (SetRate X now r) l"
| "limiter_step X l OpClose = Close l"
| "limiter_step X l (OpWait R n) = snd (Wait X R n l)"
| "limiter_step X l (OpAllow ops now n) = snd (Allow X ops now n l)"

lemma limiter_step_inv: "rl_inv l \<Longrightarrow> \<exists>l'. limiter_step X (Some l) op = Some l' \<and> rl_inv l'"
proof (cases op)
  case (OpWait R n)
  assume "rl_inv l"
  moreover have "\<exists>l'. snd (Wait X R n (Some l)) = Some l'"
    by (auto simp: Wait_def split: prod.splits)
  ultimately show ?thesis using OpWait Wait_inv by fastforce
next
  case (OpAllow ops now n)
  assume "rl_inv l"
  moreover have "\<exists>l'. snd (Allow X ops now n (Some l)) = Some l'"
    by (auto simp: Allow_def limiter_snapshot_def split: prod.splits option.splits)
  ultimately show ?thesis using OpAllow Allow_inv by fastforce
qed (use SetRate_inv in \<open>auto simp: Close_def rl_inv_def [of "l\<lparr>rl_closed := _, rl_disabled := _, rl_rate := _, rl_burst := _, rl_limiter := _\<rparr>"]\<close>)

lemma limiter_run_inv: "rl_inv l \<Longrightarrow> \<exists>l'. foldl (limiter_step X) (Some l) ops = Some l' \<and> rl_inv l'"
proof (induction ops arbitrary: l)
  case Nil
  then show ?case by simp
next
  case (Cons op ops)
  then show ?case using limiter_step_inv [OF Cons.prems, of X op] by auto
qed

section \<open>Properties\<close>

text \<open>
  C13: Whatever rate is configured, the burst is at least one 64 KiB write chunk and fits an int;
  up to 46 GB/s (368 Gbit/s), where the product with the window still fits an int64, it is the
  200 ms share of the rate.
\<close>

theorem burstFor_window:
  "maxWriteChunk \<le> burstFor r \<and> burstFor r < 2 ^ 63
   \<and> (0 \<le> sint r \<and> sint r \<le> 46116860184 \<longrightarrow> burstFor r = max maxWriteChunk (sint r div 5))"
  using burstFor_bounds burstFor_exact by blast

theorem burstFor_window_witness: "burstFor 1250000 = 250000 \<and> burstFor 1000 = 65536"
  using burstFor_window [of 1250000] burstFor_window [of 1000] by (simp add: maxWriteChunk_def)

text \<open>
  C11: After any sequence of \<open>SetRate\<close>, \<open>Close\<close>, \<open>Wait\<close> and \<open>Allow\<close> on a limiter from
  \<open>NewRateLimiter\<close>, whatever other goroutines do to it inside the calls that wait, it either limits nothing (no bucket, no positive rate) or is open with a
  bucket and the burst of its rate.
\<close>

theorem limiter_invariant:
  "\<exists>l. foldl (limiter_step X) (Some (NewRateLimiter X now r)) ops = Some l \<and>
     (if rl_disabled l then rl_limiter l = None \<and> rl_burst l = 0 \<and> sint (rl_rate l) \<le> 0
      else rl_limiter l \<noteq> None \<and> \<not> rl_closed l \<and> rl_burst l = burstFor (rl_rate l)
        \<and> 0 < sint (rl_rate l))"
  using limiter_run_inv [OF NewRateLimiter_inv [of X now r], of X ops] by (simp add: rl_inv_def)

text \<open>
  C9: On an open limiter \<open>Wait n\<close> returns nil and charges the bucket exactly \<open>n\<close> bytes, in
  chunks of at most the burst, however large \<open>n\<close> is.
\<close>

theorem Wait_charges_all:
  assumes "xrate_spec X cap charged" and "0 < sint r" and "0 < n"
    and "NewRateLimiter X now r = l" and "rl_limiter l = Some lim"
  shows "\<exists>lim'. Wait X quiet n (Some l) = (None, Some (l\<lparr>rl_limiter := Some lim'\<rparr>))
    \<and> charged lim' = charged lim + n"
proof -
  have "rl_inv l" "cap_ok cap l"
    using NewRateLimiter_ok [OF assms(1)] assms(4) by auto
  then show ?thesis
    using Wait_loop_charges [OF assms(1) _ _ assms(5), of n 0] assms(3)
    by (fastforce simp: Wait_def)
qed

theorem Wait_charges_all_witness:
  "\<exists>lim'. Wait counting_xrate quiet 200000 (Some (NewRateLimiter counting_xrate () 1000))
      = (None, Some (NewRateLimiter counting_xrate () 1000\<lparr>rl_limiter := Some lim'\<rparr>))
    \<and> snd lim' = 265536"
proof -
  have "rl_limiter (NewRateLimiter counting_xrate () 1000) = Some (65536, 65536)"
    using burstFor_window [of 1000]
    by (simp add: NewRateLimiter_def SetRate_def zero_limiter_def counting_xrate_def maxWriteChunk_def Let_def)
  from Wait_charges_all [OF counting_xrate_spec _ _ refl this, of 200000] show ?thesis by simp
qed

text \<open>
  C12: Other goroutines may change the rate, close the limiter or use its bucket before a snapshot of
  \<open>Wait\<close> and between the snapshot and the call of the bucket, in any order. A request of at most 64 KiB,
  the chunk of the connection wrappers, still fails only because the limiter was closed. A larger request
  may also be refused by the bucket, but only when a \<open>SetRate\<close> to a burst below it falls between a snapshot
  and its call.
\<close>

theorem Wait_refusals:
  assumes "xrate_spec X cap charged"
    and "Wait X R n (Some (NewRateLimiter X now r)) = (err, l')"
  shows "err = None \<or> err = Some ErrLimiterClosed
    \<or> (maxWriteChunk < n \<and> (\<exists>i now r. SetsRate now r \<in> set (between R i) \<and> 0 < sint r \<and> burstFor r < n))"
proof -
  note ok = NewRateLimiter_ok [OF assms(1), of now r]
  have "err = None \<or> err = Some ErrLimiterClosed \<or> shrunk R n"
    using Wait_loop_errors [OF assms(1), of "NewRateLimiter X now r" R 0 n] ok assms(2)
    by (auto simp: Wait_def Let_def case_prod_unfold split: if_splits)
  moreover have "maxWriteChunk < n" if "burstFor r' < n" for r' using burstFor_bounds(1) [of r'] that by linarith
  ultimately show ?thesis by (auto simp: shrunk_def)
qed

text \<open>A bucket of 2 MB shrinks to 64 KiB after the snapshot of a caller that wants 200000 bytes.\<close>

definition shrinking :: "unit others" where
  "shrinking = \<lparr>before = (\<lambda>i. []), between = (\<lambda>i. [SetsRate () 1000])\<rparr>"

lemma racing_SetRate_refuses:
  "fst (Wait counting_xrate shrinking 200000 (Some (NewRateLimiter counting_xrate () 10000000)))
     = Some (Extern ''rate: Wait(n) exceeds limiter's burst'')"
proof -
  have burst: "burstFor 10000000 = 2000000" "burstFor 1000 = 65536"
    using burstFor_exact [of 10000000] burstFor_exact [of 1000] by (simp_all add: maxWriteChunk_def)
  then show ?thesis
    by (simp add: Wait_def Wait_loop.simps [of _ _ 0] NewRateLimiter_def SetRate_def zero_limiter_def shrinking_def
        limiter_snapshot_def wait_chunk_def on_held_def replaced_def counting_xrate_def Let_def)
qed

theorem Wait_refusals_witness:
  "fst (Wait counting_xrate shrinking 65536 (Some (NewRateLimiter counting_xrate () 10000000))) \<in> {None, Some ErrLimiterClosed}
   \<and> (\<exists>i now r. SetsRate now r \<in> set (between shrinking i) \<and> 0 < sint r \<and> burstFor r < 200000)"
proof -
  have refusals: "err = None \<or> err = Some ErrLimiterClosed
      \<or> (maxWriteChunk < n \<and> (\<exists>i now r. SetsRate now r \<in> set (between shrinking i) \<and> 0 < sint r \<and> burstFor r < n))"
    if "fst (Wait counting_xrate shrinking n (Some (NewRateLimiter counting_xrate () 10000000))) = err" for n err
    using Wait_refusals [OF counting_xrate_spec prod.collapse [symmetric], of shrinking n "()" 10000000] that by simp
  from refusals [of 65536, OF refl] refusals [OF racing_SetRate_refuses] show ?thesis
    by (auto simp: maxWriteChunk_def)
qed

end
