(* ===== verification/User_Manager.thy ===== *)
theory User_Manager
  imports Panel Rate_Limiter
begin

text \<open>
  \<open>UserManager\<close> of \<open>cmd/star1ight-agent/user_manager.go\<close>: the users the panel last sent, their
  secrets, the node's limiters and the limiters of the users, with \<open>ApplyBox\<close>, which brings the
  inbounds of the sing-box core up to date, \<open>Resolve\<close>, \<open>ActiveIDs\<close> and \<open>DirectionalLimiters\<close>.

  Connections keep pointers to limiters, so limiters live in a store and a \<open>*RateLimiter\<close> is an
  address. The inbounds belong to the core: \<open>core\<close> is the record of their \<open>AddUsers\<close> and \<open>DelUsers\<close>
  over its state. The build tag \<open>nouserlimit\<close> is the argument \<open>userRateLimitBuildEnabled\<close>. The calls
  of \<open>time.Now\<close> within one operation read one instant.
\<close>

section \<open>Limiters\<close>

record 'l limiter_store =
  lim :: "nat \<Rightarrow> 'l rate_limiter"
  lim_fresh :: nat

record limiter_pair =
  rx :: nat
  tx :: nat

definition new_limiter :: "'l rate_limiter \<Rightarrow> 'l limiter_store \<Rightarrow> nat \<times> 'l limiter_store" where
  "new_limiter l st = (lim_fresh st, st\<lparr>lim := (lim st)(lim_fresh st := l), lim_fresh := Suc (lim_fresh st)\<rparr>)"

definition newLimiterPair :: "('l, 't) xrate \<Rightarrow> 't \<Rightarrow> i64 \<Rightarrow> 'l limiter_store \<Rightarrow> limiter_pair \<times> 'l limiter_store" where
  "newLimiterPair X now bytesPerSecond st =
     (let (a, st) = new_limiter (NewRateLimiter X now bytesPerSecond) st;
          (b, st) = new_limiter (NewRateLimiter X now bytesPerSecond) st
      in (\<lparr>rx = a, tx = b\<rparr>, st))"

definition pair_SetRate :: "('l, 't) xrate \<Rightarrow> 't \<Rightarrow> i64 \<Rightarrow> limiter_pair \<Rightarrow> 'l limiter_store \<Rightarrow> 'l limiter_store" where
  "pair_SetRate X now bytesPerSecond p st =
     (let st = st\<lparr>lim := (lim st)(rx p := SetRate X now bytesPerSecond (lim st (rx p)))\<rparr>
      in st\<lparr>lim := (lim st)(tx p := SetRate X now bytesPerSecond (lim st (tx p)))\<rparr>)"

definition pair_Close :: "limiter_pair \<Rightarrow> 'l limiter_store \<Rightarrow> 'l limiter_store" where
  "pair_Close p st =
     (let st = st\<lparr>lim := (lim st)(rx p := the (Close (Some (lim st (rx p)))))\<rparr>
      in st\<lparr>lim := (lim st)(tx p := the (Close (Some (lim st (tx p)))))\<rparr>)"

definition mbpsToBytes :: "i64 \<Rightarrow> i64" where
  "mbpsToBytes mbps = (if sint mbps \<le> 0 then 0 else i64_div (mbps * 1000 * 1000) 8)"

section \<open>State\<close>

record user_manager =
  um_users :: "(i64, user) gomap"
  bySecret :: "(string, i64) gomap"
  nodeLimit :: "limiter_pair option"
  limiters :: "(i64, limiter_pair) gomap"

definition NewUserManager :: "('l, 't) xrate \<Rightarrow> 't \<Rightarrow> i64 \<Rightarrow> 'l limiter_store \<Rightarrow> user_manager \<times> 'l limiter_store" where
  "NewUserManager X now nodeMbps st =
     (let (nodeLim, st) =
        (if 0 < sint nodeMbps then (let (p, st) = newLimiterPair X now (mbpsToBytes nodeMbps) st in (Some p, st))
         else (None, st))
      in (\<lparr>um_users = [], bySecret = [], nodeLimit = nodeLim, limiters = []\<rparr>, st))"

definition sameUser :: "user \<Rightarrow> user \<Rightarrow> bool" where
  "sameUser a b \<longleftrightarrow>
     ID a = ID b \<and> UUID a = UUID b \<and> Password a = Password b \<and> Name a = Name b \<and> SpeedLimit a = SpeedLimit b"

record vless_user =
  vu_Name :: string
  vu_UUID :: string
  vu_Flow :: string

definition vlessUserFromPanelUser :: "user \<Rightarrow> vless_user" where
  "vlessUserFromPanelUser u = \<lparr>vu_Name = UUID u, vu_UUID = UUID u, vu_Flow = ''xtls-rprx-vision''\<rparr>"

text \<open>A Hysteria2 or Shadowsocks user: name and password.\<close>

type_synonym named_user = "string \<times> string"

definition shadowsocksUserFromPanelUser :: "user \<Rightarrow> named_user" where
  "shadowsocksUserFromPanelUser u = (Itoa (ID u), Password u)"

section \<open>Limiter upkeep\<close>

definition closeLimiterLocked :: "i64 \<Rightarrow> user_manager \<times> 'l limiter_store \<Rightarrow> user_manager \<times> 'l limiter_store" where
  "closeLimiterLocked uid ms =
     (case ms of (m, st) \<Rightarrow>
        (case mget (limiters m) uid of
           None \<Rightarrow> (m, st)
         | Some p \<Rightarrow> (m\<lparr>limiters := mdel uid (limiters m)\<rparr>, pair_Close p st)))"

definition updateLimiterLocked ::
  "bool \<Rightarrow> ('l, 't) xrate \<Rightarrow> 't \<Rightarrow> user \<Rightarrow> user_manager \<times> 'l limiter_store \<Rightarrow> user_manager \<times> 'l limiter_store" where
  "updateLimiterLocked userRateLimitBuildEnabled X now u ms =
     (if \<not> userRateLimitBuildEnabled \<or> sint (SpeedLimit u) \<le> 0 then closeLimiterLocked (ID u) ms
      else
        (case ms of (m, st) \<Rightarrow>
           let bytesPerSecond = mbpsToBytes (SpeedLimit u)
           in case mget (limiters m) (ID u) of
                Some l \<Rightarrow> (m, pair_SetRate X now bytesPerSecond l st)
              | None \<Rightarrow>
                  (let (p, st) = newLimiterPair X now bytesPerSecond st
                   in (m\<lparr>limiters := mput (ID u) p (limiters m)\<rparr>, st))))"

section \<open>ApplyBox\<close>

definition next_users :: "user list \<Rightarrow> (i64, user) gomap" where
  "next_users users = fold (\<lambda>u next. if sint (ID u) \<le> 0 then next else mput (ID u) u next) users []"

definition next_secrets :: "user list \<Rightarrow> (string, i64) gomap" where
  "next_secrets users =
     fold (\<lambda>u secrets.
         if sint (ID u) \<le> 0 then secrets
         else fold (\<lambda>secret secrets. if secret \<noteq> [] then mput secret (ID u) secrets else secrets)
                [UUID u, Password u, Name u] secrets)
       users []"

text \<open>The seven lists of users to delete from and to add to the inbounds.\<close>

record changes =
  addVless :: "vless_user list"
  delVless :: "string list"
  addHy2 :: "named_user list"
  addHy2IDs :: "i64 list"
  delHy2 :: "string list"
  addSS :: "named_user list"
  delSS :: "string list"

definition no_changes :: changes where
  "no_changes = \<lparr>addVless = [], delVless = [], addHy2 = [], addHy2IDs = [], delHy2 = [], addSS = [], delSS = []\<rparr>"

definition del_user :: "user \<Rightarrow> changes \<Rightarrow> changes" where
  "del_user old ch =
     (let ch = (if UUID old \<noteq> [] then ch\<lparr>delVless := delVless ch @ [UUID old]\<rparr> else ch)
      in if Password old \<noteq> []
         then ch\<lparr>delHy2 := delHy2 ch @ [Password old], delSS := delSS ch @ [Itoa (ID old)]\<rparr> else ch)"

definition add_user :: "user \<Rightarrow> changes \<Rightarrow> changes" where
  "add_user nu ch =
     (let ch = (if UUID nu \<noteq> [] then ch\<lparr>addVless := addVless ch @ [vlessUserFromPanelUser nu]\<rparr> else ch)
      in if Password nu \<noteq> [] then
           (let name = (if Name nu = [] then Password nu else Name nu)
            in ch\<lparr>addHy2 := addHy2 ch @ [(name, Password nu)], addHy2IDs := addHy2IDs ch @ [ID nu],
                 addSS := addSS ch @ [shadowsocksUserFromPanelUser nu]\<rparr>)
         else ch)"

text \<open>The loop over the old users, and the loop over the new ones in the order of their identifiers.\<close>

definition old_user ::
  "(i64, user) gomap \<Rightarrow> i64 \<times> user \<Rightarrow> changes \<times> user_manager \<times> 'l limiter_store
   \<Rightarrow> changes \<times> user_manager \<times> 'l limiter_store" where
  "old_user next e s =
     (case e of (uid, old) \<Rightarrow> case s of (ch, ms) \<Rightarrow>
        (case mget next uid of
           None \<Rightarrow> (del_user old ch, closeLimiterLocked uid ms)
         | Some nu \<Rightarrow>
             if UUID old \<noteq> UUID nu \<or> Password old \<noteq> Password nu \<or> Name old \<noteq> Name nu
             then (del_user old ch, ms) else (ch, ms)))"

definition new_user ::
  "bool \<Rightarrow> ('l, 't) xrate \<Rightarrow> 't \<Rightarrow> (i64, user) gomap \<Rightarrow> (i64, user) gomap \<Rightarrow> i64
   \<Rightarrow> changes \<times> user_manager \<times> 'l limiter_store \<Rightarrow> changes \<times> user_manager \<times> 'l limiter_store" where
  "new_user enabled X now olds next uid s =
     (case s of (ch, ms) \<Rightarrow> case mget next uid of
        None \<Rightarrow> s
      | Some nu \<Rightarrow>
          (case mget olds uid of
             Some old \<Rightarrow>
               if sameUser old nu then (ch, updateLimiterLocked enabled X now nu ms)
               else (add_user nu ch, updateLimiterLocked enabled X now nu ms)
           | None \<Rightarrow> (add_user nu ch, updateLimiterLocked enabled X now nu ms)))"

definition nextIDs :: "(i64, user) gomap \<Rightarrow> i64 list" where
  "nextIDs next = sort_key sint (mkeys next)"

definition plan_changes ::
  "bool \<Rightarrow> ('l, 't) xrate \<Rightarrow> 't \<Rightarrow> user list \<Rightarrow> user_manager \<times> 'l limiter_store
   \<Rightarrow> changes \<times> user_manager \<times> 'l limiter_store" where
  "plan_changes enabled X now users ms =
     (let next = next_users users; olds = um_users (fst ms);
          s = fold (old_user next) olds (no_changes, ms)
      in fold (new_user enabled X now olds next) (nextIDs next) s)"

datatype inbound_kind = VLESS | Hysteria2 | Shadowsocks | OtherInbound

record 'w core =
  del_vless :: "string \<Rightarrow> string list \<Rightarrow> 'w \<Rightarrow> error option \<times> 'w"
  add_vless :: "string \<Rightarrow> vless_user list \<Rightarrow> 'w \<Rightarrow> error option \<times> 'w"
  del_hy2 :: "string \<Rightarrow> string list \<Rightarrow> 'w \<Rightarrow> error option \<times> 'w"
  add_hy2 :: "string \<Rightarrow> named_user list \<Rightarrow> i64 list \<Rightarrow> 'w \<Rightarrow> error option \<times> 'w"
  del_ss :: "string \<Rightarrow> string list \<Rightarrow> 'w \<Rightarrow> error option \<times> 'w"
  add_ss :: "string \<Rightarrow> named_user list \<Rightarrow> 'w \<Rightarrow> error option \<times> 'w"

text \<open>Deleting, then adding, each only when there is something to do.\<close>

definition del_then_add ::
  "bool \<Rightarrow> ('w \<Rightarrow> error option \<times> 'w) \<Rightarrow> string \<Rightarrow> bool \<Rightarrow> ('w \<Rightarrow> error option \<times> 'w) \<Rightarrow> string \<Rightarrow> 'w \<Rightarrow> error option \<times> 'w" where
  "del_then_add anyDel del delMsg anyAdd add addMsg w =
     (case (if anyDel then del w else (None, w)) of
        (Some err, w) \<Rightarrow> (Some (Wrap delMsg err), w)
      | (None, w) \<Rightarrow>
          (case (if anyAdd then add w else (None, w)) of
             (Some err, w) \<Rightarrow> (Some (Wrap addMsg err), w)
           | (None, w) \<Rightarrow> (None, w)))"

definition apply_inbound :: "'w core \<Rightarrow> changes \<Rightarrow> string \<times> inbound_kind \<Rightarrow> 'w \<Rightarrow> error option \<times> 'w" where
  "apply_inbound C ch e w =
     (case e of (tag, kind) \<Rightarrow>
        (case kind of
           VLESS \<Rightarrow>
             del_then_add (delVless ch \<noteq> []) (del_vless C tag (delVless ch)) (''delete vless users from '' @ tag)
               (addVless ch \<noteq> []) (add_vless C tag (addVless ch)) (''add vless users to '' @ tag) w
         | Hysteria2 \<Rightarrow>
             del_then_add (delHy2 ch \<noteq> []) (del_hy2 C tag (delHy2 ch)) (''delete hysteria2 users from '' @ tag)
               (addHy2 ch \<noteq> []) (add_hy2 C tag (addHy2 ch) (addHy2IDs ch)) (''add hysteria2 users to '' @ tag) w
         | Shadowsocks \<Rightarrow>
             del_then_add (delSS ch \<noteq> []) (del_ss C tag (delSS ch)) (''delete shadowsocks users from '' @ tag)
               (addSS ch \<noteq> []) (add_ss C tag (addSS ch)) (''add shadowsocks users to '' @ tag) w
         | OtherInbound \<Rightarrow> (None, w)))"

fun apply_inbounds :: "'w core \<Rightarrow> changes \<Rightarrow> (string, inbound_kind) gomap \<Rightarrow> 'w \<Rightarrow> error option \<times> 'w" where
  "apply_inbounds C ch [] w = (None, w)"
| "apply_inbounds C ch (e # es) w =
     (case apply_inbound C ch e w of
        (Some err, w) \<Rightarrow> (Some err, w)
      | (None, w) \<Rightarrow> apply_inbounds C ch es w)"

definition ApplyBox ::
  "bool \<Rightarrow> ('l, 't) xrate \<Rightarrow> 't \<Rightarrow> 'w core \<Rightarrow> (string, inbound_kind) gomap \<Rightarrow> user list \<Rightarrow>
   user_manager \<times> 'l limiter_store \<Rightarrow> 'w \<Rightarrow> error option \<times> (user_manager \<times> 'l limiter_store) \<times> 'w" where
  "ApplyBox enabled X now C inbounds users ms w =
     (let (ch, ms) = plan_changes enabled X now users ms
      in case apply_inbounds C ch inbounds w of
           (Some err, w) \<Rightarrow> (Some err, ms, w)
         | (None, w) \<Rightarrow>
             (None, ((fst ms)\<lparr>um_users := next_users users, bySecret := next_secrets users\<rparr>, snd ms), w))"

section \<open>Queries\<close>

definition Resolve :: "user_manager \<Rightarrow> string \<Rightarrow> string" where
  "Resolve m user =
     (if user = [] then []
      else (case mget (bySecret m) user of Some uid \<Rightarrow> Itoa uid | None \<Rightarrow> user))"

definition ActiveIDs :: "user_manager \<Rightarrow> (string, unit) gomap" where
  "ActiveIDs m = fold (\<lambda>(uid, u) out. mput (Itoa uid) () out) (um_users m) []"

definition DirectionalLimiters ::
  "bool \<Rightarrow> user_manager \<Rightarrow> string \<Rightarrow> nat option \<times> nat option \<times> nat option \<times> nat option" where
  "DirectionalLimiters userRateLimitBuildEnabled m user =
     (let (nodeRead, nodeWrite) =
        (case nodeLimit m of None \<Rightarrow> (None, None) | Some p \<Rightarrow> (Some (rx p), Some (tx p)));
          (userRead, userWrite) =
        (if userRateLimitBuildEnabled then
           (case mget (bySecret m) user of
              None \<Rightarrow> (None, None)
            | Some uid \<Rightarrow>
                (case mget (limiters m) uid of
                   None \<Rightarrow> (None, None) | Some p \<Rightarrow> (Some (rx p), Some (tx p))))
         else (None, None))
      in (nodeRead, nodeWrite, userRead, userWrite))"

text \<open>\<open>Limiters\<close>, for inspection.\<close>

definition Limiters :: "bool \<Rightarrow> user_manager \<Rightarrow> string \<Rightarrow> nat option \<times> nat option" where
  "Limiters userRateLimitBuildEnabled m user =
     (map_option rx (nodeLimit m),
      if userRateLimitBuildEnabled then
        (case mget (bySecret m) user of
           None \<Rightarrow> None
         | Some uid \<Rightarrow> map_option rx (mget (limiters m) uid))
      else None)"

section \<open>Who owns which limiters\<close>

text \<open>The pair of an owner: the node (\<open>None\<close>) or a user. Pairs do not share limiters.\<close>

definition pair_of :: "user_manager \<Rightarrow> i64 option \<Rightarrow> limiter_pair option" where
  "pair_of m k = (case k of None \<Rightarrow> nodeLimit m | Some uid \<Rightarrow> mget (limiters m) uid)"

definition lim_inv :: "user_manager \<times> 'l limiter_store \<Rightarrow> bool" where
  "lim_inv ms \<longleftrightarrow>
     (\<forall>k p. pair_of (fst ms) k = Some p \<longrightarrow> rx p < lim_fresh (snd ms) \<and> tx p < lim_fresh (snd ms) \<and> rx p \<noteq> tx p)
     \<and> (\<forall>k k' p p'. pair_of (fst ms) k = Some p \<longrightarrow> pair_of (fst ms) k' = Some p' \<longrightarrow> k \<noteq> k' \<longrightarrow>
          {rx p, tx p} \<inter> {rx p', tx p'} = {})"

text \<open>The rates an owner's two limiters have.\<close>

definition rates :: "user_manager \<times> 'l limiter_store \<Rightarrow> i64 option \<Rightarrow> (i64 \<times> i64) option" where
  "rates ms k = map_option (\<lambda>p. (Rate (lim (snd ms) (rx p)), Rate (lim (snd ms) (tx p)))) (pair_of (fst ms) k)"

lemma Rate_SetRate [simp]: "Rate (SetRate X now r l) = r"
  by (simp add: Rate_def SetRate_def Let_def)

lemma Rate_NewRateLimiter [simp]: "Rate (NewRateLimiter X now r) = r"
  by (simp add: NewRateLimiter_def)

lemma pair_of_cong: "limiters m' = limiters m \<Longrightarrow> nodeLimit m' = nodeLimit m \<Longrightarrow> pair_of m' = pair_of m"
  by (simp add: pair_of_def fun_eq_iff split: option.split)

lemma lim_invD:
  assumes "lim_inv (m, st)" and "pair_of m k = Some p"
  shows "rx p < lim_fresh st" "tx p < lim_fresh st" "rx p \<noteq> tx p"
    "k \<noteq> k' \<Longrightarrow> pair_of m k' = Some p' \<Longrightarrow> rx p' \<notin> {rx p, tx p} \<and> tx p' \<notin> {rx p, tx p}"
  using assms unfolding lim_inv_def by (fastforce simp: disjoint_iff)+

lemma rates_change:
  assumes "lim_inv (m, st)" and "pair_of m k0 = Some p0"
    and "\<And>a. a \<noteq> rx p0 \<Longrightarrow> a \<noteq> tx p0 \<Longrightarrow> lim st' a = lim st a" and "k \<noteq> k0"
  shows "rates (m, st') k = rates (m, st) k"
proof (cases "pair_of m k")
  case None
  then show ?thesis by (simp add: rates_def)
next
  case (Some p)
  from lim_invD(4) [OF assms(1,2) _ Some] assms(4) have "rx p \<notin> {rx p0, tx p0}" "tx p \<notin> {rx p0, tx p0}" by auto
  with Some assms(3) show ?thesis by (simp add: rates_def)
qed

lemma close_limiter:
  assumes "lim_inv ms"
  shows "lim_inv (closeLimiterLocked uid ms)"
    and "rates (closeLimiterLocked uid ms) k = (if k = Some uid then None else rates ms k)"
proof -
  obtain m st where ms: "ms = (m, st)" by (cases ms)
  have "lim_inv (closeLimiterLocked uid ms)
    \<and> rates (closeLimiterLocked uid ms) k = (if k = Some uid then None else rates ms k)"
  proof (cases "mget (limiters m) uid")
    case None
    then have "rates ms (Some uid) = None" by (simp add: ms rates_def pair_of_def)
    with None assms show ?thesis by (simp add: ms closeLimiterLocked_def)
  next
    case (Some p)
    let ?m = "m\<lparr>limiters := mdel uid (limiters m)\<rparr>"
    have eq: "closeLimiterLocked uid ms = (?m, pair_Close p st)" using Some by (simp add: ms closeLimiterLocked_def)
    have po: "pair_of ?m k' = (if k' = Some uid then None else pair_of m k')" for k'
      by (simp add: pair_of_def mget_mdel split: option.split)
    have p: "pair_of m (Some uid) = Some p" using Some by (simp add: pair_of_def)
    have fresh: "lim_fresh (pair_Close p st) = lim_fresh st" by (simp add: pair_Close_def Let_def)
    have other: "a \<noteq> rx p \<Longrightarrow> a \<noteq> tx p \<Longrightarrow> lim (pair_Close p st) a = lim st a" for a
      by (simp add: pair_Close_def Let_def)
    have "lim_inv (?m, pair_Close p st)"
      using assms unfolding ms lim_inv_def fst_conv snd_conv po fresh by (auto split: if_splits)
    moreover have "rates (?m, pair_Close p st) k = (if k = Some uid then None else rates ms k)"
      using rates_change [OF assms [unfolded ms] p other, of k] by (auto simp: rates_def po ms)
    ultimately show ?thesis by (simp add: eq)
  qed
  then show "lim_inv (closeLimiterLocked uid ms)"
    "rates (closeLimiterLocked uid ms) k = (if k = Some uid then None else rates ms k)" by auto
qed

text \<open>The rates \<open>updateLimiterLocked\<close> gives a user.\<close>

definition wanted :: "bool \<Rightarrow> user \<Rightarrow> (i64 \<times> i64) option" where
  "wanted enabled u =
     (if enabled \<and> 0 < sint (SpeedLimit u) then Some (mbpsToBytes (SpeedLimit u), mbpsToBytes (SpeedLimit u))
      else None)"

lemma new_pair:
  assumes "lim_inv (m, st)" and "mget (limiters m) uid = None" and "newLimiterPair X now r st = (p, st')"
  shows "lim_inv (m\<lparr>limiters := mput uid p (limiters m)\<rparr>, st')"
    and "rates (m\<lparr>limiters := mput uid p (limiters m)\<rparr>, st') k = (if k = Some uid then Some (r, r) else rates (m, st) k)"
proof -
  let ?m = "m\<lparr>limiters := mput uid p (limiters m)\<rparr>"
  have p: "rx p = lim_fresh st" "tx p = Suc (lim_fresh st)" "lim_fresh st' = Suc (Suc (lim_fresh st))"
    "lim st' (rx p) = NewRateLimiter X now r" "lim st' (tx p) = NewRateLimiter X now r"
    "\<And>a. a < lim_fresh st \<Longrightarrow> lim st' a = lim st a"
    using assms(3) by (auto simp: newLimiterPair_def new_limiter_def Let_def)
  have po: "pair_of ?m k' = (if k' = Some uid then Some p else pair_of m k')" for k'
    by (simp add: pair_of_def mget_mput split: option.split)
  note old = lim_invD [OF assms(1)]
  show "lim_inv (?m, st')"
    unfolding lim_inv_def fst_conv snd_conv po p(3)
  proof (intro conjI allI impI)
    fix k q assume "(if k = Some uid then Some p else pair_of m k) = Some q"
    then show "rx q < Suc (Suc (lim_fresh st))" "tx q < Suc (Suc (lim_fresh st))" "rx q \<noteq> tx q"
      using p(1,2) old(1,2,3) [of k q] by (auto split: if_splits)
  next
    fix k k' q q'
    assume "(if k = Some uid then Some p else pair_of m k) = Some q"
      "(if k' = Some uid then Some p else pair_of m k') = Some q'" "k \<noteq> k'"
    then show "{rx q, tx q} \<inter> {rx q', tx q'} = {}"
      using p(1,2) old(1,2) [of k q] old(1,2) [of k' q'] old(4) [of k q k' q'] by (auto split: if_splits)
  qed
  show "rates (?m, st') k = (if k = Some uid then Some (r, r) else rates (m, st) k)"
  proof (cases "k = Some uid")
    case True
    then show ?thesis by (simp add: rates_def po p(4,5))
  next
    case False
    then show ?thesis using old(1,2) [of k] p(6) by (cases "pair_of m k") (auto simp: rates_def po)
  qed
qed

lemma update_limiter:
  assumes "lim_inv ms"
  shows "lim_inv (updateLimiterLocked enabled X now u ms)"
    and "rates (updateLimiterLocked enabled X now u ms) k = (if k = Some (ID u) then wanted enabled u else rates ms k)"
proof -
  obtain m st where ms: "ms = (m, st)" by (cases ms)
  let ?r = "mbpsToBytes (SpeedLimit u)"
  have "lim_inv (updateLimiterLocked enabled X now u ms)
    \<and> rates (updateLimiterLocked enabled X now u ms) k = (if k = Some (ID u) then wanted enabled u else rates ms k)"
  proof (cases "\<not> enabled \<or> sint (SpeedLimit u) \<le> 0")
    case True
    then show ?thesis
      using close_limiter [OF assms] by (auto simp: updateLimiterLocked_def wanted_def)
  next
    case False
    then have w: "wanted enabled u = Some (?r, ?r)" by (simp add: wanted_def)
    show ?thesis
    proof (cases "mget (limiters m) (ID u)")
      case None
      obtain p st' where new: "newLimiterPair X now ?r st = (p, st')" by fastforce
      with False None have "updateLimiterLocked enabled X now u ms = (m\<lparr>limiters := mput (ID u) p (limiters m)\<rparr>, st')"
        by (simp add: updateLimiterLocked_def ms Let_def)
      with new_pair [OF assms [unfolded ms] None new] show ?thesis by (simp add: w ms)
    next
      case (Some p)
      let ?st = "pair_SetRate X now ?r p st"
      have eq: "updateLimiterLocked enabled X now u ms = (m, ?st)"
        using False Some by (simp add: updateLimiterLocked_def ms Let_def)
      have p: "pair_of m (Some (ID u)) = Some p" using Some by (simp add: pair_of_def)
      have st: "lim_fresh ?st = lim_fresh st" "\<And>a. a \<noteq> rx p \<Longrightarrow> a \<noteq> tx p \<Longrightarrow> lim ?st a = lim st a"
        by (simp_all add: pair_SetRate_def Let_def)
      have "Rate (lim ?st (rx p)) = ?r" "Rate (lim ?st (tx p)) = ?r"
        by (simp_all add: pair_SetRate_def Let_def)
      with p have "rates (m, ?st) (Some (ID u)) = Some (?r, ?r)" by (simp add: rates_def)
      moreover have "lim_inv (m, ?st)" using assms by (simp add: ms lim_inv_def st(1))
      ultimately show ?thesis
        using rates_change [OF assms [unfolded ms] p st(2), of k] unfolding eq w by (auto simp: ms)
    qed
  qed
  then show "lim_inv (updateLimiterLocked enabled X now u ms)"
    "rates (updateLimiterLocked enabled X now u ms) k = (if k = Some (ID u) then wanted enabled u else rates ms k)"
    by auto
qed

section \<open>The plan\<close>

lemma update_fst: "um_users (fst (closeLimiterLocked uid ms)) = um_users (fst ms)"
  "um_users (fst (updateLimiterLocked enabled X now u ms)) = um_users (fst ms)"
  by (cases ms, auto simp: closeLimiterLocked_def updateLimiterLocked_def Let_def split: option.splits prod.splits)+

lemma fold_old_limiters:
  assumes "lim_inv ms" and "fold (old_user next) olds (ch, ms) = (ch', ms')"
  shows "lim_inv ms'"
    and "rates ms' k = (case k of
        Some uid \<Rightarrow> if uid \<in> fst ` set olds \<and> mget next uid = None then None else rates ms k
      | None \<Rightarrow> rates ms k)"
proof -
  have "lim_inv ms' \<and> rates ms' k = (case k of
        Some uid \<Rightarrow> if uid \<in> fst ` set olds \<and> mget next uid = None then None else rates ms k
      | None \<Rightarrow> rates ms k)"
    using assms
  proof (induction olds arbitrary: ch ms)
    case Nil
    then show ?case by (auto split: option.split)
  next
    case (Cons e olds)
    obtain uid old where e: "e = (uid, old)" by (cases e)
    obtain ch1 ms1 where s1: "old_user next e (ch, ms) = (ch1, ms1)" by (metis prod.exhaust)
    have "lim_inv ms1" and r: "rates ms1 k = (if k = Some uid \<and> mget next uid = None then None else rates ms k)"
      using s1 Cons.prems(1) close_limiter [OF Cons.prems(1)]
      by (auto simp: e old_user_def split: option.splits if_splits)
    with Cons.IH [of ms1 ch1] Cons.prems(2) s1 show ?case by (auto simp: e split: option.splits)
  qed
  then show "lim_inv ms'" "rates ms' k = (case k of
        Some uid \<Rightarrow> if uid \<in> fst ` set olds \<and> mget next uid = None then None else rates ms k
      | None \<Rightarrow> rates ms k)" by auto
qed

lemma fold_new_limiters:
  assumes "lim_inv ms" and "fold (new_user enabled X now olds next) ids (ch, ms) = (ch', ms')"
    and "\<forall>uid nu. mget next uid = Some nu \<longrightarrow> ID nu = uid"
  shows "lim_inv ms'"
    and "rates ms' k = (case k of
        Some uid \<Rightarrow>
          (case mget next uid of Some nu \<Rightarrow> if uid \<in> set ids then wanted enabled nu else rates ms k
           | None \<Rightarrow> rates ms k)
      | None \<Rightarrow> rates ms k)"
proof -
  have "lim_inv ms' \<and> rates ms' k = (case k of
        Some uid \<Rightarrow>
          (case mget next uid of Some nu \<Rightarrow> if uid \<in> set ids then wanted enabled nu else rates ms k
           | None \<Rightarrow> rates ms k)
      | None \<Rightarrow> rates ms k)"
    using assms(1,2)
  proof (induction ids arbitrary: ch ms)
    case Nil
    then show ?case by (auto split: option.split)
  next
    case (Cons uid ids)
    obtain ch1 ms1 where s1: "new_user enabled X now olds next uid (ch, ms) = (ch1, ms1)" by (metis prod.exhaust)
    have "lim_inv ms1" and r: "rates ms1 k = (case mget next uid of
        Some nu \<Rightarrow> if k = Some uid then wanted enabled nu else rates ms k | None \<Rightarrow> rates ms k)"
      using s1 Cons.prems(1) update_limiter [OF Cons.prems(1), where enabled = enabled and X = X and now = now] assms(3)
      by (auto simp: new_user_def split: option.splits if_splits)
    with Cons.IH [of ms1 ch1] Cons.prems(2) s1 show ?case by (auto split: option.splits)
  qed
  then show "lim_inv ms'" "rates ms' k = (case k of
        Some uid \<Rightarrow>
          (case mget next uid of Some nu \<Rightarrow> if uid \<in> set ids then wanted enabled nu else rates ms k
           | None \<Rightarrow> rates ms k)
      | None \<Rightarrow> rates ms k)" by auto
qed

lemma next_users_wf: "wf_map (next_users users)"
  unfolding next_users_def by (rule fold_invariant) (auto simp: wf_mput)

lemma next_users_ID: "mget (next_users users) uid = Some nu \<Longrightarrow> ID nu = uid \<and> 0 < sint uid \<and> nu \<in> set users"
proof -
  have "\<forall>uid nu. mget (next_users users) uid = Some nu \<longrightarrow> ID nu = uid \<and> 0 < sint uid \<and> nu \<in> set users"
    unfolding next_users_def by (rule fold_invariant) (auto simp: mget_mput split: if_splits)
  then show "mget (next_users users) uid = Some nu \<Longrightarrow> ID nu = uid \<and> 0 < sint uid \<and> nu \<in> set users" by blast
qed

lemma nextIDs_set: "set (nextIDs next) = dom (mget next)"
  by (simp add: nextIDs_def set_mkeys)

text \<open>After planning, the owners of limiters are the new users with a limit.\<close>

lemma plan_limiters:
  assumes "lim_inv ms" and "\<forall>uid. rates ms (Some uid) \<noteq> None \<longrightarrow> mget (um_users (fst ms)) uid \<noteq> None"
    and "plan_changes enabled X now users ms = (ch, ms')"
  shows "lim_inv ms'"
    and "rates ms' None = rates ms None"
    and "rates ms' (Some uid) = (case mget (next_users users) uid of None \<Rightarrow> None | Some u \<Rightarrow> wanted enabled u)"
proof -
  let ?next = "next_users users" and ?olds = "um_users (fst ms)"
  obtain ch1 ms1 where s1: "fold (old_user ?next) ?olds (no_changes, ms) = (ch1, ms1)" by (metis prod.exhaust)
  from assms(3) s1 have s2: "fold (new_user enabled X now ?olds ?next) (nextIDs ?next) (ch1, ms1) = (ch, ms')"
    by (simp add: plan_changes_def Let_def)
  have ids: "\<forall>uid nu. mget ?next uid = Some nu \<longrightarrow> ID nu = uid" using next_users_ID by blast
  note old = fold_old_limiters [OF assms(1) s1] and new = fold_new_limiters [OF fold_old_limiters(1) [OF assms(1) s1] s2 ids]
  show "lim_inv ms'" by (rule new(1))
  show "rates ms' None = rates ms None" using old(2) new(2) by simp
  have "uid \<in> fst ` set ?olds \<longleftrightarrow> mget ?olds uid \<noteq> None"
    using mget_None_iff [of ?olds uid] by (auto simp: mkeys_def)
  moreover have "mget ?olds uid = None \<Longrightarrow> rates ms (Some uid) = None" using assms(2) by blast
  ultimately show "rates ms' (Some uid) = (case mget ?next uid of None \<Rightarrow> None | Some u \<Rightarrow> wanted enabled u)"
    using old(2) [of "Some uid"] new(2) [of "Some uid"]
    by (cases "mget ?olds uid") (auto simp: nextIDs_set split: option.splits)
qed

section \<open>Secrets\<close>

definition owns :: "user \<Rightarrow> string \<Rightarrow> bool" where
  "owns u secret \<longleftrightarrow> 0 < sint (ID u) \<and> secret \<noteq> [] \<and> secret \<in> {UUID u, Password u, Name u}"

lemma secrets_of_user:
  "mget (fold (\<lambda>secret secrets. if secret \<noteq> [] then mput secret uid secrets else secrets) ss m) s
   = (if s \<noteq> [] \<and> s \<in> set ss then Some uid else mget m s)"
  by (induction ss arbitrary: m) (auto simp: mget_mput)

text \<open>A secret belongs to the last user of the list that has it.\<close>

lemma next_secrets_snoc:
  "next_secrets (users @ [u]) =
     (if sint (ID u) \<le> 0 then next_secrets users
      else fold (\<lambda>secret secrets. if secret \<noteq> [] then mput secret (ID u) secrets else secrets)
             [UUID u, Password u, Name u] (next_secrets users))"
  unfolding next_secrets_def by (simp only: fold_append fold_simps comp_apply)

lemma next_secrets_last:
  "mget (next_secrets users) s = map_option ID (find (\<lambda>u. owns u s) (rev users))"
proof (induction users rule: rev_induct)
  case Nil
  then show ?case by (simp add: next_secrets_def)
next
  case (snoc u users)
  have "mget (next_secrets (users @ [u])) s = (if owns u s then Some (ID u) else mget (next_secrets users) s)"
    unfolding next_secrets_snoc using secrets_of_user [of "ID u" "[UUID u, Password u, Name u]" "next_secrets users" s]
    by (simp only: owns_def set_simps not_le split: if_split) auto
  with snoc.IH show ?case by simp
qed

section \<open>Properties\<close>

text \<open>
  Runs of the manager: \<open>NewUserManager\<close> in a fresh store, then any number of calls of \<open>ApplyBox\<close>
  that returned nil.
\<close>

definition empty_limiters :: "'l limiter_store" where
  "empty_limiters = \<lparr>lim = (\<lambda>_. zero_limiter), lim_fresh = 0\<rparr>"

inductive manager_run ::
  "bool \<Rightarrow> ('l, 't) xrate \<Rightarrow> 'w core \<Rightarrow> i64 \<Rightarrow> user_manager \<times> 'l limiter_store \<Rightarrow> user list \<Rightarrow> bool"
  for enabled X C nodeMbps where
  run_new: "manager_run enabled X C nodeMbps (NewUserManager X now nodeMbps empty_limiters) []"
| run_apply: "manager_run enabled X C nodeMbps ms users0 \<Longrightarrow>
     ApplyBox enabled X now C inbounds users ms w = (None, ms', w') \<Longrightarrow>
     manager_run enabled X C nodeMbps ms' users"

lemma NewUserManager_ok:
  "lim_inv (NewUserManager X now mbps empty_limiters)
   \<and> um_users (fst (NewUserManager X now mbps empty_limiters)) = []
   \<and> rates (NewUserManager X now mbps empty_limiters) k
     = (if k = None \<and> 0 < sint mbps then Some (mbpsToBytes mbps, mbpsToBytes mbps) else None)"
  by (auto simp: NewUserManager_def newLimiterPair_def new_limiter_def empty_limiters_def Let_def lim_inv_def
      rates_def pair_of_def split: option.splits)

lemma ApplyBox_success:
  assumes "ApplyBox enabled X now C inbounds users ms w = (None, ms', w')"
  obtains ch ms1 where "plan_changes enabled X now users ms = (ch, ms1)"
    "ms' = ((fst ms1)\<lparr>um_users := next_users users, bySecret := next_secrets users\<rparr>, snd ms1)"
proof -
  obtain ch ms1 where plan: "plan_changes enabled X now users ms = (ch, ms1)" by (metis prod.exhaust)
  with assms have "ms' = ((fst ms1)\<lparr>um_users := next_users users, bySecret := next_secrets users\<rparr>, snd ms1)"
    by (auto simp: ApplyBox_def split: prod.splits option.splits)
  with plan that show thesis by blast
qed

lemma rates_users: "rates (m\<lparr>um_users := us, bySecret := bs\<rparr>, st) = rates (m, st)"
  by (simp add: rates_def pair_of_def fun_eq_iff split: option.split)

lemma lim_inv_users: "lim_inv (m\<lparr>um_users := us, bySecret := bs\<rparr>, st) = lim_inv (m, st)"
proof -
  have "pair_of (m\<lparr>um_users := us, bySecret := bs\<rparr>) = pair_of m" by (rule pair_of_cong) simp_all
  then show ?thesis by (simp add: lim_inv_def)
qed

lemma manager_run_inv:
  assumes "manager_run enabled X C nodeMbps ms users"
  shows "lim_inv ms \<and> um_users (fst ms) = next_users users
    \<and> rates ms None = (if 0 < sint nodeMbps then Some (mbpsToBytes nodeMbps, mbpsToBytes nodeMbps) else None)
    \<and> (\<forall>uid. rates ms (Some uid) = (case mget (next_users users) uid of None \<Rightarrow> None | Some u \<Rightarrow> wanted enabled u))
    \<and> (users \<noteq> [] \<longrightarrow> bySecret (fst ms) = next_secrets users)"
  using assms
proof (induction rule: manager_run.induct)
  case (run_new now)
  then show ?case using NewUserManager_ok [of X now nodeMbps] by (simp add: next_users_def)
next
  case (run_apply ms users0 now inbounds users w ms' w')
  obtain ch ms1 where plan: "plan_changes enabled X now users ms = (ch, ms1)"
    and ms': "ms' = ((fst ms1)\<lparr>um_users := next_users users, bySecret := next_secrets users\<rparr>, snd ms1)"
    using ApplyBox_success [OF run_apply.hyps(2)] by blast
  have inv: "lim_inv ms" and "\<forall>uid. rates ms (Some uid) \<noteq> None \<longrightarrow> mget (um_users (fst ms)) uid \<noteq> None"
    using run_apply.IH by (auto split: option.splits)
  note new = plan_limiters [OF this plan]
  have "rates ms' = rates ms1" "lim_inv ms' = lim_inv ms1"
    unfolding ms' using rates_users lim_inv_users by (metis prod.collapse)+
  with new run_apply.IH show ?case by (simp add: ms')
qed

text \<open>
  C20: The speed limits follow the panel: after any number of successful updates a user has limiters
  exactly when the last list gave it a positive limit (and the build has user limits), both
  directions run at that limit, and the node's limiters still run at the node's rate.
\<close>

theorem limiters_follow_users:
  assumes "manager_run enabled X C nodeMbps ms users"
  shows "rates ms (Some uid) = (case mget (next_users users) uid of
      None \<Rightarrow> None
    | Some u \<Rightarrow>
        if enabled \<and> 0 < sint (SpeedLimit u) then Some (mbpsToBytes (SpeedLimit u), mbpsToBytes (SpeedLimit u))
        else None)
    \<and> rates ms None = (if 0 < sint nodeMbps then Some (mbpsToBytes nodeMbps, mbpsToBytes nodeMbps) else None)"
  using manager_run_inv [OF assms] by (auto simp: wanted_def split: option.splits)

text \<open>
  A login is billed to its user: after a successful update a secret that only users with the
  identifier of \<open>u\<close> have resolves to that identifier, and a string that is nobody's secret to
  itself.
\<close>

theorem Resolve_secret:
  assumes "ApplyBox enabled X now C inbounds users ms w = (None, ms', w')" and "s \<noteq> []"
    and "\<forall>v \<in> set users. owns v s \<longrightarrow> ID v = uid"
  shows "Resolve (fst ms') s = (if \<exists>v \<in> set users. owns v s then Itoa uid else s)"
proof -
  have b: "bySecret (fst ms') = next_secrets users"
    by (rule ApplyBox_success [OF assms(1)]) simp
  show ?thesis
  proof (cases "find (\<lambda>u. owns u s) (rev users)")
    case None
    then have "\<not> (\<exists>v \<in> set users. owns v s)" by (auto simp: find_None_iff)
    with None assms(2) show ?thesis by (simp add: Resolve_def b next_secrets_last)
  next
    case (Some v)
    then have "v \<in> set users" "owns v s" by (metis find_Some_iff length_rev nth_mem set_rev)+
    with Some assms(2,3) show ?thesis by (auto simp: Resolve_def b next_secrets_last)
  qed
qed

definition quiet_core :: "unit core" where
  "quiet_core =
     \<lparr>del_vless = (\<lambda>t us w. (None, w)), add_vless = (\<lambda>t us w. (None, w)), del_hy2 = (\<lambda>t us w. (None, w)),
      add_hy2 = (\<lambda>t us is w. (None, w)), del_ss = (\<lambda>t us w. (None, w)), add_ss = (\<lambda>t us w. (None, w))\<rparr>"

lemma quiet_apply: "apply_inbounds quiet_core ch es w = (None, w)"
  by (induction es)
    (auto simp: apply_inbound_def del_then_add_def quiet_core_def split: inbound_kind.splits)

lemma quiet_ApplyBox: "\<exists>ms'. ApplyBox enabled X now quiet_core inbounds users ms w = (None, ms', w)"
  by (simp add: ApplyBox_def quiet_apply split: prod.split)

definition limited_user :: user where
  "limited_user = \<lparr>ID = 7, UUID = ''u-7'', Password = ''p-7'', Name = ''7'', SpeedLimit = 100\<rparr>"

theorem limiters_follow_users_witness:
  "\<exists>ms. manager_run True counting_xrate quiet_core 0 ms [limited_user]
     \<and> rates ms (Some 7) = Some (12500000, 12500000)"
proof -
  obtain ms where run: "manager_run True counting_xrate quiet_core 0 ms [limited_user]"
    using quiet_ApplyBox run_apply [OF run_new] by metis
  have "mget (next_users [limited_user]) 7 = Some limited_user"
    by (simp add: next_users_def limited_user_def)
  moreover have "mbpsToBytes 100 = 12500000"
    by (simp add: mbpsToBytes_def i64_div_def signed_divide_int_def)
  ultimately show ?thesis
    using limiters_follow_users [OF run, of 7] run by (intro exI [of _ ms]) (simp add: limited_user_def)
qed

theorem Resolve_secret_witness:
  "\<exists>ms. fst (ApplyBox True counting_xrate () quiet_core [] [limited_user]
       (NewUserManager counting_xrate () 0 empty_limiters) ()) = None
     \<and> fst (snd (ApplyBox True counting_xrate () quiet_core [] [limited_user]
       (NewUserManager counting_xrate () 0 empty_limiters) ())) = ms
     \<and> Resolve (fst ms) ''u-7'' = ''7''"
proof -
  obtain ms where ms: "ApplyBox True counting_xrate () quiet_core [] [limited_user]
      (NewUserManager counting_xrate () 0 empty_limiters) () = (None, ms, ())"
    using quiet_ApplyBox [of True counting_xrate "()" "[]" "[limited_user]"
        "NewUserManager counting_xrate () 0 empty_limiters" "()"] by auto
  have "Itoa 7 = ''7''" by code_simp
  with Resolve_secret [OF ms, of "''u-7''" 7] ms show ?thesis
    by (simp add: owns_def limited_user_def)
qed

text \<open>
  C21: A user whose account did not change is not touched: the lists sent to the inbounds hold
  exactly the VLESS users that are new or changed, in the order of their identifiers, and delete
  exactly those that are gone or have new credentials.
\<close>

theorem plan_touches_changed_users:
  assumes "plan_changes enabled X now users ms = (ch, ms')"
  shows "addVless ch = map (\<lambda>uid. vlessUserFromPanelUser (the (mget (next_users users) uid)))
      (filter (\<lambda>uid. (\<forall>old. mget (um_users (fst ms)) uid = Some old \<longrightarrow> \<not> sameUser old (the (mget (next_users users) uid)))
          \<and> UUID (the (mget (next_users users) uid)) \<noteq> [])
        (nextIDs (next_users users)))
    \<and> delVless ch = map (\<lambda>(uid, old). UUID old)
      (filter (\<lambda>(uid, old). UUID old \<noteq> [] \<and> (case mget (next_users users) uid of
            None \<Rightarrow> True
          | Some nu \<Rightarrow> UUID old \<noteq> UUID nu \<or> Password old \<noteq> Password nu \<or> Name old \<noteq> Name nu))
        (um_users (fst ms)))"
proof -
  let ?next = "next_users users" and ?olds = "um_users (fst ms)"
  have old: "addVless (fst (fold (old_user ?next) es (ch0, ms0))) = addVless ch0
      \<and> delVless (fst (fold (old_user ?next) es (ch0, ms0)))
        = delVless ch0 @ map (\<lambda>(uid, old). UUID old)
          (filter (\<lambda>(uid, old). UUID old \<noteq> [] \<and> (case mget ?next uid of
            None \<Rightarrow> True
          | Some nu \<Rightarrow> UUID old \<noteq> UUID nu \<or> Password old \<noteq> Password nu \<or> Name old \<noteq> Name nu)) es)" for es ch0 ms0
  proof (induction es arbitrary: ch0 ms0)
    case (Cons e es)
    obtain uid o1 where e: "e = (uid, o1)" by (cases e)
    obtain ch1 ms1 where s1: "old_user ?next e (ch0, ms0) = (ch1, ms1)" by (metis prod.exhaust)
    then have "addVless ch1 = addVless ch0"
      "delVless ch1 = delVless ch0 @ (if UUID o1 \<noteq> [] \<and> (case mget ?next uid of None \<Rightarrow> True
          | Some nu \<Rightarrow> UUID o1 \<noteq> UUID nu \<or> Password o1 \<noteq> Password nu \<or> Name o1 \<noteq> Name nu) then [UUID o1] else [])"
      by (auto simp: e old_user_def del_user_def Let_def split: option.splits if_splits)
    with Cons.IH [of ch1 ms1] s1 show ?case by (simp add: e)
  qed simp
  have new: "delVless (fst (fold (new_user enabled X now ?olds ?next) ids (ch0, ms0))) = delVless ch0
      \<and> addVless (fst (fold (new_user enabled X now ?olds ?next) ids (ch0, ms0)))
        = addVless ch0 @ map (\<lambda>uid. vlessUserFromPanelUser (the (mget ?next uid)))
          (filter (\<lambda>uid. (\<forall>old. mget ?olds uid = Some old \<longrightarrow> \<not> sameUser old (the (mget ?next uid)))
            \<and> UUID (the (mget ?next uid)) \<noteq> []) ids)"
    if "set ids \<subseteq> dom (mget ?next)" for ids ch0 ms0
    using that
  proof (induction ids arbitrary: ch0 ms0)
    case (Cons uid ids)
    then obtain nu where nu: "mget ?next uid = Some nu" by auto
    obtain ch1 ms1 where s1: "new_user enabled X now ?olds ?next uid (ch0, ms0) = (ch1, ms1)" by (metis prod.exhaust)
    then have "delVless ch1 = delVless ch0"
      "addVless ch1 = addVless ch0 @ (if (\<forall>old. mget ?olds uid = Some old \<longrightarrow> \<not> sameUser old nu) \<and> UUID nu \<noteq> []
          then [vlessUserFromPanelUser nu] else [])"
      by (auto simp: nu new_user_def add_user_def Let_def split: option.splits if_splits)
    with Cons s1 nu show ?case by simp
  qed simp
  obtain ch1 ms1 where s1: "fold (old_user ?next) ?olds (no_changes, ms) = (ch1, ms1)" by (metis prod.exhaust)
  with assms have "fold (new_user enabled X now ?olds ?next) (nextIDs ?next) (ch1, ms1) = (ch, ms')"
    by (simp add: plan_changes_def Let_def)
  with new [of "nextIDs ?next" ch1 ms1] old [of ?olds no_changes ms] s1 show ?thesis
    by (simp add: nextIDs_set no_changes_def)
qed

lemma fresh_plan: "\<exists>ch ms'. plan_changes True counting_xrate () [limited_user]
    (NewUserManager counting_xrate () 0 empty_limiters) = (ch, ms')"
  by (metis prod.exhaust)

theorem plan_touches_changed_users_witness:
  "\<exists>ch ms'. plan_changes True counting_xrate () [limited_user] (NewUserManager counting_xrate () 0 empty_limiters) = (ch, ms')
     \<and> map vu_UUID (addVless ch) = [''u-7''] \<and> delVless ch = []"
proof -
  obtain ch ms' where plan: "plan_changes True counting_xrate () [limited_user]
      (NewUserManager counting_xrate () 0 empty_limiters) = (ch, ms')"
    using fresh_plan by blast
  have "mget (next_users [limited_user]) 7 = Some limited_user" "nextIDs (next_users [limited_user]) = [7]"
    "um_users (fst (NewUserManager counting_xrate () 0 empty_limiters)) = []"
    by (simp_all add: next_users_def limited_user_def nextIDs_def NewUserManager_def)
  with plan_touches_changed_users [OF plan] plan show ?thesis
    by (intro exI [of _ ch] exI [of _ ms']) (simp add: limited_user_def vlessUserFromPanelUser_def)
qed

text \<open>
  A user whose speed limit alone changes is added to the inbounds a second time without being
  deleted first: the comparison that decides to add looks at the limit, the one that decides to
  delete does not.
\<close>

theorem limit_change_adds_again:
  assumes "um_users (fst ms) = [(ID u, u)]" and "0 < sint (ID u)" and "UUID u \<noteq> []" and "n \<noteq> SpeedLimit u"
    and "plan_changes enabled X now [u\<lparr>SpeedLimit := n\<rparr>] ms = (ch, ms')"
  shows "addVless ch = [vlessUserFromPanelUser (u\<lparr>SpeedLimit := n\<rparr>)] \<and> delVless ch = []"
proof -
  have "next_users [u\<lparr>SpeedLimit := n\<rparr>] = [(ID u, u\<lparr>SpeedLimit := n\<rparr>)]"
    using assms(2) by (simp add: next_users_def)
  with assms show ?thesis
    by (auto simp: plan_changes_def Let_def old_user_def new_user_def nextIDs_def sameUser_def add_user_def
        no_changes_def)
qed

theorem limit_change_adds_again_witness:
  "\<exists>ch ms'. plan_changes True counting_xrate () [limited_user\<lparr>SpeedLimit := 50\<rparr>]
       ((fst (NewUserManager counting_xrate () 0 empty_limiters))\<lparr>um_users := [(7, limited_user)]\<rparr>, empty_limiters) = (ch, ms')
     \<and> delVless ch = [] \<and> map vu_UUID (addVless ch) = [''u-7'']"
proof -
  obtain ch ms' where plan: "plan_changes True counting_xrate () [limited_user\<lparr>SpeedLimit := 50\<rparr>]
      ((fst (NewUserManager counting_xrate () 0 empty_limiters))\<lparr>um_users := [(7, limited_user)]\<rparr>, empty_limiters) = (ch, ms')"
    by (metis prod.exhaust)
  from limit_change_adds_again [OF _ _ _ _ plan] plan show ?thesis
    by (intro exI [of _ ch] exI [of _ ms']) (simp add: limited_user_def vlessUserFromPanelUser_def)
qed

end
