(* ===== verification/Session_Prepare.thy ===== *)
theory Session_Prepare
  imports Alive_Reporting
begin

text \<open>
  \<open>SessionTracker.Prepare\<close> of \<open>session_tracker.go\<close> under concurrency. \<open>Prepare\<close> makes two
  functions over shared variables: \<open>activate\<close>, which the counting connection calls from several
  goroutines and which opens the session once 32 KiB have passed, and \<open>closePending\<close>, which
  closing the connection calls. \<open>prepared\<close> is the record of those variables, \<open>pc\<close> the point a
  running call has reached, and \<open>thread_step\<close> one atomic action: an operation on an atomic
  variable, taking or releasing the mutex, \<open>Open\<close>, or the close of the session. Go's atomics and
  mutexes are sequentially consistent, so a run is an interleaving of such actions.

  \<open>system_step\<close> interleaves any number of connections on one tracker. The invariant says that the
  tracker holds exactly the sessions the connections still have to close.
\<close>

section \<open>Shared variables and threads\<close>

record prepared =
  p_inbound :: string
  p_user :: string
  p_source :: string
  p_mu :: bool
  p_active :: bool
  p_closed :: bool
  p_seen :: i64
  p_release :: "opened option"

definition sessionActivationBytes :: i64 where
  "sessionActivationBytes = 32 * 1024"

datatype pc =
    ActBytes i64 | ActActive i64 | ActClosed i64 | ActAdd i64
  | ActLock | ActRecheckActive | ActRecheckClosed | ActOpen | ActStore | ActUnlock
  | CloseSwap | CloseLock | CloseTake | CloseUnlock "opened option" | CloseRun "opened option"
  | Finished

text \<open>\<open>None\<close> is the pair of functions that do nothing.\<close>

definition Prepare :: "string \<Rightarrow> string \<Rightarrow> string \<Rightarrow> prepared option" where
  "Prepare inbound user source =
     (if user = [] then None
      else Some \<lparr>p_inbound = inbound, p_user = user, p_source = source, p_mu = False, p_active = False,
                 p_closed = False, p_seen = 0, p_release = None\<rparr>)"

text \<open>One action of a call; \<open>None\<close> when it has to wait for the mutex or has returned.\<close>

fun thread_step :: "pc \<Rightarrow> prepared \<Rightarrow> session_tracker \<Rightarrow> (pc \<times> prepared \<times> session_tracker) option" where
  "thread_step (ActBytes n) p t = Some (if sint n \<le> 0 then Finished else ActActive n, p, t)"
| "thread_step (ActActive n) p t = Some (if p_active p then Finished else ActClosed n, p, t)"
| "thread_step (ActClosed n) p t = Some (if p_closed p then Finished else ActAdd n, p, t)"
| "thread_step (ActAdd n) p t =
     (let seen = p_seen p + n
      in Some (if seen <s sessionActivationBytes then Finished else ActLock, p\<lparr>p_seen := seen\<rparr>, t))"
| "thread_step ActLock p t = (if p_mu p then None else Some (ActRecheckActive, p\<lparr>p_mu := True\<rparr>, t))"
| "thread_step ActRecheckActive p t = Some (if p_active p then ActUnlock else ActRecheckClosed, p, t)"
| "thread_step ActRecheckClosed p t = Some (if p_closed p then ActUnlock else ActOpen, p, t)"
| "thread_step ActOpen p t =
     (let (o1, t') = Open (p_inbound p) (p_user p) (p_source p) t
      in Some (ActStore, p\<lparr>p_release := o1\<rparr>, t'))"
| "thread_step ActStore p t = Some (ActUnlock, p\<lparr>p_active := True\<rparr>, t)"
| "thread_step ActUnlock p t = Some (Finished, p\<lparr>p_mu := False\<rparr>, t)"
| "thread_step CloseSwap p t =
     Some (if p_closed p then Finished else CloseLock, p\<lparr>p_closed := True\<rparr>, t)"
| "thread_step CloseLock p t = (if p_mu p then None else Some (CloseTake, p\<lparr>p_mu := True\<rparr>, t))"
| "thread_step CloseTake p t = Some (CloseUnlock (p_release p), p\<lparr>p_release := None\<rparr>, t)"
| "thread_step (CloseUnlock o1) p t = Some (CloseRun o1, p\<lparr>p_mu := False\<rparr>, t)"
| "thread_step (CloseRun o1) p t =
     Some (Finished, p, (case o1 of None \<Rightarrow> t | Some o1 \<Rightarrow> snd (run_opened o1 t)))"
| "thread_step Finished p t = None"

type_synonym connection = "prepared \<times> pc list"

inductive system_step ::
  "connection list \<times> session_tracker \<Rightarrow> connection list \<times> session_tracker \<Rightarrow> bool" where
  sys_prepare: "Prepare inbound user source = Some p \<Longrightarrow> system_step (cs, t) (cs @ [(p, [])], t)"
| sys_activate: "i < length cs \<Longrightarrow> cs ! i = (p, ts) \<Longrightarrow>
     system_step (cs, t) (cs[i := (p, ts @ [ActBytes n])], t)"
| sys_close: "i < length cs \<Longrightarrow> cs ! i = (p, ts) \<Longrightarrow>
     system_step (cs, t) (cs[i := (p, ts @ [CloseSwap])], t)"
| sys_run: "i < length cs \<Longrightarrow> cs ! i = (p, ts) \<Longrightarrow> j < length ts \<Longrightarrow>
     thread_step (ts ! j) p t = Some (pc', p', t') \<Longrightarrow>
     system_step (cs, t) (cs[i := (p', ts[j := pc'])], t')"

inductive_cases system_stepE: "system_step s s'"

definition reachable :: "source_rule list option \<Rightarrow> connection list \<times> session_tracker \<Rightarrow> bool" where
  "reachable c s \<longleftrightarrow> system_step\<^sup>*\<^sup>* ([], NewSessionTracker c) s"

section \<open>The invariant of one connection\<close>

fun critical :: "pc \<Rightarrow> bool" where
  "critical ActRecheckActive = True"
| "critical ActRecheckClosed = True"
| "critical ActOpen = True"
| "critical ActStore = True"
| "critical ActUnlock = True"
| "critical CloseTake = True"
| "critical (CloseUnlock o1) = True"
| "critical _ = False"

fun pc_held :: "pc \<Rightarrow> opened multiset" where
  "pc_held (CloseUnlock (Some o1)) = {#o1#}"
| "pc_held (CloseRun (Some o1)) = {#o1#}"
| "pc_held _ = {#}"

fun closing :: "pc \<Rightarrow> bool" where
  "closing CloseLock = True"
| "closing CloseTake = True"
| "closing (CloseUnlock o1) = True"
| "closing (CloseRun o1) = True"
| "closing _ = False"

text \<open>On the way to opening the session.\<close>

fun activating :: "pc \<Rightarrow> bool" where
  "activating ActLock = True"
| "activating ActRecheckActive = True"
| "activating ActRecheckClosed = True"
| "activating ActOpen = True"
| "activating ActStore = True"
| "activating _ = False"

text \<open>The sessions a connection has opened and not yet closed.\<close>

definition held :: "connection \<Rightarrow> opened multiset" where
  "held c = (case p_release (fst c) of None \<Rightarrow> {#} | Some o1 \<Rightarrow> {#o1#}) + sum_list (map pc_held (snd c))"

definition own :: "prepared \<Rightarrow> opened \<Rightarrow> bool" where
  "own p o1 \<longleftrightarrow> op_inbound o1 = normalizeInboundTag (p_inbound p) \<and> op_user o1 = p_user p
     \<and> op_ip o1 = normalizePeerIP (p_source p)"

text \<open>
  The mutex is held by the one call in a critical section. A closed connection has no session to
  release once the closing call has taken it. At most one session is ever open, because opening
  needs \<open>active\<close> false. A connection that is not closed and has carried enough bytes is active or
  about to be.
\<close>

definition lock_ok :: "prepared \<Rightarrow> pc list \<Rightarrow> bool" where
  "lock_ok p ts \<longleftrightarrow> length (filter critical ts) = (if p_mu p then 1 else 0)"

definition close_ok :: "prepared \<Rightarrow> pc list \<Rightarrow> bool" where
  "close_ok p ts \<longleftrightarrow>
     (\<forall>x \<in> set ts. closing x \<longrightarrow> p_closed p)
     \<and> (p_closed p \<and> ActOpen \<in> set ts \<longrightarrow> CloseLock \<in> set ts)
     \<and> (p_closed p \<and> p_release p \<noteq> None \<longrightarrow> CloseLock \<in> set ts \<or> CloseTake \<in> set ts)"

definition open_ok :: "prepared \<Rightarrow> pc list \<Rightarrow> bool" where
  "open_ok p ts \<longleftrightarrow>
     (\<not> p_active p \<and> ActStore \<notin> set ts \<longrightarrow> held (p, ts) = {#})
     \<and> (ActRecheckClosed \<in> set ts \<or> ActOpen \<in> set ts \<longrightarrow> \<not> p_active p)"

definition held_ok :: "prepared \<Rightarrow> pc list \<Rightarrow> bool" where
  "held_ok p ts \<longleftrightarrow> p_user p \<noteq> [] \<and> size (held (p, ts)) \<le> 1 \<and> (\<forall>o1 \<in># held (p, ts). own p o1)"

definition act_ok :: "prepared \<Rightarrow> pc list \<Rightarrow> bool" where
  "act_ok p ts \<longleftrightarrow>
     (\<not> p_closed p \<and> (p_active p \<or> ActStore \<in> set ts) \<longrightarrow> p_release p \<noteq> None)
     \<and> (\<not> p_closed p \<and> \<not> p_active p \<and> \<not> p_seen p <s sessionActivationBytes \<longrightarrow> (\<exists>x \<in> set ts. activating x))"

definition conn_inv :: "connection \<Rightarrow> bool" where
  "conn_inv c \<longleftrightarrow> (case c of (p, ts) \<Rightarrow>
     lock_ok p ts \<and> close_ok p ts \<and> open_ok p ts \<and> held_ok p ts \<and> act_ok p ts)"

lemmas conn_parts = conn_inv_def lock_ok_def close_ok_def open_ok_def held_ok_def act_ok_def

lemma held_split:
  "held (p, as @ x # bs)
   = (case p_release p of None \<Rightarrow> {#} | Some o1 \<Rightarrow> {#o1#}) + pc_held x
     + (sum_list (map pc_held as) + sum_list (map pc_held bs))"
  by (simp add: held_def)

lemma conn_inv_new: "Prepare inbound user source = Some p \<Longrightarrow> conn_inv (p, []) \<and> held (p, []) = {#}"
  by (auto simp: Prepare_def conn_parts held_def sessionActivationBytes_def word_sless_alt split: if_splits)

lemma held_spawn: "pc_held x = {#} \<Longrightarrow> held (p, ts @ [x]) = held (p, ts)"
  by (simp add: held_def)

lemma conn_inv_spawn:
  assumes "conn_inv (p, ts)" and "x = ActBytes n \<or> x = CloseSwap"
  shows "conn_inv (p, ts @ [x])"
proof -
  have x: "pc_held x = {#}" "\<not> critical x" "\<not> closing x" "x \<notin> {ActOpen, ActStore, ActRecheckClosed}"
    using assms(2) by auto
  with assms(1) show ?thesis by (auto simp: conn_parts held_spawn [OF x(1)])
qed

section \<open>Every action keeps the invariant\<close>

lemma only_critical:
  assumes "lock_ok p (as @ x # bs)" and "critical x"
  shows "p_mu p" and "y \<in> set as \<union> set bs \<Longrightarrow> \<not> critical y"
  using assms by (auto simp: lock_ok_def filter_empty_conv split: if_splits)

lemma none_critical: "lock_ok p ts \<Longrightarrow> \<not> p_mu p \<Longrightarrow> y \<in> set ts \<Longrightarrow> \<not> critical y"
  by (auto simp: lock_ok_def filter_empty_conv)

lemma step_lock_ok:
  assumes "lock_ok p (as @ x # bs)" and "thread_step x p t = Some (x', p', t')"
  shows "lock_ok p' (as @ x' # bs)"
  using assms by (cases x) (auto simp: lock_ok_def Let_def split: if_splits prod.splits)

lemma Open_user: "user \<noteq> [] \<Longrightarrow> \<exists>o1 t'. Open inbound user source t = (Some o1, t')"
  by (simp add: Open_def Let_def)

lemma Open_Some: "Open inbound user source t = (o1, t') \<Longrightarrow> user \<noteq> [] \<Longrightarrow> \<exists>y. o1 = Some y"
  by (auto simp: Open_def Let_def)

lemma step_close_ok:
  assumes "lock_ok p (as @ x # bs)" and "close_ok p (as @ x # bs)"
    and "thread_step x p t = Some (x', p', t')"
  shows "close_ok p' (as @ x' # bs)"
proof -
  have free: "x = CloseLock \<Longrightarrow> ActOpen \<notin> set as \<union> set bs"
    using none_critical [OF assms(1), of ActOpen] assms(3) by (auto split: if_splits)
  have alone: "critical x \<Longrightarrow> ActOpen \<notin> set as \<union> set bs \<and> CloseTake \<notin> set as \<union> set bs"
    using only_critical(2) [OF assms(1)] critical.simps(3,6) by blast
  show ?thesis
    using assms(2,3) free alone
    by (cases x) (auto simp: close_ok_def Let_def split: if_splits prod.splits)
qed

text \<open>When a call opens the session, the connection holds none.\<close>

lemma held_before_Open:
  assumes "lock_ok p (as @ ActOpen # bs)" and "open_ok p (as @ ActOpen # bs)"
  shows "p_release p = None" and "sum_list (map pc_held as) + sum_list (map pc_held bs) = {#}"
proof -
  have "ActStore \<notin> set as \<union> set bs"
    using only_critical(2) [OF assms(1)] critical.simps(3,4) by blast
  with assms(2) have "held (p, as @ ActOpen # bs) = {#}" by (auto simp: open_ok_def)
  then show "p_release p = None" "sum_list (map pc_held as) + sum_list (map pc_held bs) = {#}"
    by (auto simp: held_split split: option.splits)
qed

lemma Open_own: "Open (p_inbound p) (p_user p) (p_source p) t = (Some o1, t') \<Longrightarrow> own p o1"
  by (auto simp: Open_def Let_def own_def split: if_splits)

lemma own_cong: "p_inbound p' = p_inbound p \<Longrightarrow> p_user p' = p_user p \<Longrightarrow> p_source p' = p_source p \<Longrightarrow> own p' = own p"
  by (simp add: own_def fun_eq_iff)

lemma step_params:
  "thread_step x p t = Some (x', p', t') \<Longrightarrow>
   p_inbound p' = p_inbound p \<and> p_user p' = p_user p \<and> p_source p' = p_source p"
  by (cases x) (auto simp: Let_def split: if_splits prod.splits)

text \<open>Only opening and the last action of closing change what is held and the tracker.\<close>

lemma step_quiet:
  assumes "thread_step x p t = Some (x', p', t')" and "x \<noteq> ActOpen" and "\<forall>o1. x \<noteq> CloseRun (Some o1)"
  shows "t' = t" and "held (p', as @ x' # bs) = held (p, as @ x # bs)"
proof -
  have "t' = t \<and> (case p_release p' of None \<Rightarrow> {#} | Some o1 \<Rightarrow> {#o1#}) + pc_held x'
      = (case p_release p of None \<Rightarrow> {#} | Some o1 \<Rightarrow> {#o1#}) + pc_held x"
    using assms by (cases x rule: pc_held.cases) (auto simp: Let_def split: if_splits option.splits)
  then show "t' = t" "held (p', as @ x' # bs) = held (p, as @ x # bs)" by (simp_all add: held_split)
qed

lemma step_held:
  assumes "lock_ok p (as @ x # bs)" and "open_ok p (as @ x # bs)" and "held_ok p (as @ x # bs)"
    and "thread_step x p t = Some (x', p', t')" and "tracks t (held (p, as @ x # bs) + M)"
  shows "held_ok p' (as @ x' # bs) \<and> tracks t' (held (p', as @ x' # bs) + M)"
proof -
  note own = own_cong [of p' p] step_params [OF assms(4)]
  consider "x = ActOpen" | o1 where "x = CloseRun (Some o1)" | "x \<noteq> ActOpen" "\<forall>o1. x \<noteq> CloseRun (Some o1)"
    by blast
  then show ?thesis
  proof cases
    case 1
    have "p_user p \<noteq> []" using assms(3) by (simp add: held_ok_def)
    then obtain o1 t1 where o1: "Open (p_inbound p) (p_user p) (p_source p) t = (Some o1, t1)"
      using Open_user by blast
    with assms(4) 1 have p': "p' = p\<lparr>p_release := Some o1\<rparr>" "x' = ActStore" "t' = t1" by simp_all
    note empty = held_before_Open [OF assms(1,2) [unfolded 1]]
    then have "tracks t M" and "held (p', as @ x' # bs) = {#o1#}"
      using assms(5) 1 p' by (simp_all add: held_split)
    with tracks_Open [OF _ o1] Open_own [OF o1] own assms(3) p'(3) show ?thesis
      by (simp add: held_ok_def)
  next
    case 2
    with assms(4) have st: "p' = p" "x' = Finished" "t' = snd (run_opened o1 t)" by simp_all
    have "held (p, as @ x # bs) = add_mset o1 (held (p', as @ x' # bs))"
      using 2 st by (simp add: held_split)
    with assms(3,5) st tracks_run_opened [of t o1] show ?thesis by (simp add: held_ok_def)
  next
    case 3
    from step_quiet [OF assms(4) this] assms(3,5) own show ?thesis by (simp add: held_ok_def)
  qed
qed

lemma step_open_ok:
  assumes "lock_ok p (as @ x # bs)" and "open_ok p (as @ x # bs)" and "held_ok p (as @ x # bs)"
    and "thread_step x p t = Some (x', p', t')"
  shows "open_ok p' (as @ x' # bs)"
proof -
  have alone: "critical x \<Longrightarrow> {ActStore, ActRecheckClosed, ActOpen} \<inter> (set as \<union> set bs) = {}"
    using only_critical(2) [OF assms(1)] critical.simps(2,3,4) by blast
  consider "x = ActOpen" | o1 where "x = CloseRun (Some o1)" | "x \<noteq> ActOpen" "\<forall>o1. x \<noteq> CloseRun (Some o1)"
    by blast
  then show ?thesis
  proof cases
    case 1
    with assms(2,4) alone show ?thesis by (auto simp: open_ok_def split: prod.splits)
  next
    case 2
    with assms(4) have "p' = p" "x' = Finished" by simp_all
    moreover have "held (p, as @ x # bs) \<noteq> {#}" using 2 by (simp add: held_split)
    ultimately show ?thesis using assms(2) 2 by (auto simp: open_ok_def)
  next
    case 3
    note same = step_quiet(2) [OF assms(4) this, of as bs]
    show ?thesis
      using assms(2,4) 3 alone unfolding open_ok_def same
      by (cases x) (auto simp: Let_def split: if_splits)
  qed
qed

lemma step_act_ok:
  assumes "lock_ok p (as @ x # bs)" and "close_ok p (as @ x # bs)" and "open_ok p (as @ x # bs)"
    and "held_ok p (as @ x # bs)" and "act_ok p (as @ x # bs)" and "thread_step x p t = Some (x', p', t')"
  shows "act_ok p' (as @ x' # bs)"
proof -
  have opens: "x = ActOpen \<Longrightarrow> p_release p' \<noteq> None"
    using assms(4,6) by (auto simp: held_ok_def dest: Open_Some split: prod.splits)
  have "closing x \<Longrightarrow> p_closed p" using assms(2) by (simp add: close_ok_def)
  with assms(5,6) opens show ?thesis
    by (cases x) (auto simp: act_ok_def Let_def split: if_splits prod.splits)
qed

lemma step_conn_inv:
  assumes "conn_inv (p, as @ x # bs)" and "thread_step x p t = Some (x', p', t')"
    and "tracks t (held (p, as @ x # bs) + M)"
  shows "conn_inv (p', as @ x' # bs) \<and> tracks t' (held (p', as @ x' # bs) + M)"
proof -
  from assms(1) have parts: "lock_ok p (as @ x # bs)" "close_ok p (as @ x # bs)" "open_ok p (as @ x # bs)"
    "held_ok p (as @ x # bs)" "act_ok p (as @ x # bs)"
    by (simp_all add: conn_inv_def)
  show ?thesis
    using step_lock_ok [OF parts(1) assms(2)] step_close_ok [OF parts(1,2) assms(2)]
      step_open_ok [OF parts(1,3,4) assms(2)] step_act_ok [OF parts assms(2)]
      step_held [OF parts(1,3,4) assms(2,3)]
    by (simp add: conn_inv_def)
qed

section \<open>Every reachable state\<close>

definition all_held :: "connection list \<Rightarrow> opened multiset" where
  "all_held cs = sum_list (map held cs)"

definition system_inv :: "connection list \<times> session_tracker \<Rightarrow> bool" where
  "system_inv s \<longleftrightarrow> list_all conn_inv (fst s) \<and> tracks (snd s) (all_held (fst s))"

lemma all_held_split:
  "i < length cs \<Longrightarrow> all_held (cs[i := c]) = held c + (all_held (take i cs) + all_held (drop (Suc i) cs))"
  "i < length cs \<Longrightarrow> all_held cs = held (cs ! i) + (all_held (take i cs) + all_held (drop (Suc i) cs))"
proof -
  assume i: "i < length cs"
  then show "all_held (cs[i := c]) = held c + (all_held (take i cs) + all_held (drop (Suc i) cs))"
    by (simp add: all_held_def upd_conv_take_nth_drop)
  show "all_held cs = held (cs ! i) + (all_held (take i cs) + all_held (drop (Suc i) cs))"
    by (subst id_take_nth_drop [OF i]) (simp add: all_held_def del: append_take_drop_id)
qed

lemma list_all_update: "list_all P xs \<Longrightarrow> P x \<Longrightarrow> list_all P (xs[i := x])"
  by (auto simp: list_all_iff dest: set_update_subset_insert [THEN subsetD])

lemma system_step_inv:
  assumes "system_step s s'" and "system_inv s"
  shows "system_inv s'"
  using assms
proof (induction rule: system_step.induct)
  case (sys_prepare inbound user source p cs t)
  then show ?case using conn_inv_new by (simp add: system_inv_def all_held_def)
next
  case (sys_activate i cs p ts t n)
  then have "conn_inv (p, ts)" by (metis fst_conv list_all_length system_inv_def)
  with sys_activate conn_inv_spawn [of p ts "ActBytes n" n] show ?case
    by (simp add: system_inv_def list_all_update all_held_split held_spawn)
next
  case (sys_close i cs p ts t)
  then have "conn_inv (p, ts)" by (metis fst_conv list_all_length system_inv_def)
  with sys_close conn_inv_spawn [of p ts CloseSwap] show ?case
    by (simp add: system_inv_def list_all_update all_held_split held_spawn)
next
  case (sys_run i cs p ts j t pc' p' t')
  then have inv: "conn_inv (p, ts)" by (metis fst_conv list_all_length system_inv_def)
  have ts: "ts = take j ts @ ts ! j # drop (Suc j) ts" and upd: "ts[j := pc'] = take j ts @ pc' # drop (Suc j) ts"
    using sys_run.hyps(3) by (simp_all add: id_take_nth_drop upd_conv_take_nth_drop)
  have "tracks t (held (p, ts) + (all_held (take i cs) + all_held (drop (Suc i) cs)))"
    using sys_run all_held_split(2) [of i cs] by (simp add: system_inv_def)
  with step_conn_inv [of p "take j ts" "ts ! j" "drop (Suc j) ts", OF _ sys_run.hyps(4)] inv ts
  have "conn_inv (p', ts[j := pc'])
      \<and> tracks t' (held (p', ts[j := pc']) + (all_held (take i cs) + all_held (drop (Suc i) cs)))"
    unfolding upd by metis
  with sys_run show ?case by (simp add: system_inv_def list_all_update all_held_split(1))
qed

lemma reachable_inv: "reachable c s \<Longrightarrow> system_inv s"
  unfolding reachable_def
proof (induction rule: rtranclp_induct)
  case base
  then show ?case by (simp add: system_inv_def all_held_def tracks_New)
next
  case (step y z)
  then show ?case using system_step_inv by blast
qed

section \<open>Schedules\<close>

text \<open>An executable scheduler: the steps of the relation, chosen by a list of actions.\<close>

datatype action = DoPrepare string string string | DoActivate nat i64 | DoClose nat | DoRun nat nat

fun do_action :: "action \<Rightarrow> connection list \<times> session_tracker \<Rightarrow> (connection list \<times> session_tracker) option" where
  "do_action (DoPrepare inbound user source) (cs, t) =
     map_option (\<lambda>p. (cs @ [(p, [])], t)) (Prepare inbound user source)"
| "do_action (DoActivate i n) (cs, t) =
     (if i < length cs then Some (cs[i := (fst (cs ! i), snd (cs ! i) @ [ActBytes n])], t) else None)"
| "do_action (DoClose i) (cs, t) =
     (if i < length cs then Some (cs[i := (fst (cs ! i), snd (cs ! i) @ [CloseSwap])], t) else None)"
| "do_action (DoRun i j) (cs, t) =
     (if i < length cs \<and> j < length (snd (cs ! i)) then
        map_option (\<lambda>(pc', p', t'). (cs[i := (p', (snd (cs ! i))[j := pc'])], t'))
          (thread_step (snd (cs ! i) ! j) (fst (cs ! i)) t)
      else None)"

fun run_actions ::
  "action list \<Rightarrow> connection list \<times> session_tracker \<Rightarrow> (connection list \<times> session_tracker) option" where
  "run_actions [] s = Some s"
| "run_actions (a # as) s = Option.bind (do_action a s) (run_actions as)"

lemma do_action_step: "do_action a s = Some s' \<Longrightarrow> system_step s s'"
proof (induction a s rule: do_action.induct)
  case (4 i j cs t)
  then obtain pc' p' t' where run: "i < length cs" "j < length (snd (cs ! i))"
    "thread_step (snd (cs ! i) ! j) (fst (cs ! i)) t = Some (pc', p', t')"
    and s': "s' = (cs[i := (p', (snd (cs ! i))[j := pc'])], t')"
    by (auto split: if_splits)
  show ?case unfolding s' by (rule sys_run [OF run(1) _ run(2,3)]) simp
qed (auto intro: sys_prepare sys_activate sys_close split: if_splits)

lemma run_actions_reachable:
  assumes "run_actions as ([], NewSessionTracker c) = Some s"
  shows "reachable c s"
proof -
  have "run_actions as s1 = Some s2 \<Longrightarrow> system_step\<^sup>*\<^sup>* s1 s2" for s1 s2
    by (induction as arbitrary: s1)
      (auto simp: bind_eq_Some_conv intro: converse_rtranclp_into_rtranclp dest!: do_action_step)
  with assms show ?thesis by (simp add: reachable_def)
qed

section \<open>Properties\<close>

definition finished :: "connection \<Rightarrow> bool" where
  "finished c \<longleftrightarrow> list_all (\<lambda>x. x = Finished) (snd c)"

lemma finished_held: "finished c \<Longrightarrow> held c = (case p_release (fst c) of None \<Rightarrow> {#} | Some o1 \<Rightarrow> {#o1#})"
proof -
  assume "finished c"
  then have "sum_list (map pc_held (snd c)) = {#}"
    unfolding finished_def by (induction "snd c" arbitrary: c) (auto simp: list_all_iff)
  then show ?thesis by (simp add: held_def)
qed

lemma finished_closed_held:
  assumes "conn_inv c" and "finished c" and "p_closed (fst c)"
  shows "held c = {#}"
proof -
  obtain p ts where c: "c = (p, ts)" by (cases c)
  have "CloseLock \<notin> set ts" "CloseTake \<notin> set ts" using assms(2) by (auto simp: c finished_def list_all_iff)
  with assms(1,3) have "p_release p = None" by (auto simp: c conn_inv_def close_ok_def)
  with finished_held [OF assms(2)] show ?thesis by (simp add: c)
qed

text \<open>
  C16: No session leaks and none is closed twice, however the goroutines of any number of
  connections interleave \<open>activate\<close> and \<open>closePending\<close>: when every connection has been closed and
  every call has returned, the tracker holds no device and no source.
\<close>

theorem closed_connections_leave_nothing:
  assumes "reachable c (cs, t)" and "\<forall>x \<in> set cs. finished x \<and> p_closed (fst x)"
  shows "deviceRefs t = [] \<and> sourceRefs t = []"
proof -
  have inv: "\<forall>x \<in> set cs. conn_inv x" and t: "tracks t (all_held cs)"
    using reachable_inv [OF assms(1)] by (auto simp: system_inv_def list_all_iff)
  have "\<forall>x \<in> set cs. held x = {#}" using inv assms(2) finished_closed_held by blast
  then have "all_held cs = {#}" unfolding all_held_def by (induction cs) auto
  with t show ?thesis by (simp add: tracks_nothing)
qed

text \<open>
  A connection that activates while it is being closed: the close overtakes the check of
  \<open>closed\<close>, waits for the mutex and then releases the session that was opened meanwhile.
\<close>

definition race :: "action list" where
  "race =
     [DoPrepare ''vless'' ''7'' ''192.0.2.7:1'', DoActivate 0 32768]
     @ replicate 7 (DoRun 0 0) @ [DoClose 0, DoRun 0 1]
     @ replicate 3 (DoRun 0 0) @ replicate 4 (DoRun 0 1)"

definition after_race :: "connection list \<times> session_tracker" where
  "after_race =
     ([(\<lparr>p_inbound = ''vless'', p_user = ''7'', p_source = ''192.0.2.7:1'', p_mu = False, p_active = True,
         p_closed = True, p_seen = 32768, p_release = None\<rparr>, [Finished, Finished])],
      \<lparr>deviceRefs = [], sourceRefs = [], lastAlive = [], classifier = None\<rparr>)"

theorem closed_connections_leave_nothing_witness:
  "reachable None after_race \<and> deviceRefs (snd after_race) = [] \<and> sourceRefs (snd after_race) = []"
proof -
  have "run_actions race ([], NewSessionTracker None) = Some after_race" by code_simp
  then have r: "reachable None (fst after_race, snd after_race)" by (simp add: run_actions_reachable)
  have "\<forall>x \<in> set (fst after_race). finished x \<and> p_closed (fst x)" by (simp add: after_race_def finished_def)
  from closed_connections_leave_nothing [OF r this] r show ?thesis by simp
qed

lemma reachable_devices:
  assumes "reachable c (cs, t)"
  shows "peers_of (DevicesSnapshot t) i u
      = sorted_list_of_set {op_ip o1 | o1. o1 \<in># all_held cs \<and> op_inbound o1 = i \<and> op_user o1 = u \<and> op_ip o1 \<noteq> []}"
proof -
  have t: "tracks t (all_held cs)" using reachable_inv [OF assms] by (simp add: system_inv_def)
  then have h: "rc.holds (deviceRefs t) (image_mset device_key (filter_mset (\<lambda>o1. op_ip o1 \<noteq> []) (all_held cs)))"
    by (simp add: tracks_def)
  then have wf: "wf_refs (deviceRefs t)" by (simp add: rc.holds_def)
  have "{ip. 0 < ref_count (deviceRefs t) (i, u, ip)}
      = {op_ip o1 | o1. o1 \<in># all_held cs \<and> op_inbound o1 = i \<and> op_user o1 = u \<and> op_ip o1 \<noteq> []}"
    by (auto simp: rc.holds_keys [OF h] device_key_def)
  then show ?thesis by (simp add: peers_of_Devices [OF wf])
qed

text \<open>
  C17: The devices the tracker reports for a user on an inbound are, in every reachable state, the
  sorted set of the peer addresses of the sessions that are open, and each connection has at most
  one session open.
\<close>

theorem devices_are_open_sessions:
  assumes "reachable c (cs, t)"
  shows "peers_of (DevicesSnapshot t) i u
      = sorted_list_of_set {op_ip o1 | o1. o1 \<in># all_held cs \<and> op_inbound o1 = i \<and> op_user o1 = u \<and> op_ip o1 \<noteq> []}
    \<and> list_all (\<lambda>x. size (held x) \<le> 1) cs"
  using reachable_inv [OF assms] reachable_devices [OF assms]
  by (auto simp: system_inv_def list_all_iff conn_inv_def held_ok_def)

text \<open>
  C18: A connection that is still open, whose calls have returned and through which at least
  32 KiB have passed is counted: its peer's address is among the devices of its user. (The
  threshold is reached at exactly 32768 bytes.)
\<close>

theorem busy_connection_is_counted:
  assumes "reachable c (cs, t)" and "x \<in> set cs" and "finished x" and "\<not> p_closed (fst x)"
    and "32768 \<le> sint (p_seen (fst x))" and "normalizePeerIP (p_source (fst x)) \<noteq> []"
  shows "normalizePeerIP (p_source (fst x))
    \<in> set (peers_of (DevicesSnapshot t) (normalizeInboundTag (p_inbound (fst x))) (p_user (fst x)))"
proof -
  obtain p ts where x: "x = (p, ts)" by (cases x)
  have inv: "conn_inv (p, ts)"
    using reachable_inv [OF assms(1)] assms(2) by (auto simp: x system_inv_def list_all_iff)
  have idle: "\<not> (\<exists>y \<in> set ts. activating y)" using assms(3) by (auto simp: x finished_def list_all_iff)
  have "\<not> p_seen p <s sessionActivationBytes"
    using assms(5) by (simp add: x word_sless_alt sessionActivationBytes_def)
  with inv idle assms(4) obtain o1 where o1: "p_release p = Some o1"
    by (auto simp: x conn_inv_def act_ok_def)
  then have h: "held x = {#o1#}" using finished_held [OF assms(3)] by (simp add: x)
  with inv have own: "own p o1" by (simp add: x conn_inv_def held_ok_def)
  have "held x \<subseteq># all_held cs"
    using assms(2) unfolding all_held_def by (induction cs) (auto intro: subset_mset.add_increasing)
  with h have "o1 \<in># all_held cs" by simp
  let ?S = "{op_ip o1 | o1. o1 \<in># all_held cs \<and> op_inbound o1 = normalizeInboundTag (p_inbound p)
           \<and> op_user o1 = p_user p \<and> op_ip o1 \<noteq> []}"
  have "op_ip o1 \<in> ?S"
    using \<open>o1 \<in># all_held cs\<close> own assms(6) by (intro CollectI exI [of _ o1]) (simp add: x own_def)
  moreover have "finite ?S"
    by (rule finite_subset [of _ "op_ip ` set_mset (all_held cs)"]) auto
  ultimately show ?thesis
    using own by (simp add: x reachable_devices [OF assms(1)] own_def)
qed

definition busy :: "action list" where
  "busy =
     [DoPrepare ''vless'' ''7'' ''192.0.2.7:1'', DoActivate 0 32767] @ replicate 4 (DoRun 0 0)
     @ [DoActivate 0 1] @ replicate 10 (DoRun 0 1)"

definition after_busy :: "connection list \<times> session_tracker" where
  "after_busy =
     ([(\<lparr>p_inbound = ''vless'', p_user = ''7'', p_source = ''192.0.2.7:1'', p_mu = False, p_active = True,
         p_closed = False, p_seen = 32768,
         p_release = Some \<lparr>op_inbound = ''vless'', op_user = ''7'', op_ip = ''192.0.2.7'',
                           op_label = ''192.0.2.7'', once_done = False\<rparr>\<rparr>, [Finished, Finished])],
      \<lparr>deviceRefs = [(''vless'', [(''7'', [(''192.0.2.7'', 1)])])],
       sourceRefs = [(''vless'', [(''7'', [(''192.0.2.7'', 1)])])], lastAlive = [], classifier = None\<rparr>)"

lemma busy_reachable: "reachable None (fst after_busy, snd after_busy)"
proof -
  have "run_actions busy ([], NewSessionTracker None) = Some after_busy" by code_simp
  then show ?thesis by (simp add: run_actions_reachable)
qed

theorem devices_are_open_sessions_witness:
  "reachable None after_busy \<and> list_all (\<lambda>x. size (held x) \<le> 1) (fst after_busy)
   \<and> peers_of (DevicesSnapshot (snd after_busy)) ''vless'' ''7'' = [''192.0.2.7'']"
proof -
  have "peers_of (DevicesSnapshot (snd after_busy)) ''vless'' ''7'' = [''192.0.2.7'']" by code_simp
  with devices_are_open_sessions [OF busy_reachable] busy_reachable show ?thesis by simp
qed

theorem busy_connection_is_counted_witness:
  "''192.0.2.7'' \<in> set (peers_of (DevicesSnapshot (snd after_busy)) ''vless'' ''7'')"
proof -
  let ?x = "hd (fst after_busy)"
  have ip: "normalizePeerIP ''192.0.2.7:1'' = ''192.0.2.7''" and tag: "normalizeInboundTag ''vless'' = ''vless''"
    by code_simp+
  have "?x \<in> set (fst after_busy)" "finished ?x" "\<not> p_closed (fst ?x)" "32768 \<le> sint (p_seen (fst ?x))"
    by (simp_all add: after_busy_def finished_def)
  from busy_connection_is_counted [OF busy_reachable this] ip tag show ?thesis
    by (simp add: after_busy_def)
qed

end
