(* ===== verification/Hook.thy ===== *)
theory Hook
  imports Traffic_Accounting User_Manager Session_Prepare
begin

text \<open>
  The \<open>Hook\<close> of \<open>cmd/star1ight-agent/main.go\<close>, sing-box's connection tracker: one \<open>TrafficCounter\<close>
  per inbound tag, the user manager, the session tracker and the source classifier. This theory
  holds its state, its counters over all inbounds and its small queries; \<open>Routed_Connection\<close> the
  wrapping of a connection.

  The record also has the stores of what the hook's pointers point to: the traffic storages and
  the limiters. \<open>byInbound\<close> is a \<open>sync.Map\<close> whose entries are never replaced, so a
  \<open>*TrafficCounter\<close> is the tag it is stored under.
\<close>

section \<open>State\<close>

record 'l hook =
  byInbound :: "(string, traffic_counter) gomap"
  storages :: store
  hook_users :: "user_manager option"
  limiter_cells :: "'l limiter_store"
  sessionTracker :: "session_tracker option"
  sourceClassifier :: "source_rule list option"
  sourceTraffic :: bool

definition ResolveUser :: "'l hook \<Rightarrow> string \<Rightarrow> string" where
  "ResolveUser h user = (case hook_users h of Some m \<Rightarrow> Resolve m user | None \<Rightarrow> user)"

definition tc :: "string \<Rightarrow> 'l hook \<Rightarrow> string \<times> 'l hook" where
  "tc tag h =
     (let tag = (if tag = [] then ''default'' else tag)
      in case mget (byInbound h) tag of
           Some v \<Rightarrow> (tag, h)
         | None \<Rightarrow> (tag, h\<lparr>byInbound := snd (LoadOrStore tag NewTrafficCounter (byInbound h))\<rparr>))"

text \<open>\<open>h.tc(tag).GetCounter(user)\<close>.\<close>

definition Hook_GetCounter :: "string \<Rightarrow> string \<Rightarrow> 'l hook \<Rightarrow> nat \<times> 'l hook" where
  "Hook_GetCounter tag user h =
     (let (k, h) = tc tag h;
          (a, v, st) = GetCounter user (mget_or NewTrafficCounter (byInbound h) k) (storages h)
      in (a, h\<lparr>byInbound := mput k v (byInbound h), storages := st\<rparr>))"

definition directionalLimiters :: "bool \<Rightarrow> 'l hook \<Rightarrow> string \<Rightarrow> nat option \<times> nat option \<times> nat option \<times> nat option" where
  "directionalLimiters enabled h user =
     (case hook_users h of None \<Rightarrow> (None, None, None, None) | Some m \<Rightarrow> DirectionalLimiters enabled m user)"

definition Hook_Snapshot :: "bool \<Rightarrow> 'l hook \<Rightarrow> traffic" where
  "Hook_Snapshot reset h = fold (\<lambda>(k, v) out. mput k (Snapshot reset v (storages h)) out) (byInbound h) []"

definition Hook_SnapshotDelta :: "'l hook \<Rightarrow> traffic" where
  "Hook_SnapshotDelta h =
     fold (\<lambda>(k, v) out.
         let delta = SnapshotDelta v (storages h) in if 0 < length delta then mput k delta out else out)
       (byInbound h) []"

definition Hook_CommitSnapshot :: "traffic \<Rightarrow> 'l hook \<Rightarrow> 'l hook" where
  "Hook_CommitSnapshot snapshot h =
     fold (\<lambda>(inboundTag, users) h.
         case mget (byInbound h) inboundTag of
           Some v \<Rightarrow> h\<lparr>storages := CommitSnapshot users v (storages h)\<rparr>
         | None \<Rightarrow> h)
       snapshot h"

definition Hook_RemoveAbsent :: "(string, unit) gomap \<Rightarrow> 'l hook \<Rightarrow> 'l hook" where
  "Hook_RemoveAbsent active h =
     fold (\<lambda>(k, v) h. h\<lparr>byInbound := mput k (RemoveAbsent active v (storages h)) (byInbound h)\<rparr>) (byInbound h) h"

text \<open>A nil map is the empty map.\<close>

definition Hook_AliveDelta :: "'l hook \<Rightarrow> alive_map" where
  "Hook_AliveDelta h = (case sessionTracker h of None \<Rightarrow> [] | Some t \<Rightarrow> AliveDelta t)"

definition Hook_CommitAlive :: "alive_map \<Rightarrow> 'l hook \<Rightarrow> 'l hook" where
  "Hook_CommitAlive payload h =
     (case sessionTracker h of None \<Rightarrow> h | Some t \<Rightarrow> h\<lparr>sessionTracker := Some (CommitAlive payload t)\<rparr>)"

definition DeviceSnapshot :: "'l hook \<Rightarrow> alive_map" where
  "DeviceSnapshot h = (case sessionTracker h of None \<Rightarrow> [] | Some t \<Rightarrow> DevicesSnapshot t)"

definition Hook_SourceSnapshot :: "'l hook \<Rightarrow> refs" where
  "Hook_SourceSnapshot h = (case sessionTracker h of None \<Rightarrow> [] | Some t \<Rightarrow> SourceSnapshot t)"

text \<open>What \<open>/stats?details=1\<close> answers, before its encoding.\<close>

record stats_details =
  sd_agent_slug :: string
  sd_agent_version :: string
  sd_traffic :: traffic
  sd_devices :: alive_map
  sd_sources :: refs

definition statsDetailsPayload :: "string \<Rightarrow> string \<Rightarrow> 'l hook \<Rightarrow> bool \<Rightarrow> bool \<Rightarrow> stats_details" where
  "statsDetailsPayload agentSlug agentVersion h reset delta =
     (let traffic = Hook_Snapshot reset h;
          traffic = (if delta then Hook_SnapshotDelta h else traffic)
      in \<lparr>sd_agent_slug = agentSlug, sd_agent_version = agentVersion, sd_traffic = traffic,
          sd_devices = DeviceSnapshot h, sd_sources = Hook_SourceSnapshot h\<rparr>)"

section \<open>The counters of all inbounds\<close>

definition tc_of :: "'l hook \<Rightarrow> string \<Rightarrow> traffic_counter" where
  "tc_of h i = mget_or [] (byInbound h) i"

text \<open>
  Every counter is well formed, no storage is shared between users or inbounds, and no storage has
  less counted than committed.
\<close>

definition hook_inv :: "'l hook \<Rightarrow> bool" where
  "hook_inv h \<longleftrightarrow> wf_map (byInbound h) \<and> (\<forall>i. wf_tc (tc_of h i) (storages h))
     \<and> (\<forall>i j u v a. mget (tc_of h i) u = Some a \<longrightarrow> mget (tc_of h j) v = Some a \<longrightarrow> i = j)
     \<and> (\<forall>a. nonneg2 (pending (cell (storages h) a)))"

definition hook_used :: "'l hook \<Rightarrow> string \<Rightarrow> string \<Rightarrow> pair64" where
  "hook_used h i u = used_of (tc_of h i, storages h) u"

definition hook_committed :: "'l hook \<Rightarrow> string \<Rightarrow> string \<Rightarrow> pair64" where
  "hook_committed h i u = committed_of (tc_of h i, storages h) u"

lemma hook_invD:
  assumes "hook_inv h"
  shows "wf_map (byInbound h)" "wf_tc (tc_of h i) (storages h)" "wf_map (tc_of h i)"
    "nonneg2 (pending (cell (storages h) a))" "traffic_inv (tc_of h i, storages h)"
    "mget (tc_of h i) u = Some a \<Longrightarrow> mget (tc_of h j) v = Some a \<Longrightarrow> i = j"
  using assms unfolding hook_inv_def traffic_inv_def by (auto simp: wf_tc_def)

lemma SnapshotDelta_Nil [simp]: "SnapshotDelta [] st = []"
  by (simp add: SnapshotDelta_def)

lemma mget2_Hook_SnapshotDelta:
  assumes "hook_inv h"
  shows "mget2 (Hook_SnapshotDelta h) i u = mget (SnapshotDelta (tc_of h i) (storages h)) u"
proof -
  have "Hook_SnapshotDelta h = map (\<lambda>(k, v). (k, SnapshotDelta v (storages h)))
      (filter (\<lambda>(k, v). SnapshotDelta v (storages h) \<noteq> []) (byInbound h))"
    using fold_put_select [OF hook_invD(1) [OF assms], of "\<lambda>k v. SnapshotDelta v (storages h) \<noteq> []"
        "\<lambda>k v. SnapshotDelta v (storages h)"]
    by (simp add: Hook_SnapshotDelta_def Let_def)
  then show ?thesis
    using mget_select [OF hook_invD(1) [OF assms], of "\<lambda>k v. SnapshotDelta v (storages h)"
        "\<lambda>k v. SnapshotDelta v (storages h) \<noteq> []" i]
    by (simp add: mget2_def tc_of_def mget_or_def split: option.splits)
qed

lemma wf_Hook_SnapshotDelta: "hook_inv h \<Longrightarrow> wf_map2 (Hook_SnapshotDelta h)"
proof -
  assume h: "hook_inv h"
  have "wf_map (SnapshotDelta v (storages h))" if "(k, v) \<in> set (byInbound h)" for k v
  proof -
    have "tc_of h k = v" using in_set_mget [OF hook_invD(1) [OF h] that] by (simp add: tc_of_def mget_or_def)
    with hook_invD(3) [OF h, of k] show ?thesis by (simp add: wf_SnapshotDelta)
  qed
  then show ?thesis
    unfolding Hook_SnapshotDelta_def Let_def
    by (intro fold_invariant [where P = wf_map2]) (auto simp: wf_map2_mput)
qed

section \<open>Commits\<close>

lemma Hook_CommitSnapshot_Cons:
  "Hook_CommitSnapshot ((i, us) # d) h =
     Hook_CommitSnapshot d
       (case mget (byInbound h) i of None \<Rightarrow> h | Some v \<Rightarrow> h\<lparr>storages := CommitSnapshot us v (storages h)\<rparr>)"
  by (simp add: Hook_CommitSnapshot_def split: option.split)

lemma Hook_CommitSnapshot_Nil [simp]: "Hook_CommitSnapshot [] h = h"
  by (simp add: Hook_CommitSnapshot_def)

text \<open>Only the storages change.\<close>

lemma Hook_CommitSnapshot_frame:
  "byInbound (Hook_CommitSnapshot d h) = byInbound h \<and> fresh (storages (Hook_CommitSnapshot d h)) = fresh (storages h)
   \<and> (\<forall>a. used (cell (storages (Hook_CommitSnapshot d h)) a) = used (cell (storages h) a))"
proof (induction d arbitrary: h)
  case (Cons e d)
  then show ?case by (cases e) (simp add: Hook_CommitSnapshot_Cons split: option.split)
qed simp

lemma tc_of_storages [simp]: "tc_of (h\<lparr>storages := st\<rparr>) = tc_of h"
  by (simp add: tc_of_def fun_eq_iff)

lemma tc_of_Commit [simp]: "tc_of (Hook_CommitSnapshot d h) = tc_of h"
  by (simp add: tc_of_def fun_eq_iff Hook_CommitSnapshot_frame)

definition apart :: "'l hook \<Rightarrow> bool" where
  "apart h \<longleftrightarrow> (\<forall>i. wf_tc (tc_of h i) (storages h))
     \<and> (\<forall>i j u v a. mget (tc_of h i) u = Some a \<longrightarrow> mget (tc_of h j) v = Some a \<longrightarrow> i = j)"

lemma cell_Hook_Commit:
  assumes "apart h" and "wf_map2 d" and "mget (tc_of h i) u = Some a"
  shows "cell (storages (Hook_CommitSnapshot d h)) a
    = (case mget2 d i u of None \<Rightarrow> cell (storages h) a | Some x \<Rightarrow> commit_cell x (cell (storages h) a))"
  using assms
proof (induction d arbitrary: h)
  case Nil
  then show ?case by simp
next
  case (Cons e d)
  obtain j us where e: "e = (j, us)" by (cases e)
  let ?h = "case mget (byInbound h) j of None \<Rightarrow> h | Some v \<Rightarrow> h\<lparr>storages := CommitSnapshot us v (storages h)\<rparr>"
  have wf: "wf_map us" "wf_map2 d" "mget d j = None" using Cons.prems(2) by (auto simp: e wf_map2_Cons)
  have same: "tc_of ?h = tc_of h" by (simp split: option.split)
  have "wf_tc (tc_of h k) (storages ?h)" for k
    using Cons.prems(1) unfolding apart_def by (auto intro: wf_tc_store split: option.split)
  then have "apart ?h" using Cons.prems(1) unfolding apart_def same by blast
  moreover have "mget (tc_of ?h i) u = Some a" using Cons.prems(3) same by simp
  ultimately have rest: "cell (storages (Hook_CommitSnapshot (e # d) h)) a
      = (case mget2 d i u of None \<Rightarrow> cell (storages ?h) a | Some x \<Rightarrow> commit_cell x (cell (storages ?h) a))"
    using Cons.IH wf(2) by (simp add: e Hook_CommitSnapshot_Cons)
  have here: "cell (storages ?h) a
      = (if i = j then case mget us u of None \<Rightarrow> cell (storages h) a | Some x \<Rightarrow> commit_cell x (cell (storages h) a)
         else cell (storages h) a)"
  proof (cases "mget (byInbound h) j")
    case None
    then have "tc_of h j = []" by (simp add: tc_of_def mget_or_def)
    with None Cons.prems(3) show ?thesis by auto
  next
    case (Some v)
    then have v: "tc_of h j = v" by (simp add: tc_of_def mget_or_def)
    have wfv: "wf_tc v (storages h)" using Cons.prems(1) v unfolding apart_def by metis
    show ?thesis
    proof (cases "i = j")
      case True
      with Some v Cons.prems(3) cell_CommitSnapshot [OF wfv wf(1)] show ?thesis by simp
    next
      case False
      then have "mget v w \<noteq> Some a" for w
        using Cons.prems(1,3) v unfolding apart_def by metis
      from cell_CommitSnapshot_other [OF this] False Some show ?thesis by simp
    qed
  qed
  have "i = j \<Longrightarrow> mget2 d i u = None" using wf(3) by (simp add: mget2_def)
  with rest here show ?case by (auto simp: e mget2_def split: option.splits)
qed

section \<open>Steps of the connections\<close>

text \<open>
  What connections do to the hook while the synchroniser is busy: one is routed, one counts bytes
  through the pointer it holds, a session opens or closes, a limiter is charged. As for one
  counter, amounts not yet reported stay below \<open>2^63\<close>.
\<close>

inductive hook_step :: "'l hook \<Rightarrow> 'l hook \<Rightarrow> bool" where
  hs_route: "Hook_GetCounter tag user h = (a, h') \<Longrightarrow> hook_step h h'"
| hs_up: "a < fresh (storages h) \<Longrightarrow> 0 <s n \<Longrightarrow> sint (fst (pending (cell (storages h) a))) + sint n < 2 ^ 63 \<Longrightarrow>
     hook_step h (h\<lparr>storages := add_up n a (storages h)\<rparr>)"
| hs_down: "a < fresh (storages h) \<Longrightarrow> 0 <s n \<Longrightarrow> sint (snd (pending (cell (storages h) a))) + sint n < 2 ^ 63 \<Longrightarrow>
     hook_step h (h\<lparr>storages := add_down n a (storages h)\<rparr>)"
| hs_session: "hook_step h (h\<lparr>sessionTracker := t\<rparr>)"
| hs_limiter: "hook_step h (h\<lparr>limiter_cells := ls\<rparr>)"

inductive_cases hook_stepE: "hook_step h h'"

lemma tc_keeps: "tc tag h = (k, h') \<Longrightarrow> tc_of h' = tc_of h \<and> storages h' = storages h \<and> wf_map (byInbound h') = wf_map (byInbound h)"
  by (auto simp: tc_def Let_def LoadOrStore_def tc_of_def fun_eq_iff mget_or_mput NewTrafficCounter_def wf_mput
      split: option.splits if_splits) (auto simp: mget_or_def mput_absent wf_map_snoc)

lemma Hook_GetCounter_parts:
  assumes "Hook_GetCounter tag user h = (a, h')"
  obtains k v where "GetCounter user (tc_of h k) (storages h) = (a, v, storages h')"
    "\<And>i. tc_of h' i = (if i = k then v else tc_of h i)" "wf_map (byInbound h) \<Longrightarrow> wf_map (byInbound h')"
proof -
  obtain k h1 where t: "tc tag h = (k, h1)" by fastforce
  obtain a' v st where g: "GetCounter user (mget_or NewTrafficCounter (byInbound h1) k) (storages h1) = (a', v, st)"
    by (metis prod.exhaust)
  have h': "a' = a" "h' = h1\<lparr>byInbound := mput k v (byInbound h1), storages := st\<rparr>"
    using assms by (simp_all add: Hook_GetCounter_def t g)
  show thesis
  proof (rule that [of k v])
    show "GetCounter user (tc_of h k) (storages h) = (a, v, storages h')"
      using g h' tc_keeps [OF t] by (simp add: tc_of_def NewTrafficCounter_def fun_eq_iff)
    show "tc_of h' i = (if i = k then v else tc_of h i)" for i
      using h' tc_keeps [OF t] by (simp add: tc_of_def mget_or_mput fun_eq_iff)
    show "wf_map (byInbound h')" if "wf_map (byInbound h)"
      using h' tc_keeps [OF t] that by (simp add: wf_mput)
  qed
qed

definition hook_grows :: "'l hook \<Rightarrow> 'l hook \<Rightarrow> bool" where
  "hook_grows h h' \<longleftrightarrow> fresh (storages h) \<le> fresh (storages h')
     \<and> (\<forall>i u a. mget (tc_of h i) u = Some a \<longrightarrow> mget (tc_of h' i) u = Some a)
     \<and> (\<forall>a < fresh (storages h). grows2 (pending (cell (storages h) a)) (pending (cell (storages h') a)))
     \<and> hook_committed h' = hook_committed h"

lemma GetCounter_addr:
  "GetCounter user m st = (a, m', st') \<Longrightarrow>
   (m' = m \<and> st' = st \<and> mget m user = Some a)
   \<or> (mget m user = None \<and> a = fresh st \<and> m' = mput user a m
      \<and> st' = st\<lparr>cell := (cell st)(a := zero_storage), fresh := Suc a\<rparr>)"
  by (auto simp: GetCounter_def LoadOrStore_def Let_def split: option.splits)

lemma route_keeps:
  assumes "Hook_GetCounter tag user h = (a, h')" and "hook_inv h"
  shows "hook_inv h' \<and> hook_grows h h'"
proof -
  obtain k v where g: "GetCounter user (tc_of h k) (storages h) = (a, v, storages h')"
    and tcs: "\<And>i. tc_of h' i = (if i = k then v else tc_of h i)"
    and wf: "wf_map (byInbound h) \<Longrightarrow> wf_map (byInbound h')"
    using Hook_GetCounter_parts [OF assms(1)] by blast
  note inv = hook_invD [OF assms(2)]
  note spec = GetCounter_spec [OF inv(2) g] and views = GetCounter_views [OF inv(2) g]
  have low: "mget (tc_of h i) u = Some b \<Longrightarrow> b < fresh (storages h)" for i u b
    using wf_tc_fresh [OF inv(2)] .
  have keep: "mget (tc_of h i) u = Some b \<Longrightarrow> mget (tc_of h' i) u = Some b" for i u b
    using GetCounter_addr [OF g] by (auto simp: tcs mget_mput)
  have new: "mget (tc_of h' i) u = Some b \<Longrightarrow> mget (tc_of h i) u = Some b \<or> (i = k \<and> u = user \<and> b = fresh (storages h))" for i u b
    using GetCounter_addr [OF g] by (auto simp: tcs mget_mput split: if_splits)
  have "hook_inv h'"
    unfolding hook_inv_def
  proof (intro conjI allI impI)
    show "wf_map (byInbound h')" using wf inv(1) .
    show "wf_tc (tc_of h' i) (storages h')" for i
      using spec(1) wf_tc_store [OF inv(2) spec(6)] by (simp add: tcs)
    show "nonneg2 (pending (cell (storages h') b))" for b
      using inv(4) [of b] views(3) [of b] by (auto simp: nonneg2_def zero2_def)
    show "i = j" if "mget (tc_of h' i) u = Some b" "mget (tc_of h' j) w = Some b" for i j u w b
      using new [OF that(1)] new [OF that(2)] inv(6) [of i u b j w] low by blast
  qed
  moreover have "hook_committed h' i u = hook_committed h i u" for i u
  proof (cases "i = k")
    case True
    then show ?thesis using views(2) by (simp add: hook_committed_def tcs)
  next
    case False
    then show ?thesis using spec(4) low
      by (auto simp: hook_committed_def committed_of_def tcs split: option.split)
  qed
  ultimately show ?thesis
    using keep spec(4,6) by (auto simp: hook_grows_def fun_eq_iff)
qed

lemma storages_keep:
  assumes "hook_inv h" and "\<And>a. nonneg2 (pending (cell st a))" and "fresh st = fresh (storages h)"
    and "\<And>a. committed (cell st a) = committed (cell (storages h) a)"
    and "\<And>a. grows2 (pending (cell (storages h) a)) (pending (cell st a))"
  shows "hook_inv (h\<lparr>storages := st\<rparr>) \<and> hook_grows h (h\<lparr>storages := st\<rparr>)"
  using assms
  by (auto simp: hook_inv_def hook_grows_def hook_committed_def committed_of_def fun_eq_iff wf_tc_def
      split: option.split)

lemma frame_keep:
  assumes "byInbound h' = byInbound h" and "storages h' = storages h"
  shows "hook_inv h' = hook_inv h" "hook_grows h h'" "hook_committed h' = hook_committed h" "hook_used h' = hook_used h"
    "Hook_SnapshotDelta h' = Hook_SnapshotDelta h" "tc_of h' = tc_of h"
proof -
  show t: "tc_of h' = tc_of h" using assms by (simp add: tc_of_def fun_eq_iff)
  with assms show "hook_inv h' = hook_inv h" "hook_grows h h'" "hook_committed h' = hook_committed h"
    "hook_used h' = hook_used h" "Hook_SnapshotDelta h' = Hook_SnapshotDelta h"
    by (simp_all add: hook_inv_def hook_grows_def hook_committed_def hook_used_def Hook_SnapshotDelta_def fun_eq_iff)
qed

lemma hook_step_keeps:
  assumes "hook_step h h'" and "hook_inv h"
  shows "hook_inv h' \<and> hook_grows h h'"
  using assms
proof (induction rule: hook_step.induct)
  case (hs_route tag user h a h')
  then show ?case by (rule route_keeps)
next
  case (hs_up a h n)
  note p = hook_invD(4) [OF hs_up(4)]
  from hs_up p [of a] have "nonneg2 (pending (cell (add_up n a (storages h)) b))"
    "grows2 (pending (cell (storages h) b)) (pending (cell (add_up n a (storages h)) b))" for b
    using p [of b] by (auto simp: pending_add_up nonneg2_add grows2_add)
  with storages_keep [OF hs_up(4)] show ?case by (simp add: used_add_up)
next
  case (hs_down a h n)
  note p = hook_invD(4) [OF hs_down(4)]
  from hs_down p [of a] have "nonneg2 (pending (cell (add_down n a (storages h)) b))"
    "grows2 (pending (cell (storages h) b)) (pending (cell (add_down n a (storages h)) b))" for b
    using p [of b] by (auto simp: pending_add_up nonneg2_add grows2_add)
  with storages_keep [OF hs_down(4)] show ?case by (simp add: used_add_down)
next
  case (hs_session h t)
  then show ?case using frame_keep(1,2) [of "h\<lparr>sessionTracker := t\<rparr>" h] by simp
next
  case (hs_limiter h ls)
  then show ?case using frame_keep(1,2) [of "h\<lparr>limiter_cells := ls\<rparr>" h] by simp
qed

lemma hook_grows_trans:
  assumes "hook_grows h1 h2" and "hook_grows h2 h3"
  shows "hook_grows h1 h3"
proof -
  have "grows2 (pending (cell (storages h1) a)) (pending (cell (storages h3) a))" if "a < fresh (storages h1)" for a
  proof -
    have "a < fresh (storages h2)" using that assms(1) by (simp add: hook_grows_def)
    with that assms have "grows2 (pending (cell (storages h1) a)) (pending (cell (storages h2) a))"
      "grows2 (pending (cell (storages h2) a)) (pending (cell (storages h3) a))"
      by (simp_all add: hook_grows_def)
    then show ?thesis unfolding grows2_def by linarith
  qed
  with assms show ?thesis by (simp add: hook_grows_def)
qed

lemma hook_steps_keep: "hook_step\<^sup>*\<^sup>* h h' \<Longrightarrow> hook_inv h \<Longrightarrow> hook_inv h' \<and> hook_grows h h'"
proof (induction rule: rtranclp_induct)
  case base
  then show ?case by (simp add: hook_grows_def)
next
  case (step y z)
  then show ?case using hook_step_keeps [OF step.hyps(2)] hook_grows_trans by blast
qed

section \<open>Reporting and pruning keep the invariant\<close>

definition hook_covers :: "traffic \<Rightarrow> 'l hook \<Rightarrow> bool" where
  "hook_covers d h \<longleftrightarrow> wf_map2 d \<and> (\<forall>i u. mget2 d i u \<noteq> None \<longrightarrow> mget (tc_of h i) u \<noteq> None)"

lemma apart_inv: "hook_inv h \<Longrightarrow> apart h"
  by (simp add: hook_inv_def apart_def)

lemma amount_mget2: "amount d i u = (case mget2 d i u of None \<Rightarrow> zero2 | Some x \<Rightarrow> x)"
  by (simp add: amount_def mget2_or mget_or_def [of zero2])

lemma commit_views:
  assumes "hook_inv h" and "hook_covers d h"
  shows "hook_committed (Hook_CommitSnapshot d h) i u = add2 (hook_committed h i u) (amount d i u)"
    and "hook_used (Hook_CommitSnapshot d h) i u = hook_used h i u"
proof -
  note cell = cell_Hook_Commit [OF apart_inv [OF assms(1)], of d i u]
  show "hook_committed (Hook_CommitSnapshot d h) i u = add2 (hook_committed h i u) (amount d i u)"
  proof (cases "mget (tc_of h i) u")
    case None
    with assms(2) have "mget2 d i u = None" unfolding hook_covers_def by blast
    with None show ?thesis by (simp add: hook_committed_def committed_of_def amount_mget2)
  next
    case (Some a)
    with cell assms(2) show ?thesis
      by (simp add: hook_covers_def hook_committed_def committed_of_def amount_mget2 split: option.split)
  qed
  show "hook_used (Hook_CommitSnapshot d h) i u = hook_used h i u"
    by (simp add: hook_used_def used_of_def Hook_CommitSnapshot_frame split: option.split)
qed

text \<open>A part of a snapshot may be committed any number of steps later.\<close>

lemma commit_keeps_inv:
  assumes "hook_inv h" and "hook_step\<^sup>*\<^sup>* h h'" and "wf_map2 d"
    and "\<And>i u x. mget2 d i u = Some x \<Longrightarrow> mget2 (Hook_SnapshotDelta h) i u = Some x"
  shows "hook_inv (Hook_CommitSnapshot d h')"
proof -
  from hook_steps_keep [OF assms(2,1)] have inv': "hook_inv h'" and grow: "hook_grows h h'" by auto
  let ?h = "Hook_CommitSnapshot d h'"
  have "nonneg2 (pending (cell (storages ?h) a))" for a
  proof (cases "\<exists>i u x. mget (tc_of h' i) u = Some a \<and> mget2 d i u = Some x")
    case True
    then obtain i u x where a: "mget (tc_of h' i) u = Some a" and x: "mget2 d i u = Some x" by blast
    from assms(4) [OF x] obtain b where b: "mget (tc_of h i) u = Some b" "x = pending (cell (storages h) b)"
      by (auto simp: mget2_Hook_SnapshotDelta [OF assms(1)] mget_SnapshotDelta hook_invD(3) [OF assms(1)]
          split: option.splits if_splits)
    with a grow have "b = a" by (auto simp: hook_grows_def)
    moreover have "b < fresh (storages h)" using wf_tc_fresh [OF hook_invD(2) [OF assms(1)] b(1)] .
    ultimately have "grows2 x (pending (cell (storages h') a))" "nonneg2 x"
      using grow b(2) hook_invD(4) [OF assms(1)] by (auto simp: hook_grows_def)
    then show ?thesis
      using cell_Hook_Commit [OF apart_inv [OF inv'] assms(3) a] x by (simp add: pending_commit_cell nonneg2_sub)
  next
    case False
    have "cell (storages ?h) a = cell (storages h') a"
    proof (cases "\<exists>i u. mget (tc_of h' i) u = Some a")
      case True
      then obtain i u where a: "mget (tc_of h' i) u = Some a" by blast
      with False have "mget2 d i u = None" by (metis not_None_eq)
      with cell_Hook_Commit [OF apart_inv [OF inv'] assms(3) a] show ?thesis by simp
    next
      case unowned: False
      have "cell (storages (Hook_CommitSnapshot e g)) a = cell (storages g) a" if "byInbound g = byInbound h'" for e g
        using that
      proof (induction e arbitrary: g)
        case (Cons x e)
        obtain i us where x: "x = (i, us)" by (cases x)
        have "mget v u \<noteq> Some a" if "mget (byInbound g) i = Some v" for v u
        proof -
          have "tc_of h' i = v" using that Cons.prems by (simp add: tc_of_def mget_or_def)
          with unowned show ?thesis by blast
        qed
        then show ?case
          using Cons by (auto simp: x Hook_CommitSnapshot_Cons cell_CommitSnapshot_other split: option.split)
      qed simp
      from this [OF refl] show ?thesis .
    qed
    with hook_invD(4) [OF inv'] show ?thesis by simp
  qed
  then show ?thesis
    using inv' by (simp add: hook_inv_def Hook_CommitSnapshot_frame wf_tc_def)
qed

lemma Hook_RemoveAbsent_eq:
  "Hook_RemoveAbsent active h =
     h\<lparr>byInbound := fold (\<lambda>(k, v) m. mput k (RemoveAbsent active v (storages h)) m) (byInbound h) (byInbound h)\<rparr>"
proof -
  have "fold (\<lambda>(k, v) g. g\<lparr>byInbound := mput k (RemoveAbsent active v (storages g)) (byInbound g)\<rparr>) es g
    = g\<lparr>byInbound := fold (\<lambda>(k, v) m. mput k (RemoveAbsent active v (storages g)) m) es (byInbound g)\<rparr>" for es g
    by (induction es arbitrary: g) auto
  then show ?thesis by (simp add: Hook_RemoveAbsent_def)
qed

lemma RemoveAbsent_Nil [simp]: "RemoveAbsent active [] st = []"
  by (simp add: RemoveAbsent_def)

lemma tc_of_RemoveAbsent:
  assumes "wf_map (byInbound h)"
  shows "tc_of (Hook_RemoveAbsent active h) i = RemoveAbsent active (tc_of h i) (storages h)"
  using gm.get_fold_put_distinct [of "byInbound h" "\<lambda>k v. RemoveAbsent active v (storages h)" "byInbound h" i] assms
  by (auto simp: Hook_RemoveAbsent_eq tc_of_def mget_or_def wf_map_def mget_def split: option.splits)

lemma wf_tc_mget:
  "wf_tc m st \<longleftrightarrow> wf_map m \<and> (\<forall>u v a. mget m u = Some a \<longrightarrow> mget m v = Some a \<longrightarrow> u = v)
     \<and> (\<forall>u a. mget m u = Some a \<longrightarrow> a < fresh st)"
proof
  assume "wf_tc m st"
  then show "wf_map m \<and> (\<forall>u v a. mget m u = Some a \<longrightarrow> mget m v = Some a \<longrightarrow> u = v)
     \<and> (\<forall>u a. mget m u = Some a \<longrightarrow> a < fresh st)"
    by (metis wf_tc_def wf_tc_fresh wf_tc_inj)
next
  assume m: "wf_map m \<and> (\<forall>u v a. mget m u = Some a \<longrightarrow> mget m v = Some a \<longrightarrow> u = v)
     \<and> (\<forall>u a. mget m u = Some a \<longrightarrow> a < fresh st)"
  then have "inj_on snd (set m)"
    by (intro inj_onI) (metis in_set_mget prod.collapse)
  moreover have "distinct m" using m by (simp add: wf_map_def distinct_map)
  moreover have "snd e < fresh st" if "e \<in> set m" for e
    using m in_set_mget [of m "fst e" "snd e"] that by simp
  ultimately show "wf_tc m st" using m by (simp add: wf_tc_def distinct_map)
qed

lemma RemoveAbsent_keeps_inv:
  assumes "hook_inv h"
  shows "hook_inv (Hook_RemoveAbsent active h)"
    and "mget active u \<noteq> None \<Longrightarrow> hook_committed (Hook_RemoveAbsent active h) i u = hook_committed h i u"
proof -
  let ?h = "Hook_RemoveAbsent active h"
  note inv = hook_invD [OF assms]
  have st: "storages ?h = storages h" by (simp add: Hook_RemoveAbsent_eq)
  have sub: "mget (tc_of ?h i) u = Some a \<Longrightarrow> mget (tc_of h i) u = Some a" for i u a
    by (auto simp: tc_of_RemoveAbsent [OF inv(1)] mget_RemoveAbsent [OF inv(3)] split: option.splits if_splits)
  have "wf_map (byInbound ?h)"
    using inv(1) unfolding Hook_RemoveAbsent_eq
    by (simp, intro fold_invariant [where P = wf_map]) (auto simp: wf_mput)
  moreover have "wf_tc (tc_of ?h i) (storages ?h)" for i
  proof -
    have "wf_map (tc_of ?h i)" using wf_RemoveAbsent [OF inv(3)] by (simp add: tc_of_RemoveAbsent [OF inv(1)])
    with inv(2) [of i] sub show ?thesis unfolding wf_tc_mget st by blast
  qed
  ultimately show "hook_inv ?h"
    using inv(4,6) sub unfolding hook_inv_def st by blast
  show "hook_committed ?h i u = hook_committed h i u" if "mget active u \<noteq> None"
    using that
    by (auto simp: hook_committed_def committed_of_def st tc_of_RemoveAbsent [OF inv(1)] mget_RemoveAbsent [OF inv(3)]
        split: option.splits)
qed

end
