(* ===== verification/Panel_Server.thy ===== *)
theory Panel_Server
  imports Client Alive_Reporting
begin

text \<open>
  What an agent may rely on of a panel, \<open>panel_bills\<close> and \<open>panel_shows\<close>, and that the panels of
  \<open>panelapi\<close> provide it: the Xboard client, whose server applies the requests it answers with a success
  and perhaps others (\<open>server_logs\<close>), and the source filter around such a panel.
\<close>

section \<open>Users named by their identifiers\<close>

text \<open>
  The panel names its users by their identifiers, so the core reports no numeric user in another
  spelling such as \<open>007\<close>, which the client would bill to user 7.
\<close>

definition canonical :: "string \<Rightarrow> bool" where
  "canonical u \<longleftrightarrow> \<not> isNumericUser u \<or> (\<exists>m. u = Itoa m)"

definition canonical_traffic :: "traffic \<Rightarrow> bool" where
  "canonical_traffic d \<longleftrightarrow> wf_map2 d \<and> (\<forall>i u. mget2 d i u \<noteq> None \<longrightarrow> canonical u)"

definition canonical_alive :: "alive_map \<Rightarrow> bool" where
  "canonical_alive a \<longleftrightarrow> wf_map2 a
     \<and> (\<forall>i u ips. mget2 a i u = Some ips \<longrightarrow> canonical u \<and> distinct ips \<and> [] \<notin> set ips)"

section \<open>Panels that bill and show\<close>

text \<open>
  The ledger is that of the accepted pushes: one the panel reports no error for adds the amounts of the
  inbounds \<open>I\<close> for the numeric users, a failed one and the other calls leave the ledger alone.
\<close>

definition panel_bills :: "string set \<Rightarrow> ('w \<Rightarrow> string \<Rightarrow> string \<Rightarrow> pair64) \<Rightarrow> 'w panel \<Rightarrow> bool" where
  "panel_bills I ledger p \<longleftrightarrow>
     (\<forall>d w r w'. canonical_traffic d \<longrightarrow> PushTraffic p d w = (r, w') \<longrightarrow>
        (\<forall>i \<in> I. \<forall>u. isNumericUser u \<and> canonical u \<longrightarrow>
           ledger w' i u = (if r = NoError then add2 (ledger w i u) (amount d i u) else ledger w i u)))
     \<and> (\<forall>a w. ledger (snd (PushAlive p a w)) = ledger w)
     \<and> (\<forall>w. ledger (snd (FetchUsers p w)) = ledger w)"

text \<open>
  Likewise for the devices of a user on an inbound, a set, which an accepted delta replaces.
\<close>

definition show_alive :: "alive_map \<Rightarrow> (string \<Rightarrow> string \<Rightarrow> string set) \<Rightarrow> string \<Rightarrow> string \<Rightarrow> string set" where
  "show_alive a v i u = (case mget2 a i u of None \<Rightarrow> v i u | Some ips \<Rightarrow> set ips)"

lemma show_alive_sets: "show_alive a (\<lambda>i u. set (v i u)) i u = set (apply_alive a v i u)"
  by (simp add: show_alive_def apply_alive_def split: option.split)

definition panel_shows :: "string set \<Rightarrow> ('w \<Rightarrow> string \<Rightarrow> string \<Rightarrow> string set) \<Rightarrow> 'w panel \<Rightarrow> bool" where
  "panel_shows I devices p \<longleftrightarrow>
     (\<forall>a w r w'. canonical_alive a \<longrightarrow> PushAlive p a w = (r, w') \<longrightarrow>
        (\<forall>i \<in> I. \<forall>u. isNumericUser u \<and> canonical u \<longrightarrow>
           devices w' i u = (if r = NoError then show_alive a (devices w) i u else devices w i u)))
     \<and> (\<forall>d w. devices (snd (PushTraffic p d w)) = devices w)
     \<and> (\<forall>w. devices (snd (FetchUsers p w)) = devices w)"

section \<open>The server\<close>

text \<open>
  What the client may rely on of the panel's server. A request it answers with a success has been applied,
  once. A request without such an answer, because the server refused it or was not reached, or because the
  answer got lost or came too late, may have been applied or not. \<open>log\<close> reads off the world the requests
  the server has applied, the last one first, each with whether the client saw a success.
\<close>

definition succeeded :: "error + response \<Rightarrow> bool" where
  "succeeded r = (case r of Inl err \<Rightarrow> False | Inr resp \<Rightarrow> ok_status resp)"

definition server_logs :: "'w http \<Rightarrow> ('w \<Rightarrow> (body \<times> bool) list) \<Rightarrow> bool" where
  "server_logs H log \<longleftrightarrow>
     (\<forall>rq w r w'. do_request H rq w = (r, w') \<longrightarrow>
        (if succeeded r then log w' = (rq_body rq, True) # log w
         else log w' = log w \<or> log w' = (rq_body rq, False) # log w))"

definition answered :: "(body \<times> bool) list \<Rightarrow> (body \<times> bool) list" where
  "answered log = filter snd log"

definition unanswered :: "(body \<times> bool) list \<Rightarrow> (body \<times> bool) list" where
  "unanswered log = filter (\<lambda>e. \<not> snd e) log"

text \<open>
  A view of the answered requests, \<open>view\<close> some part of the world: a success applies the request to it by
  \<open>upd\<close>, any other exchange leaves it alone.
\<close>

definition server_applies :: "'w http \<Rightarrow> ('w \<Rightarrow> 'v) \<Rightarrow> (body \<Rightarrow> 'v \<Rightarrow> 'v) \<Rightarrow> bool" where
  "server_applies H view upd \<longleftrightarrow>
     (\<forall>rq w r w'. do_request H rq w = (r, w') \<longrightarrow>
        view w' = (if succeeded r then upd (rq_body rq) (view w) else view w))"

lemma answered_applied:
  assumes "server_logs H log"
  shows "server_applies H (\<lambda>w. foldr (\<lambda>e. upd (fst e)) (answered (log w)) z) upd"
  unfolding server_applies_def
proof (intro allI impI)
  fix rq w r w' assume "do_request H rq w = (r, w')"
  with assms have "if succeeded r then log w' = (rq_body rq, True) # log w
      else log w' = log w \<or> log w' = (rq_body rq, False) # log w"
    unfolding server_logs_def by blast
  then show "foldr (\<lambda>e. upd (fst e)) (answered (log w')) z
      = (if succeeded r then upd (rq_body rq) (foldr (\<lambda>e. upd (fst e)) (answered (log w)) z)
         else foldr (\<lambda>e. upd (fst e)) (answered (log w)) z)"
    by (auto simp: answered_def split: if_splits)
qed

lemma applies_request:
  assumes "server_applies H view upd" and "do_request H rq w = (r, w')" and "upd (rq_body rq) = id"
  shows "view w' = view w"
  using assms unfolding server_applies_def by fastforce

lemma applies_FetchNodeConfig:
  assumes "server_applies H view upd" and "upd NoBody = id"
  shows "view (snd (FetchNodeConfig H c w)) = view w"
  using applies_request [OF assms(1)] assms(2)
  by (auto simp: FetchNodeConfig_def Let_def split: sum.split prod.split option.split)

lemma applies_FetchUsers:
  assumes "server_applies H view upd" and "upd NoBody = id"
  shows "view (snd (Client_FetchUsers H c w)) = view w"
proof (cases "endpoint H c ''/api/v1/server/UniProxy/user''")
  case (Inr ep)
  let ?rq = "\<lparr>rq_method = ''GET'', rq_url = fst ep, rq_query = snd ep, rq_body = NoBody\<rparr>"
  obtain x w1 y w2 where x: "do_request H ?rq w = (x, w1)" and y: "FetchNodeConfig H c w1 = (y, w2)"
    by (metis prod.exhaust)
  have "view w1 = view w" "view w2 = view w1"
    using applies_request [OF assms(1) x] assms(2) applies_FetchNodeConfig [OF assms, of c w1] by (simp_all add: y)
  with Inr x y show ?thesis
    by (cases ep) (auto simp: Client_FetchUsers_def Let_def split: sum.split)
qed (simp add: Client_FetchUsers_def)

lemma applies_post:
  assumes "server_applies H view upd" and "post H what ep payload w = (r, w')"
  shows "view w' = (if r = NoError then upd payload (view w) else view w)"
proof -
  let ?rq = "\<lparr>rq_method = ''POST'', rq_url = fst ep, rq_query = snd ep, rq_body = payload\<rparr>"
  obtain x w1 where x: "do_request H ?rq w = (x, w1)" by (cases "do_request H ?rq w")
  have "view w1 = (if succeeded x then upd payload (view w) else view w)"
    using assms(1) [unfolded server_applies_def, rule_format, OF x] by simp
  with assms(2) x show ?thesis by (auto simp: post_def succeeded_def split: sum.splits if_splits)
qed

lemma applies_PushTraffic:
  assumes "server_applies H view upd" and "\<And>p. upd (TrafficBody p) = id"
  shows "view (snd (Client_PushTraffic H c d w)) = view w"
proof -
  have "view (snd (post H what ep (TrafficBody p) w)) = view w" for what ep p
    using applies_post [OF assms(1), of what ep "TrafficBody p" w] assms(2) by (metis id_apply prod.collapse)
  then show ?thesis by (simp add: Client_PushTraffic_def Let_def split: sum.split)
qed

lemma applies_PushAlive:
  assumes "server_applies H view upd" and "\<And>p. upd (AliveBody p) = id"
  shows "view (snd (Client_PushAlive H c a w)) = view w"
proof -
  have "view (snd (post H what ep (AliveBody p) w)) = view w" for what ep p
    using applies_post [OF assms(1), of what ep "AliveBody p" w] assms(2) by (metis id_apply prod.collapse)
  then show ?thesis by (simp add: Client_PushAlive_def Let_def split: sum.split)
qed

text \<open>A server adds the amounts it is sent to its bills, and replaces the devices of a user.\<close>

definition bill_body :: "body \<Rightarrow> (i64 \<Rightarrow> pair64) \<Rightarrow> i64 \<Rightarrow> pair64" where
  "bill_body b bills = (case b of TrafficBody p \<Rightarrow> (\<lambda>n. add2 (bills n) (mget_or zero2 p n)) | _ \<Rightarrow> bills)"

definition show_body :: "body \<Rightarrow> (i64 \<Rightarrow> string set) \<Rightarrow> i64 \<Rightarrow> string set" where
  "show_body b devs =
     (case b of AliveBody p \<Rightarrow> (\<lambda>n. case mget p n of None \<Rightarrow> devs n | Some ips \<Rightarrow> set ips) | _ \<Rightarrow> devs)"

definition bill_of :: "(body \<times> bool) list \<Rightarrow> i64 \<Rightarrow> pair64" where
  "bill_of log = foldr (\<lambda>e. bill_body (fst e)) log (\<lambda>n. zero2)"

definition shown_by :: "(body \<times> bool) list \<Rightarrow> i64 \<Rightarrow> string set" where
  "shown_by log = foldr (\<lambda>e. show_body (fst e)) log (\<lambda>n. {})"

abbreviation server_bills :: "'w http \<Rightarrow> ('w \<Rightarrow> i64 \<Rightarrow> pair64) \<Rightarrow> bool" where
  "server_bills H bills \<equiv> server_applies H bills bill_body"

abbreviation server_shows :: "'w http \<Rightarrow> ('w \<Rightarrow> i64 \<Rightarrow> string set) \<Rightarrow> bool" where
  "server_shows H devs \<equiv> server_applies H devs show_body"

lemma answered_bills: "server_logs H log \<Longrightarrow> server_bills H (\<lambda>w. bill_of (answered (log w)))"
  unfolding bill_of_def by (rule answered_applied)

lemma answered_shows: "server_logs H log \<Longrightarrow> server_shows H (\<lambda>w. shown_by (answered (log w)))"
  unfolding shown_by_def by (rule answered_applied)

text \<open>
  The whole log bills the answered requests and the others. It shows the devices of the answered ones for a
  user whose last applied update was answered.
\<close>

lemma bill_of_Nil [simp]: "bill_of [] n = zero2"
  by (simp add: bill_of_def)

lemma bill_of_Cons: "bill_of (e # log) n = add2 (bill_of log n) (bill_of [e] n)"
  by (cases "fst e") (simp_all add: bill_of_def bill_body_def)

lemma bill_of_split: "bill_of log n = add2 (bill_of (answered log) n) (bill_of (unanswered log) n)"
proof (induction log)
  case (Cons e log)
  then show ?case
    using bill_of_Cons [of e log n] bill_of_Cons [of e "answered log" n] bill_of_Cons [of e "unanswered log" n]
    by (cases "snd e") (simp_all add: answered_def unanswered_def add2_def)
qed (simp add: answered_def unanswered_def)

definition updates :: "i64 \<Rightarrow> body \<Rightarrow> bool" where
  "updates n b = (case b of AliveBody p \<Rightarrow> mget p n \<noteq> None | _ \<Rightarrow> False)"

definition last_answered :: "(body \<times> bool) list \<Rightarrow> i64 \<Rightarrow> bool" where
  "last_answered log n = (case filter (\<lambda>e. updates n (fst e)) log of [] \<Rightarrow> True | e # es \<Rightarrow> snd e)"

lemma shown_by_Cons: "shown_by (e # log) n = (if updates n (fst e) then shown_by [e] n else shown_by log n)"
  by (cases "fst e") (auto simp: shown_by_def show_body_def updates_def)

lemma shown_by_answered: "last_answered log n \<Longrightarrow> shown_by log n = shown_by (answered log) n"
proof (induction log)
  case (Cons e log)
  then show ?case
    using shown_by_Cons [of e log n] shown_by_Cons [of e "answered log" n]
    by (auto simp: last_answered_def answered_def split: if_splits)
qed (simp add: answered_def)

lemma body_id:
  "bill_body NoBody = id" "bill_body (AliveBody a) = id" "show_body NoBody = id" "show_body (TrafficBody p) = id"
  by (simp_all add: bill_body_def show_body_def fun_eq_iff)

text \<open>The entry of a user of the model, read off the server.\<close>

definition server_ledger :: "('w \<Rightarrow> i64 \<Rightarrow> pair64) \<Rightarrow> 'w \<Rightarrow> string \<Rightarrow> string \<Rightarrow> pair64" where
  "server_ledger bills w i u = (case Atoi u of None \<Rightarrow> zero2 | Some n \<Rightarrow> bills w n)"

definition server_devices :: "('w \<Rightarrow> i64 \<Rightarrow> string set) \<Rightarrow> 'w \<Rightarrow> string \<Rightarrow> string \<Rightarrow> string set" where
  "server_devices devs w i u = (case Atoi u of None \<Rightarrow> {} | Some n \<Rightarrow> devs w n)"

section \<open>The client bills\<close>

lemma billed_amount:
  assumes "wf_map delta" and "\<And>t. matchesInbound c t \<longleftrightarrow> t = tag"
  shows "billed c delta u = amount delta tag u"
proof -
  have "billed c delta u = (case mget delta tag of None \<Rightarrow> zero2 | Some us \<Rightarrow> mget_or zero2 us u)"
    using assms(1) unfolding billed_def
  proof (induction delta)
    case (Cons e delta)
    have "mget delta tag = None" if "fst e = tag" using Cons.prems that by (cases e) simp
    with Cons show ?case by (cases e) (auto simp: assms(2) split: option.splits)
  qed simp
  then show ?thesis by (simp add: amount_def mget_or_def split: option.split)
qed

text \<open>The payload of a push holds, for the identifier of a user, the amount of the client's inbound.\<close>

lemma client_payload:
  assumes "canonical_traffic d" and "\<And>t. matchesInbound c t \<longleftrightarrow> t = tag" and "isNumericUser (Itoa n)"
  shows "mget_or zero2 (traffic_payload rank (flat_traffic c d)) n = amount d tag (Itoa n)"
proof -
  have wf: "wf_map2 d" "wf_map d" using assms(1) by (simp_all add: canonical_traffic_def wf_map2_def)
  have "\<exists>m. u = Itoa m" if u: "mget (flat_traffic c d) u \<noteq> None" for u
  proof -
    from flat_traffic_keys [OF wf(1) u] obtain t us where
      "isNumericUser u" "(t, us) \<in> set d" "mget us u \<noteq> None" by blast
    moreover have "mget d t = Some us" using wf(2) \<open>(t, us) \<in> set d\<close> by (simp add: mget_iff_in_set)
    ultimately have "isNumericUser u" "mget2 d t u \<noteq> None" by (simp_all add: mget2_def)
    with assms(1) show ?thesis unfolding canonical_traffic_def canonical_def by blast
  qed
  then have "mget (traffic_payload rank (flat_traffic c d)) n = mget (flat_traffic c d) (Itoa n)"
    by (rule payload_lookup [OF flat_traffic_wf])
  then show ?thesis
    using flat_traffic_sum [OF wf(1), of c "Itoa n"] billed_amount [OF wf(2) assms(2)] assms(3)
    by (simp add: mget_or_def)
qed

lemma client_push:
  assumes "server_bills H bills" and "canonical_traffic d" and "\<And>t. matchesInbound c t \<longleftrightarrow> t = tag"
    and "isNumericUser (Itoa n)" and "Client_PushTraffic H c d w = (r, w')"
  shows "bills w' n = (if r = NoError then add2 (bills w n) (amount d tag (Itoa n)) else bills w n)"
proof -
  note payload = client_payload [OF assms(2-4)]
  have none: "amount d tag (Itoa n) = zero2"
    if "flat_traffic c d = [] \<or> traffic_payload rank (flat_traffic c d) = []" for rank
  proof -
    from that have "mget_or zero2 (traffic_payload rank (flat_traffic c d)) n = zero2"
      by (auto simp: mget_or_def traffic_payload_def)
    then show ?thesis by (simp add: payload)
  qed
  from assms(5) payload show ?thesis
    by (auto simp: Client_PushTraffic_def Let_def none bill_body_def split: if_splits sum.splits
        dest!: applies_post [OF assms(1)])
qed

text \<open>So a client of one inbound is a panel that bills that inbound.\<close>

lemma client_bills:
  assumes "server_bills H bills" and "\<And>t. matchesInbound c t \<longleftrightarrow> t = tag"
  shows "panel_bills {tag} (server_ledger bills) (client_panel H k c)"
  unfolding panel_bills_def
proof (intro conjI allI impI ballI)
  fix d w r w' i u
  assume d: "canonical_traffic d" and push: "PushTraffic (client_panel H k c) d w = (r, w')"
    and i: "i \<in> {tag}" and u: "isNumericUser u \<and> canonical u"
  then obtain n where n: "u = Itoa n" by (auto simp: canonical_def)
  from client_push [OF assms(1) d assms(2), of n w r w'] push i u
  show "server_ledger bills w' i u
      = (if r = NoError then add2 (server_ledger bills w i u) (amount d i u) else server_ledger bills w i u)"
    by (simp add: n server_ledger_def client_panel_def)
qed (simp_all add: client_panel_def server_ledger_def fun_eq_iff applies_PushAlive [OF assms(1) body_id(2)]
  applies_FetchUsers [OF assms(1) body_id(1)] split: option.split)

section \<open>The client shows devices\<close>

text \<open>The innermost loop of \<open>flat_alive\<close> and the loop over the users of an inbound.\<close>

definition add_peer :: "string \<Rightarrow> string \<Rightarrow> (string, (string, unit) gomap) gomap \<Rightarrow> (string, (string, unit) gomap) gomap" where
  "add_peer user peer flat =
     (if peer = [] then flat else mput user (mput peer () (mget_or [] flat user)) flat)"

definition add_peers :: "string \<times> string list \<Rightarrow> (string, (string, unit) gomap) gomap \<Rightarrow> (string, (string, unit) gomap) gomap" where
  "add_peers e flat =
     (case e of (user, peers) \<Rightarrow>
        if \<not> isNumericUser user then flat
        else fold (add_peer user) peers (if mget flat user = None then mput user [] flat else flat))"

lemma flat_alive_eq:
  "flat_alive c alive =
     fold (\<lambda>(tag, users) flat. if \<not> matchesInbound c tag then flat else fold add_peers users flat) alive []"
proof -
  have "(\<lambda>(user, peers) flat.
             if \<not> isNumericUser user then flat
             else
               (let flat = (if mget flat user = None then mput user [] flat else flat)
                in fold (\<lambda>peer flat.
                     if peer = [] then flat else mput user (mput peer () (mget_or [] flat user)) flat) peers flat))
       = add_peers"
    by (simp add: add_peers_def Let_def add_peer_def [abs_def] fun_eq_iff)
  then show ?thesis by (simp only: flat_alive_def)
qed

lemma mget_add_peers_loop:
  assumes "mget flat user \<noteq> None" and "[] \<notin> set peers"
  shows "mget (fold (add_peer user) peers flat) u
    = (if u = user then Some (fold (\<lambda>p m. mput p () m) peers (mget_or [] flat user)) else mget flat u)"
  using assms
proof (induction peers arbitrary: flat)
  case Nil
  then show ?case by (auto simp: mget_or_def)
next
  case (Cons p peers)
  then show ?case
    using Cons.IH [of "add_peer user p flat"] by (auto simp: add_peer_def mget_mput mget_or_mput)
qed

lemma mkeys_fold_mput:
  "distinct (mkeys m @ ks) \<Longrightarrow> mkeys (fold (\<lambda>k m. mput k v m) ks m) = mkeys m @ ks"
proof (induction ks arbitrary: m)
  case (Cons k ks)
  then have "mput k v m = m @ [(k, v)]" by (auto intro: mput_absent simp: mget_None_iff)
  with Cons show ?case by (simp add: mkeys_def)
qed simp

lemma mget_add_peers:
  assumes "[] \<notin> set peers" and "distinct peers" and "mget flat user = None"
  shows "map_option mkeys (mget (add_peers (user, peers) flat) u)
    = (if u = user \<and> isNumericUser user then Some peers else map_option mkeys (mget flat u))"
proof -
  have "mkeys (fold (\<lambda>p m. mput p () m) peers []) = peers"
    using mkeys_fold_mput [of "[]" peers "()"] assms(2) by (simp add: mkeys_def)
  with assms show ?thesis
    by (simp add: add_peers_def mget_add_peers_loop mget_mput mget_or_mput)
qed

lemma mget_fold_add_peers:
  assumes "wf_map us" and "\<And>u ips. mget us u = Some ips \<Longrightarrow> distinct ips \<and> [] \<notin> set ips"
    and "\<And>u. mget us u \<noteq> None \<Longrightarrow> mget flat u = None"
  shows "map_option mkeys (mget (fold add_peers us flat) u)
    = (if mget us u \<noteq> None \<and> isNumericUser u then mget us u else map_option mkeys (mget flat u))"
  using assms
proof (induction us arbitrary: flat)
  case (Cons e us)
  obtain v ips where e: "e = (v, ips)" by (cases e)
  have wf: "wf_map us" "mget us v = None" using Cons.prems(1) by (simp_all add: e)
  have ips: "distinct ips" "[] \<notin> set ips" "mget flat v = None"
    using Cons.prems(2) [of v ips] Cons.prems(3) [of v] by (simp_all add: e)
  note here = mget_add_peers [OF ips(2,1,3)]
  have keep: "mget us u \<noteq> None \<Longrightarrow> mget (add_peers e flat) u = None" for u
    using here [of u] Cons.prems(3) [of u] wf(2) by (cases "u = v") (auto simp: e)
  have ok: "mget us u = Some ips \<Longrightarrow> distinct ips \<and> [] \<notin> set ips" for u ips
    using Cons.prems(2) [of u ips] wf(2) by (cases "u = v") (auto simp: e)
  from Cons.IH [OF wf(1) ok keep] here [of u] wf(2) show ?case
    by (cases "u = v") (auto simp: e)
qed simp

text \<open>The devices of the one inbound the client takes, under the names of the users.\<close>

lemma flat_alive_devices:
  assumes "canonical_alive a" and "\<And>t. matchesInbound c t \<longleftrightarrow> t = tag"
  shows "map_option mkeys (mget (flat_alive c a) u) = (if isNumericUser u then mget2 a tag u else None)"
proof -
  have "map_option mkeys (mget (fold (\<lambda>(tag, users) flat.
        if \<not> matchesInbound c tag then flat else fold add_peers users flat) a flat) u)
      = (case mget a tag of None \<Rightarrow> map_option mkeys (mget flat u)
         | Some us \<Rightarrow> map_option mkeys (mget (fold add_peers us flat) u))" if "wf_map a" for a :: alive_map and flat
    using that
  proof (induction a arbitrary: flat)
    case (Cons e a)
    have "mget a tag = None" if "fst e = tag" using Cons.prems that by (cases e) simp
    with Cons show ?case by (cases e) (auto simp: assms(2) split: option.splits)
  qed simp
  from this [of a "[]"] have "map_option mkeys (mget (flat_alive c a) u)
      = (case mget a tag of None \<Rightarrow> None | Some us \<Rightarrow> map_option mkeys (mget (fold add_peers us []) u))"
    using assms(1) by (simp add: flat_alive_eq canonical_alive_def wf_map2_def split: option.split)
  moreover have "map_option mkeys (mget (fold add_peers us []) u) = (if isNumericUser u then mget us u else None)"
    if us: "mget a tag = Some us" for us
  proof -
    have "mget us v = Some ips \<Longrightarrow> distinct ips \<and> [] \<notin> set ips" for v ips
      using assms(1) us unfolding canonical_alive_def mget2_def by (metis option.simps(5))
    from mget_fold_add_peers [where us = us, OF _ this, where flat = "[]" and u = u] show ?thesis
      using assms(1) us by (auto simp: canonical_alive_def dest: wf_map2D)
  qed
  ultimately show ?thesis by (auto simp: mget2_def split: option.split)
qed

lemma wf_fold_add_peer: "wf_map flat \<Longrightarrow> wf_map (fold (add_peer user) peers flat)"
  by (rule fold_invariant [where P = wf_map]) (simp_all add: add_peer_def wf_mput)

lemma wf_add_peers: "wf_map flat \<Longrightarrow> wf_map (add_peers e flat)"
  by (cases e) (simp add: add_peers_def wf_fold_add_peer wf_mput)

lemma flat_alive_wf: "wf_map (flat_alive c a)"
  unfolding flat_alive_eq
  by (rule fold_invariant, simp) (auto intro!: fold_invariant [where P = wf_map] wf_add_peers)

lemma client_alive_payload:
  assumes "canonical_alive a" and "\<And>t. matchesInbound c t \<longleftrightarrow> t = tag" and "isNumericUser (Itoa n)"
  shows "mget (alive_payload rank (flat_alive c a)) n = map_option (ranged (rank (Itoa n))) (mget2 a tag (Itoa n))"
proof -
  note flat = flat_alive_devices [OF assms(1,2)]
  have "\<exists>m. u = Itoa m" if "mget (flat_alive c a) u \<noteq> None" for u
  proof -
    from that flat [of u] have "isNumericUser u" "mget2 a tag u \<noteq> None"
      by (cases "isNumericUser u"; cases "mget2 a tag u"; auto)+
    with assms(1) show ?thesis unfolding canonical_alive_def canonical_def by fastforce
  qed
  then have "mget (alive_payload rank (flat_alive c a)) n
      = map_option (\<lambda>d. ranged (rank (Itoa n)) (mkeys d)) (mget (flat_alive c a) (Itoa n))"
    using fold_Atoi_lookup [of "ranged (rank []) (flat_alive c a)" "\<lambda>u d. ranged (rank u) (mkeys d)" n]
    by (simp add: alive_payload_def flat_alive_wf)
  also have "\<dots> = map_option (ranged (rank (Itoa n))) (map_option mkeys (mget (flat_alive c a) (Itoa n)))"
    by (simp add: option.map_comp comp_def)
  finally show ?thesis using flat [of "Itoa n"] assms(3) by simp
qed

lemma client_push_alive:
  assumes "server_shows H devs" and "canonical_alive a" and "\<And>t. matchesInbound c t \<longleftrightarrow> t = tag"
    and "isNumericUser (Itoa n)" and "Client_PushAlive H c a w = (r, w')"
  shows "devs w' n = (if r = NoError then case mget2 a tag (Itoa n) of None \<Rightarrow> devs w n | Some ips \<Rightarrow> set ips else devs w n)"
proof -
  note payload = client_alive_payload [OF assms(2-4)]
  have none: "mget2 a tag (Itoa n) = None" if "flat_alive c a = [] \<or> alive_payload rank (flat_alive c a) = []" for rank
  proof -
    from that have "mget (alive_payload rank (flat_alive c a)) n = None" by (auto simp: alive_payload_def)
    then show ?thesis by (simp add: payload)
  qed
  from assms(5) payload show ?thesis
    by (auto simp: Client_PushAlive_def Let_def none show_body_def split: if_splits sum.splits option.split
        dest!: applies_post [OF assms(1)])
qed

lemma client_shows:
  assumes "server_shows H devs" and "\<And>t. matchesInbound c t \<longleftrightarrow> t = tag"
  shows "panel_shows {tag} (server_devices devs) (client_panel H k c)"
  unfolding panel_shows_def
proof (intro conjI allI impI ballI)
  fix a w r w' i u
  assume a: "canonical_alive a" and push: "PushAlive (client_panel H k c) a w = (r, w')"
    and i: "i \<in> {tag}" and u: "isNumericUser u \<and> canonical u"
  then obtain n where n: "u = Itoa n" by (auto simp: canonical_def)
  from client_push_alive [OF assms(1) a assms(2), of n w r w'] push i u
  show "server_devices devs w' i u
      = (if r = NoError then show_alive a (server_devices devs w) i u else server_devices devs w i u)"
    by (auto simp: n server_devices_def client_panel_def show_alive_def split: option.split)
qed (simp_all add: client_panel_def server_devices_def fun_eq_iff applies_PushTraffic [OF assms(1) body_id(4)]
  applies_FetchUsers [OF assms(1) body_id(3)] split: option.split)

section \<open>The source filter\<close>

text \<open>A filter bills and shows what its inner panel does, on the inbounds it does not drop.\<close>

lemma mget_filterTraffic:
  "wf_map2 d \<Longrightarrow> mget (filterTraffic ds d) i = (if shouldDrop ds i then None else mget d i)"
  by (simp add: filterTraffic_eq mget_filter_keys [where P = "\<lambda>i. \<not> shouldDrop ds i"])

lemma filtered_bills:
  assumes "panel_bills I ledger p"
  shows "panel_bills {i \<in> I. \<not> shouldDrop ds i} ledger (SourceFilteredPanel (Some p) ds)"
proof -
  have canon: "canonical_traffic (filterTraffic ds d)" if "canonical_traffic d" for d
    using that by (auto simp: canonical_traffic_def filterTraffic_eq wf_map2_def wf_filter mget2_def
        mget_filter_keys [where P = "\<lambda>i. \<not> shouldDrop ds i"] split: if_splits)
  have same: "amount (filterTraffic ds d) i u = amount d i u" if "canonical_traffic d" "\<not> shouldDrop ds i" for d i u
    using that by (simp add: canonical_traffic_def amount_def mget_or_def mget_filterTraffic)
  have "ledger w' i u = (if r = NoError then add2 (ledger w i u) (amount d i u) else ledger w i u)"
    if d: "canonical_traffic d" and push: "PushTraffic (SourceFilteredPanel (Some p) ds) d w = (r, w')"
      and i: "i \<in> I" "\<not> shouldDrop ds i" and u: "isNumericUser u" "canonical u" for d w r w' i u
  proof (cases "filterTraffic ds d = []")
    case True
    with same [OF d i(2), of u] push show ?thesis
      by (auto simp: SourceFilteredPanel_def Filtered_PushTraffic_def amount_def mget_or_def)
  next
    case False
    with push have "PushTraffic p (filterTraffic ds d) w = (r, w')"
      by (simp add: SourceFilteredPanel_def Filtered_PushTraffic_def)
    with assms canon [OF d] i(1) u show ?thesis
      unfolding panel_bills_def same [OF d i(2), symmetric] by blast
  qed
  moreover have "ledger (snd (PushAlive (SourceFilteredPanel (Some p) ds) a w)) = ledger w"
    "ledger (snd (FetchUsers (SourceFilteredPanel (Some p) ds) w)) = ledger w" for a w
    using assms by (simp_all add: panel_bills_def SourceFilteredPanel_def Filtered_PushAlive_def Filtered_FetchUsers_def Let_def)
  ultimately show ?thesis unfolding panel_bills_def by blast
qed

lemma filtered_shows:
  assumes "panel_shows I devices p"
  shows "panel_shows {i \<in> I. \<not> shouldDrop ds i} devices (SourceFilteredPanel (Some p) ds)"
proof -
  have filter: "filterAlive ds a = filter (\<lambda>e. \<not> shouldDrop ds (fst e)) a" if "canonical_alive a" for a
    using that by (simp add: canonical_alive_def filterAlive_eq)
  have mget: "mget2 (filterAlive ds a) i u = (if shouldDrop ds i then None else mget2 a i u)" if "canonical_alive a" for a i u
    by (simp add: filter [OF that] mget2_def mget_filter_keys [where P = "\<lambda>i. \<not> shouldDrop ds i"])
  have canon: "canonical_alive (filterAlive ds a)" if "canonical_alive a" for a
    using that mget [OF that] by (auto simp: canonical_alive_def filterAlive_eq wf_map2_def wf_filter split: if_splits)
  have "devices w' i u = (if r = NoError then show_alive a (devices w) i u else devices w i u)"
    if a: "canonical_alive a" and push: "PushAlive (SourceFilteredPanel (Some p) ds) a w = (r, w')"
      and i: "i \<in> I" "\<not> shouldDrop ds i" and u: "isNumericUser u" "canonical u" for a w r w' i u
  proof (cases "filterAlive ds a = []")
    case True
    with mget [OF a, of i u] push i(2) show ?thesis
      by (auto simp: SourceFilteredPanel_def Filtered_PushAlive_def show_alive_def mget2_def)
  next
    case False
    with push have "PushAlive p (filterAlive ds a) w = (r, w')"
      by (simp add: SourceFilteredPanel_def Filtered_PushAlive_def)
    with assms canon [OF a] i(1) u
    have "devices w' i u = (if r = NoError then show_alive (filterAlive ds a) (devices w) i u else devices w i u)"
      unfolding panel_shows_def by blast
    with mget [OF a, of i u] i(2) show ?thesis by (simp add: show_alive_def)
  qed
  moreover have "devices (snd (PushTraffic (SourceFilteredPanel (Some p) ds) d w)) = devices w"
    "devices (snd (FetchUsers (SourceFilteredPanel (Some p) ds) w)) = devices w" for d w
    using assms by (simp_all add: panel_shows_def SourceFilteredPanel_def Filtered_PushTraffic_def Filtered_FetchUsers_def Let_def)
  ultimately show ?thesis unfolding panel_shows_def by blast
qed

end
