(* ===== verification/Agent.thy ===== *)
theory Agent
  imports Syncer Hook Panel_Server
begin

text \<open>
  The agent as \<open>main\<close> of \<open>cmd/star1ight-agent/main.go\<close> wires it: the synchroniser runs over the hook
  and the sing-box core. The state of the process is the hook with its stores and the core \<open>'c\<close>,
  whose inbounds (\<open>list_inbounds\<close>) and clock are parameters, like the operations \<open>C\<close> of its inbounds.

  The theory shows that the pair meets the contracts of the synchroniser, so that over any run of
  it the panel's books agree with the counters, for every panel that bills what it is sent, such as the Xboard client.
\<close>

section \<open>Wiring\<close>

definition collectInbounds :: "(string \<times> inbound_kind) list \<Rightarrow> (string, inbound_kind) gomap" where
  "collectInbounds ins = fold (\<lambda>(tag, kind) out. mput tag kind out) ins []"

text \<open>What \<open>main\<close> knows of the core.\<close>

record ('l, 't, 'c) platform =
  userRateLimitBuildEnabled :: bool
  rate_package :: "('l, 't) xrate"
  core_ops :: "'c core"
  clock :: "'c \<Rightarrow> 't"
  list_inbounds :: "'c \<Rightarrow> (string \<times> inbound_kind) list"

text \<open>\<open>userManager.ApplyBox(collectInbounds(b), list)\<close>.\<close>

definition apply_box :: "('l, 't, 'c) platform \<Rightarrow> user list \<Rightarrow> 'l hook \<times> 'c \<Rightarrow> error option \<times> 'l hook \<times> 'c" where
  "apply_box P users s =
     (case s of (h, c) \<Rightarrow>
        (case hook_users h of
           None \<Rightarrow> (None, h, c)
         | Some m \<Rightarrow>
             (case ApplyBox (userRateLimitBuildEnabled P) (rate_package P) (clock P c) (core_ops P)
                     (collectInbounds (list_inbounds P c)) users (m, limiter_cells h) c of
                (err, (m, ls), c) \<Rightarrow> (err, h\<lparr>hook_users := Some m, limiter_cells := ls\<rparr>, c))))"

text \<open>The callback \<open>Users\<close> of the synchroniser.\<close>

definition users_callback :: "('l, 't, 'c) platform \<Rightarrow> user list \<Rightarrow> 'l hook \<times> 'c \<Rightarrow> error option \<times> 'l hook \<times> 'c" where
  "users_callback P users s =
     (case apply_box P users s of
        (Some err, s) \<Rightarrow> (Some err, s)
      | (None, h, c) \<Rightarrow>
          (None, (case hook_users h of None \<Rightarrow> h | Some m \<Rightarrow> Hook_RemoveAbsent (ActiveIDs m) h), c))"

definition agent_syncer :: "('l, 't, 'c) platform \<Rightarrow> 'w panel \<Rightarrow> i64 \<Rightarrow> ('l hook \<times> 'c, 'w) syncer" where
  "agent_syncer P p panelEvery =
     \<lparr>sy_Panel = Some p,
      sy_Snapshot = Some (\<lambda>s. Hook_SnapshotDelta (fst s)),
      sy_Commit = Some (\<lambda>d s. (Hook_CommitSnapshot d (fst s), snd s)),
      sy_Alive = Some (\<lambda>s. Hook_AliveDelta (fst s)),
      sy_CommitAlive = Some (\<lambda>a s. (Hook_CommitAlive a (fst s), snd s)),
      sy_Users = Some (users_callback P),
      sy_Every = panelEvery\<rparr>"

text \<open>The hook \<open>main\<close> makes: \<open>ms\<close> is the new user manager with its limiters.\<close>

definition new_hook ::
  "user_manager \<times> 'l limiter_store \<Rightarrow> source_rule list option \<Rightarrow> (string, string) gomap \<Rightarrow> (string, bool) gomap \<Rightarrow> 'l hook" where
  "new_hook ms c sourceServerMap sourceDropLabels =
     \<lparr>byInbound = [], storages = empty_store, hook_users = Some (fst ms), limiter_cells = snd ms,
      sessionTracker = Some (NewSessionTracker c), sourceClassifier = c,
      sourceTraffic = (0 < length sourceServerMap \<or> 0 < length sourceDropLabels)\<rparr>"

section \<open>Views\<close>

text \<open>
  The books are compared for a set \<open>I\<close> of inbounds the panel bills and a set \<open>U\<close> of users that every
  list of the panel has: the counters of other users are pruned, and what they leave behind is
  \<open>pruned_counter_loses_traffic\<close>.
\<close>

definition only :: "string set \<Rightarrow> string set \<Rightarrow> (string \<Rightarrow> string \<Rightarrow> pair64) \<Rightarrow> string \<Rightarrow> string \<Rightarrow> pair64" where
  "only I U v i u = (if i \<in> I \<and> u \<in> U \<and> isNumericUser u then v i u else zero2)"

definition apply_only ::
  "string set \<Rightarrow> string set \<Rightarrow> traffic \<Rightarrow> (string \<Rightarrow> string \<Rightarrow> pair64) \<Rightarrow> string \<Rightarrow> string \<Rightarrow> pair64" where
  "apply_only I U d v i u = (if i \<in> I \<and> u \<in> U \<and> isNumericUser u then add2 (v i u) (amount d i u) else v i u)"

definition lists_all :: "string set \<Rightarrow> user list \<Rightarrow> bool" where
  "lists_all U us \<longleftrightarrow> (\<forall>u \<in> U. \<exists>v \<in> set us. 0 < sint (ID v) \<and> u = Itoa (ID v))"

text \<open>The core names the users it counts by their identifiers.\<close>

definition canonical_hook :: "'l hook \<Rightarrow> bool" where
  "canonical_hook h \<longleftrightarrow> (\<forall>i u. mget (tc_of h i) u \<noteq> None \<longrightarrow> canonical u)"

inductive agent_step :: "'l hook \<times> 'c \<Rightarrow> 'l hook \<times> 'c \<Rightarrow> bool" where
  as_hook: "hook_step h h' \<Longrightarrow> (canonical_hook h \<Longrightarrow> canonical_hook h') \<Longrightarrow> agent_step (h, c) (h', c)"
| as_core: "agent_step (h, c) (h, c')"

inductive_cases agent_stepE: "agent_step s s'"

lemma agent_steps_hook: "agent_step\<^sup>*\<^sup>* s s' \<Longrightarrow> hook_step\<^sup>*\<^sup>* (fst s) (fst s')"
proof (induction rule: rtranclp_induct)
  case base
  then show ?case by simp
next
  case (step y z)
  from step.hyps(2) have "hook_step (fst y) (fst z) \<or> fst z = fst y" by (auto elim: agent_stepE)
  with step.IH show ?case by (auto intro: rtranclp.rtrancl_into_rtrancl)
qed

lemma amount_commitDelta:
  "wf_map2 d \<Longrightarrow> amount (commitDelta d) i u = (if isNumericUser u then amount d i u else zero2)"
  by (simp add: amount_mget2 mget2_commitDelta)

lemma hook_complete:
  assumes "hook_inv h"
  shows "add2 (hook_committed h i u) (amount (Hook_SnapshotDelta h) i u) = hook_used h i u"
proof -
  have "amount (Hook_SnapshotDelta h) i u = mget_or zero2 (snapshot_traffic (tc_of h i, storages h)) u"
    by (simp add: amount_mget2 mget2_Hook_SnapshotDelta [OF assms] snapshot_traffic_def mget_or_def)
  then show ?thesis
    using tr.snapshot_complete [OF hook_invD(5) [OF assms], of i]
    by (simp add: apply_traffic_def fun_eq_iff hook_committed_def hook_used_def)
qed

section \<open>Users stay listed\<close>

lemma ActiveIDs_mget: "mget (ActiveIDs m) s \<noteq> None \<longleftrightarrow> (\<exists>uid. mget (um_users m) uid \<noteq> None \<and> s = Itoa uid)"
proof -
  have "mget (fold (\<lambda>(uid, u) out. mput (Itoa uid) () out) us out) s \<noteq> None
    \<longleftrightarrow> mget out s \<noteq> None \<or> (\<exists>uid. mget us uid \<noteq> None \<and> s = Itoa uid)" for us :: "(i64, user) gomap" and out
    by (induction us arbitrary: out) (auto simp: mget_mput split: if_splits)
  from this [of "um_users m" "[]"] show ?thesis by (simp add: ActiveIDs_def)
qed

lemma next_users_all: "v \<in> set us \<Longrightarrow> 0 < sint (ID v) \<Longrightarrow> mget (next_users us) (ID v) \<noteq> None"
proof -
  have "v \<in> set us \<Longrightarrow> 0 < sint (ID v) \<Longrightarrow>
      mget (fold (\<lambda>u next. if sint (ID u) \<le> 0 then next else mput (ID u) u next) us m) (ID v) \<noteq> None" for m
  proof (induction us rule: rev_induct)
    case (snoc u us)
    then show ?case by (auto simp: mget_mput)
  qed simp
  then show "v \<in> set us \<Longrightarrow> 0 < sint (ID v) \<Longrightarrow> mget (next_users us) (ID v) \<noteq> None"
    unfolding next_users_def by blast
qed

lemma canonical_frame: "byInbound h' = byInbound h \<Longrightarrow> canonical_hook h' = canonical_hook h"
  by (simp add: canonical_hook_def tc_of_def)

lemma canonical_RemoveAbsent:
  assumes "hook_inv h" and "canonical_hook h"
  shows "canonical_hook (Hook_RemoveAbsent active h)"
  using assms(2)
  by (auto simp: canonical_hook_def tc_of_RemoveAbsent [OF hook_invD(1) [OF assms(1)]]
      mget_RemoveAbsent [OF hook_invD(3) [OF assms(1)]] split: option.splits if_splits)

lemma canonical_snapshot:
  assumes "hook_inv h" and "canonical_hook h"
  shows "canonical_traffic (Hook_SnapshotDelta h)"
  using assms(2) unfolding canonical_traffic_def canonical_hook_def
  by (auto simp: wf_Hook_SnapshotDelta [OF assms(1)] mget2_Hook_SnapshotDelta [OF assms(1)]
      mget_SnapshotDelta hook_invD(3) [OF assms(1)] split: if_splits option.splits)

definition agent_inv :: "'l hook \<times> 'c \<Rightarrow> bool" where
  "agent_inv s \<longleftrightarrow> hook_inv (fst s) \<and> canonical_hook (fst s)"

lemma users_callback_keeps:
  assumes "agent_inv s" and "lists_all U us"
  shows "agent_inv (snd (users_callback P us s))
    \<and> only I U (hook_committed (fst (snd (users_callback P us s)))) = only I U (hook_committed (fst s))"
proof (cases "hook_users (fst s)")
  case None
  with assms(1) show ?thesis by (cases s) (simp add: users_callback_def apply_box_def agent_inv_def)
next
  case (Some m)
  obtain h c where s: "s = (h, c)" by (cases s)
  obtain err m' ls c' where ab: "ApplyBox (userRateLimitBuildEnabled P) (rate_package P) (clock P c) (core_ops P)
      (collectInbounds (list_inbounds P c)) us (m, limiter_cells h) c = (err, (m', ls), c')"
    by (metis prod.exhaust)
  let ?h = "h\<lparr>hook_users := Some m', limiter_cells := ls\<rparr>"
  have box: "apply_box P us s = (err, ?h, c')" using Some ab by (simp add: apply_box_def s)
  have h: "hook_inv ?h" "hook_committed ?h = hook_committed h" "canonical_hook ?h"
    using assms(1) frame_keep(1,3) [of ?h h] canonical_frame [of ?h h] by (simp_all add: s agent_inv_def)
  show ?thesis
  proof (cases err)
    case (Some e)
    with box h show ?thesis by (simp add: users_callback_def s agent_inv_def)
  next
    case None
    with ab obtain ch ms1 where "(m', ls) = ((fst ms1)\<lparr>um_users := next_users us, bySecret := next_secrets us\<rparr>, snd ms1)"
      using ApplyBox_success by metis
    then have "um_users m' = next_users us" by simp
    with assms(2) have "u \<in> U \<Longrightarrow> mget (ActiveIDs m') u \<noteq> None" for u
      using next_users_all unfolding ActiveIDs_mget lists_all_def by metis
    then have "only I U (hook_committed (Hook_RemoveAbsent (ActiveIDs m') ?h)) = only I U (hook_committed h)"
      using RemoveAbsent_keeps_inv(2) [OF h(1)] h(2) by (auto simp: only_def fun_eq_iff)
    with None box RemoveAbsent_keeps_inv(1) [OF h(1)] canonical_RemoveAbsent [OF h(1,3)] show ?thesis
      by (simp add: users_callback_def s agent_inv_def)
  qed
qed

section \<open>The agent meets the contract\<close>

interpretation ag: traffic_source agent_inv "\<lambda>s. Hook_SnapshotDelta (fst s)"
  "\<lambda>d s. (Hook_CommitSnapshot d (fst s), snd s)" "\<lambda>s. only I U (hook_used (fst s))"
  "\<lambda>s. only I U (hook_committed (fst s))" "apply_only I U" "\<lambda>d s. hook_covers d (fst s)" agent_step
  canonical_traffic "lists_all U" "users_callback P" "\<lambda>s. Hook_AliveDelta (fst s)" "\<lambda>a s. (Hook_CommitAlive a (fst s), snd s)"
  for I U :: "string set" and P :: "('l, 't, 'c) platform"
proof unfold_locales
  fix s s' :: "'l hook \<times> 'c" and d
  have alive: "byInbound (Hook_CommitAlive a h) = byInbound h \<and> storages (Hook_CommitAlive a h) = storages h" for a and h :: "'l hook"
    by (simp add: Hook_CommitAlive_def split: option.split)
  {
    assume inv: "agent_inv s"
    then have s: "hook_inv (fst s)" by (simp add: agent_inv_def)
    note wf = wf_Hook_SnapshotDelta [OF s]
    show "canonical_traffic (Hook_SnapshotDelta (fst s))"
      using inv canonical_snapshot [of "fst s"] by (simp add: agent_inv_def)
    show "hook_covers (commitDelta (Hook_SnapshotDelta (fst s))) (fst s)"
      using hook_invD(3) [OF s]
      by (auto simp: hook_covers_def wf_commitDelta mget2_commitDelta [OF wf] mget2_Hook_SnapshotDelta [OF s]
          mget_SnapshotDelta split: if_splits option.splits)
    show "apply_only I U (commitDelta (Hook_SnapshotDelta (fst s))) (only I U (hook_committed (fst s))) = only I U (hook_used (fst s))"
      using hook_complete [OF s] by (auto simp: apply_only_def only_def fun_eq_iff amount_commitDelta [OF wf])
    show "agent_inv (snd (users_callback P us s))
        \<and> only I U (hook_committed (fst (snd (users_callback P us s)))) = only I U (hook_committed (fst s))"
      if "lists_all U us" for us
      using users_callback_keeps [OF inv that] .
    show "agent_inv (Hook_CommitAlive a (fst s), snd s)
        \<and> only I U (hook_committed (fst (Hook_CommitAlive a (fst s), snd s))) = only I U (hook_committed (fst s))" for a
      using inv alive frame_keep(1,3) [of "Hook_CommitAlive a (fst s)" "fst s"] canonical_frame [of "Hook_CommitAlive a (fst s)" "fst s"]
      by (simp add: agent_inv_def)
    show "only I U (hook_committed (fst (Hook_CommitSnapshot d (fst s), snd s))) = apply_only I U d (only I U (hook_committed (fst s)))"
      "only I U (hook_used (fst (Hook_CommitSnapshot d (fst s), snd s))) = only I U (hook_used (fst s))"
      if "hook_covers d (fst s)"
      using commit_views [OF s that] by (auto simp: only_def apply_only_def fun_eq_iff)
  }
  {
    assume step: "agent_step s s'" and inv: "agent_inv s"
    from step have keep: "agent_inv s' \<and> hook_grows (fst s) (fst s')"
    proof (cases rule: agent_step.cases)
      case (as_hook h h' c)
      with inv hook_step_keeps [of h h'] show ?thesis by (simp add: agent_inv_def)
    next
      case (as_core h c c')
      with inv show ?thesis by (simp add: agent_inv_def hook_grows_def)
    qed
    then show "agent_inv s'" "only I U (hook_committed (fst s')) = only I U (hook_committed (fst s))"
      by (simp_all add: hook_grows_def)
    show "hook_covers d (fst s')" if "hook_covers d (fst s)"
      using keep that unfolding hook_covers_def hook_grows_def by (metis option.collapse option.distinct(1))
  }
  assume inv: "agent_inv s" and steps: "agent_step\<^sup>*\<^sup>* s s'"
  from steps inv have "canonical_hook (fst s')"
  proof (induction rule: rtranclp_induct)
    case (step y z)
    then show ?case by (auto elim: agent_stepE)
  qed (simp add: agent_inv_def)
  moreover have s: "hook_inv (fst s)" using inv by (simp add: agent_inv_def)
  moreover have "hook_inv (Hook_CommitSnapshot (commitDelta (Hook_SnapshotDelta (fst s))) (fst s'))"
    by (rule commit_keeps_inv [OF s agent_steps_hook [OF steps] wf_commitDelta])
      (simp add: mget2_commitDelta [OF wf_Hook_SnapshotDelta [OF s]] split: if_splits)
  ultimately show "agent_inv (Hook_CommitSnapshot (commitDelta (Hook_SnapshotDelta (fst s))) (fst s'), snd s')"
    using canonical_frame [of "Hook_CommitSnapshot (commitDelta (Hook_SnapshotDelta (fst s))) (fst s')" "fst s'"]
    by (simp add: agent_inv_def Hook_CommitSnapshot_frame)
qed

section \<open>Panels that bill\<close>

text \<open>Every list of users the panel hands out has the users \<open>U\<close>.\<close>

definition panel_lists :: "string set \<Rightarrow> 'w panel \<Rightarrow> bool" where
  "panel_lists U p \<longleftrightarrow> (\<forall>w us. fst (FetchUsers p w) = Inr us \<longrightarrow> lists_all U us)"

lemma panel_keeps_books:
  assumes "panel_bills I ledger p" and "panel_lists U p" and "\<forall>u \<in> U. canonical u"
  shows "keeps_books canonical_traffic (\<lambda>w. only I U (ledger w)) (apply_only I U) (lists_all U) p"
  unfolding keeps_books_def
proof (intro conjI allI impI)
  fix d w r w' assume d: "canonical_traffic d" and "PushTraffic p d w = (r, w')"
  with assms(1,3) have "only I U (ledger w') i u
      = (if r = NoError then apply_only I U (commitDelta d) (only I U (ledger w)) else only I U (ledger w)) i u" for i u
    by (auto simp: panel_bills_def only_def apply_only_def amount_commitDelta canonical_traffic_def)
  then show "only I U (ledger w') = (if r = NoError then apply_only I U (commitDelta d) (only I U (ledger w)) else only I U (ledger w))"
    by blast
next
  show "only I U (ledger (snd (PushAlive p a w))) = only I U (ledger w)" for a w
    using assms(1) by (simp add: panel_bills_def)
next
  fix w r w' assume f: "FetchUsers p w = (r, w')"
  have "ledger (snd (FetchUsers p w)) = ledger w" using assms(1) by (simp add: panel_bills_def)
  with f show "only I U (ledger w') = only I U (ledger w)" by simp
  fix us assume "r = Inr us"
  with f assms(2) show "lists_all U us" by (metis fst_conv panel_lists_def)
qed

lemma new_hook_inv:
  "hook_inv (new_hook ms c ssm sdl)" "hook_committed (new_hook ms c ssm sdl) i u = zero2"
  "canonical_hook (new_hook ms c ssm sdl)"
  by (simp_all add: new_hook_def hook_inv_def tc_of_def mget_or_def wf_tc_def nonneg2_def pending_def zero2_def
      empty_store_def hook_committed_def committed_of_def canonical_hook_def)

section \<open>Billing\<close>

lemma agent_bills:
  assumes "panel_bills I ledger p" and "panel_lists {u} p" and "i \<in> I" and "u = Itoa n" and "isNumericUser u"
    and "works agent_step first" and "\<forall>e \<in> set es. event_works agent_step e"
    and "\<forall>i u. ledger w0 i u = zero2"
    and "Run (agent_syncer P p every) first es ((new_hook ms c ssm sdl, c0), w0) \<in> {Waiting ((h, c1), w), Returned ((h, c1), w)}"
  shows "ledger w i u = hook_committed h i u
    \<and> add2 (ledger w i u) (amount (Hook_SnapshotDelta h) i u) = hook_used h i u"
proof -
  let ?agrees = "books_agree agent_inv (\<lambda>s. only I {u} (hook_committed (fst s))) (\<lambda>w. only I {u} (ledger w))"
  have u: "\<forall>u \<in> {u}. canonical u" using assms(4) by (auto simp: canonical_def)
  have "?agrees ((h, c1), w)"
  proof (rule ag.Run_agrees [OF _ panel_keeps_books [OF assms(1,2) u] assms(6,7)])
    show "?agrees ((new_hook ms c ssm sdl, c0), w0)"
      using assms(8) by (simp add: books_agree_def agent_inv_def new_hook_inv only_def fun_eq_iff)
    show "Run (agent_syncer P p every) first es ((new_hook ms c ssm sdl, c0), w0) = Waiting ((h, c1), w)
        \<or> Run (agent_syncer P p every) first es ((new_hook ms c ssm sdl, c0), w0) = Returned ((h, c1), w)"
      using assms(9) by blast
  qed (simp add: agent_syncer_def wired_to_def)
  then have h: "hook_inv h" and "only I {u} (ledger w) = only I {u} (hook_committed h)"
    by (simp_all add: books_agree_def agent_inv_def)
  then have "ledger w i u = hook_committed h i u"
    using assms(3,5) by (metis only_def singletonI)
  with hook_complete [OF h(1)] show ?thesis by simp
qed

text \<open>
  C2: The agent bills what it counted. However the panel's answers, its refusals, the update of users
  and the connections interleave, in every state a run of the synchroniser reaches the ledger of a
  user the panel keeps listing holds, on each inbound the panel bills, exactly the bytes recorded as
  reported, and the next delta adds exactly what has been counted since: nothing is lost and nothing
  is billed twice.
\<close>

theorem agent_bills_what_it_counts:
  assumes "panel_bills I ledger p" and "panel_lists {u} p" and "i \<in> I" and "u = Itoa n" and "isNumericUser u"
    and "works agent_step first" and "\<forall>e \<in> set es. event_works agent_step e"
    and "\<forall>i u. ledger w0 i u = zero2"
    and "Run (agent_syncer P p every) first es ((new_hook ms c ssm sdl, c0), w0) \<in> {Waiting ((h, c1), w), Returned ((h, c1), w)}"
  shows "ledger w i u = hook_committed h i u
    \<and> add2 (ledger w i u) (amount (Hook_SnapshotDelta h) i u) = hook_used h i u"
  using assms by (rule agent_bills)

text \<open>
  A server whose answer to the first request with a body gets lost, after it has applied it: its state is
  whether that has happened, and its log.
\<close>

type_synonym small_server = "bool \<times> (body \<times> bool) list"

definition small_http :: "user list \<Rightarrow> small_server http" where
  "small_http us =
     \<lparr>parse_url = (\<lambda>u. Inr (u, [])), new_request = (\<lambda>rq. None),
      send = (\<lambda>rq (up, log).
        let resp = \<lparr>StatusCode = 200, Status = ''200 OK'', as_users = Inr \<lparr>ul_Users = us, ul_Data = []\<rparr>,
              as_raw = None, as_config = Inr zero_config, as_wrapped_config = Inr zero_config, as_message = ([], [])\<rparr>
        in if rq_body rq = NoBody \<or> up then (Inr resp, up, (rq_body rq, True) # log)
           else (Inl (Extern ''timeout''), True, (rq_body rq, False) # log)),
      range_rank = (\<lambda>w place i. 9 - i)\<rparr>"

lemma small_http_logs: "server_logs (small_http us) snd"
  by (auto simp: server_logs_def succeeded_def small_http_def do_request_def ok_status_def Let_def split: if_splits)

definition small_bill :: "small_server \<Rightarrow> i64 \<Rightarrow> pair64" where
  "small_bill w = bill_of (answered (snd w))"

lemma small_http_bills: "server_bills (small_http us) small_bill"
  using answered_bills [OF small_http_logs] by (simp add: small_bill_def [abs_def])

definition small_platform :: "((int \<times> int), unit, unit) platform" where
  "small_platform =
     \<lparr>userRateLimitBuildEnabled = True, rate_package = counting_xrate, core_ops = quiet_core, clock = (\<lambda>c. ()),
      list_inbounds = (\<lambda>c. [(''vless-in'', VLESS)])\<rparr>"

text \<open>A user downloads five bytes while \<open>Run\<close> waits for its ticker.\<close>

definition five_bytes :: "'l hook \<times> 'c \<Rightarrow> 'l hook \<times> 'c" where
  "five_bytes s =
     (let (a, h) = Hook_GetCounter ''vless-in'' ''7'' (fst s)
      in if a < fresh (storages h) \<and> sint (fst (pending (cell (storages h) a))) + 5 < 2 ^ 63
         then (h\<lparr>storages := add_up 5 a (storages h)\<rparr>, snd s) else (h, snd s))"

definition busy :: "('l hook \<times> 'c) meanwhile" where
  "busy = resting\<lparr>while_idle := five_bytes, while_pushing := five_bytes\<rparr>"

lemma canonical_GetCounter:
  assumes "Hook_GetCounter tag user h = (a, h')" and "canonical user" and "canonical_hook h"
  shows "canonical_hook h'"
proof -
  obtain k v where g: "GetCounter user (tc_of h k) (storages h) = (a, v, storages h')"
    and tcs: "\<And>i. tc_of h' i = (if i = k then v else tc_of h i)"
    using Hook_GetCounter_parts [OF assms(1)] by metis
  show ?thesis
    using assms(2,3) GetCounter_addr [OF g]
    by (fastforce simp: canonical_hook_def tcs mget_mput split: if_splits)
qed

lemma works_busy:
  "works agent_step (resting :: ('l hook \<times> 'c) meanwhile)" "works agent_step (busy :: ('l hook \<times> 'c) meanwhile)"
proof -
  have "agent_step\<^sup>*\<^sup>* s (five_bytes s)" for s :: "'l hook \<times> 'c"
  proof -
    obtain h c a h1 where s: "s = (h, c)" and g: "Hook_GetCounter ''vless-in'' ''7'' h = (a, h1)"
      by (metis prod.exhaust)
    have "canonical ''7''" using Itoa_7 unfolding canonical_def by metis
    then have "agent_step s (h1, c)"
      unfolding s by (intro as_hook [OF hs_route [OF g]] canonical_GetCounter [OF g])
    moreover have frame: "canonical_hook (h1\<lparr>storages := st\<rparr>) = canonical_hook h1" for st
      by (rule canonical_frame) simp
    have "agent_step (h1, c) (h1\<lparr>storages := add_up 5 a (storages h1)\<rparr>, c)"
      if "a < fresh (storages h1)" "sint (fst (pending (cell (storages h1) a))) + 5 < 2 ^ 63"
      using that by (intro as_hook hs_up) (simp_all add: word_sless_alt frame)
    ultimately show ?thesis
      by (auto simp: five_bytes_def s g intro: converse_rtranclp_into_rtranclp)
  qed
  then show "works agent_step (resting :: ('l hook \<times> 'c) meanwhile)" "works agent_step (busy :: ('l hook \<times> 'c) meanwhile)"
    by (simp_all add: works_def resting_def busy_def)
qed

definition small_panel :: "small_server panel" where
  "small_panel = client_panel (small_http [some_user 7 ''uuid-7'']) 0 vless_client"

definition small_run :: "((int \<times> int) hook \<times> unit, small_server) running" where
  "small_run =
     Run (agent_syncer small_platform small_panel 0) resting [Tick busy, Tick resting, CtxDone busy]
       ((new_hook (NewUserManager counting_xrate () 0 empty_limiters) None [] [], ()), False, [])"

definition billed_and_used ::
  "('l hook \<times> 'c, small_server) running \<Rightarrow> (pair64 \<times> pair64) option" where
  "billed_and_used r =
     (case r of Returned ((h, c), w) \<Rightarrow> Some (small_bill w 7, hook_used h ''vless-in'' ''7'') | _ \<Rightarrow> None)"

lemma small_run_bills: "billed_and_used small_run = Some ((15, 0), (20, 0))"
  by code_simp

lemma small_panel_lists: "panel_lists {''7''} small_panel"
proof -
  have "\<not> isShadowsocksNodeType (NodeType vless_client)" by code_simp
  then show ?thesis
    by (auto simp: panel_lists_def small_panel_def client_panel_def Client_FetchUsers_def small_http_def endpoint_def
        do_request_def ok_status_def vless_client_def NewClient_def TrimRightChar_def Let_def lists_all_def
        fill_user_def some_user_def Itoa_7 split: prod.splits)
qed

theorem agent_bills_what_it_counts_witness:
  "\<exists>h c w. small_run = Returned ((h, c), w) \<and> small_bill w 7 = (15, 0)
     \<and> hook_committed h ''vless-in'' ''7'' = (15, 0) \<and> hook_used h ''vless-in'' ''7'' = (20, 0)"
proof -
  from small_run_bills obtain h c w where r: "small_run = Returned ((h, c), w)"
    and w: "small_bill w 7 = (15, 0)" "hook_used h ''vless-in'' ''7'' = (20, 0)"
    by (auto simp: billed_and_used_def split: running.splits)
  have bills: "panel_bills {''vless-in''} (server_ledger small_bill) small_panel"
    unfolding small_panel_def by (rule client_bills [OF small_http_bills vless_matches])
  have seven: "isNumericUser ''7''" "Atoi ''7'' = Some 7" by code_simp+
  have "server_ledger small_bill w ''vless-in'' ''7'' = hook_committed h ''vless-in'' ''7''"
    using agent_bills_what_it_counts [OF bills small_panel_lists _ Itoa_7(1) [symmetric] seven(1) works_busy(1),
        of "''vless-in''" "[Tick busy, Tick resting, CtxDone busy]" "(False, [])" small_platform 0
        "NewUserManager counting_xrate () 0 empty_limiters" None "[]" "[]" "()" h c w] r
    unfolding small_run_def by (simp add: works_busy server_ledger_def small_bill_def answered_def split: option.split)
  with w have "hook_committed h ''vless-in'' ''7'' = (15, 0)" by (simp add: server_ledger_def seven)
  with r w show ?thesis by blast
qed

end
