(* ===== verification/Go_Text.thy ===== *)
theory Go_Text
  imports Netip
begin

text \<open>
  More of Go's standard library on strings: \<open>strings.Fields\<close>, the values \<open>strconv\<close> returns with an
  error, and the Unix paths of \<open>path/filepath\<close>. \<open>TrimSpace\<close> applied twice is \<open>TrimSpace\<close>, and a string
  it leaves something of has a first field.
\<close>

section \<open>Trimming twice\<close>

lemma lead_len_0:
  "[] \<notin> set encs \<Longrightarrow> lead_len encs s = 0 \<longleftrightarrow> (\<forall>e \<in> set encs. \<not> HasPrefix s e)"
  by (auto simp: lead_len_def find_None_iff find_Some_iff split: option.splits) (metis nth_mem)

lemma trim_lead_done: "trim_lead encs s = [] \<or> lead_len encs (trim_lead encs s) = 0"
proof (induction encs s rule: trim_lead.induct)
  case (1 encs s)
  then show ?case by (cases "lead_len encs s = 0 \<or> s = []") (auto simp: trim_lead.simps [of encs s])
qed

lemma trim_lead_fixed: "lead_len encs s = 0 \<or> s = [] \<Longrightarrow> trim_lead encs s = s"
  by (simp add: trim_lead.simps)

lemma HasPrefix_longer: "HasPrefix s e \<Longrightarrow> HasPrefix (s @ t) e"
  using HasPrefix_length [of s e] by (simp add: HasPrefix_def)

lemma TrimSpace_idem [simp]: "TrimSpace (TrimSpace s) = TrimSpace s"
proof -
  have ne: "[] \<notin> set space_encodings" "[] \<notin> set (map rev space_encodings)"
    using space_encodings_heads by blast+
  let ?a = "trim_lead space_encodings s"
  let ?b = "trim_lead (map rev space_encodings) (rev ?a)"
  have t: "TrimSpace s = rev ?b" by (simp add: TrimSpace_def)
  obtain q where "rev ?a = q @ ?b" using trim_lead_suffix by blast
  then have a: "?a = rev ?b @ rev q" by (metis rev_append rev_rev_ident)
  have "rev ?b = [] \<or> lead_len space_encodings (rev ?b) = 0"
  proof (cases "?a = []")
    case True
    with a show ?thesis by simp
  next
    case False
    then have "\<forall>e \<in> set space_encodings. \<not> HasPrefix ?a e"
      using trim_lead_done [of space_encodings s] lead_len_0 [OF ne(1)] by blast
    then show ?thesis using a HasPrefix_longer [of "rev ?b" _ "rev q"] lead_len_0 [OF ne(1)] by metis
  qed
  then have "trim_lead space_encodings (rev ?b) = rev ?b" by (metis trim_lead_fixed)
  moreover have "trim_lead (map rev space_encodings) ?b = ?b"
    using trim_lead_done by (metis trim_lead_fixed)
  ultimately show ?thesis unfolding t by (simp add: TrimSpace_def)
qed

section \<open>Fields\<close>

text \<open>The bytes up to the next white space, and the rest.\<close>

fun break_field :: "string \<Rightarrow> string \<times> string" where
  "break_field [] = ([], [])"
| "break_field (c # cs) =
     (if lead_len space_encodings (c # cs) \<noteq> 0 then ([], c # cs)
      else (let (f, r) = break_field cs in (c # f, r)))"

lemma break_field_append: "break_field s = (f, r) \<Longrightarrow> s = f @ r"
  by (induction s arbitrary: f r) (auto split: if_splits prod.splits)

function Fields :: "string \<Rightarrow> string list" where
  "Fields s =
     (let s = trim_lead space_encodings s
      in if s = [] then [] else (let (f, r) = break_field s in f # Fields r))"
  by pat_completeness auto
termination
proof (relation "measure length", simp)
  fix s s' x f r
  assume s': "s' = trim_lead space_encodings s" and ne: "s' \<noteq> []" and x: "x = break_field s'" and fr: "(f, r) = x"
  then have "lead_len space_encodings s' = 0" using trim_lead_done [of space_encodings s] by simp
  then have "f \<noteq> []" using ne fr x by (cases s') (auto split: prod.splits)
  moreover have "s' = f @ r" using break_field_append fr x by metis
  moreover have "length s' \<le> length s" using trim_lead_suffix [of s space_encodings] s' by (metis le_add2 length_append)
  ultimately show "(r, s) \<in> measure length" by (cases f) auto
qed

declare Fields.simps [simp del]

lemma Fields_trimmed:
  assumes "TrimSpace s \<noteq> []"
  shows "Fields (TrimSpace s) \<noteq> []"
proof -
  have "trim_lead space_encodings (TrimSpace s) \<noteq> []"
    using assms TrimSpace_idem [of s] by (metis TrimSpace_def rev.simps(1) trim_lead_Nil)
  then show ?thesis by (simp add: Fields.simps [of "TrimSpace s"] Let_def split: prod.split)
qed

section \<open>Numbers with an error\<close>

text \<open>
  \<open>v, _ := strconv.ParseUint(s, 10, 64)\<close>: the value is 0 on a syntax error and the largest one on a
  range error. Likewise for \<open>Atoi\<close>.
\<close>

definition atou :: "string \<Rightarrow> u64" where
  "atou s =
     (case parse_digits s of
        None \<Rightarrow> 0
      | Some n \<Rightarrow> if n < 2 ^ 64 then word_of_nat n else - 1)"

definition atoi :: "string \<Rightarrow> i64" where
  "atoi s =
     (let neg = (s \<noteq> [] \<and> hd s = CHR ''-'');
          ds = (if s \<noteq> [] \<and> (hd s = CHR ''-'' \<or> hd s = CHR ''+'') then tl s else s)
      in case parse_digits ds of
           None \<Rightarrow> 0
         | Some n \<Rightarrow>
             (let v = (if neg then - int n else int n)
              in if v < - (2 ^ 63) then word_of_int (- (2 ^ 63))
                 else if 2 ^ 63 \<le> v then word_of_int (2 ^ 63 - 1) else word_of_int v))"

lemma atoi_Atoi: "Atoi s = Some v \<Longrightarrow> atoi s = v"
  by (auto simp: Atoi_def atoi_def Let_def split: option.splits if_splits)

definition ReplaceAll_char :: "char \<Rightarrow> char \<Rightarrow> string \<Rightarrow> string" where
  "ReplaceAll_char old new s = map (\<lambda>c. if c = old then new else c) s"

section \<open>Paths\<close>

text \<open>\<open>path/filepath\<close>: \<open>Clean\<close> drops empty and \<open>.\<close> elements and resolves \<open>..\<close> against the ones before.\<close>

definition clean_step :: "bool \<Rightarrow> string \<Rightarrow> string list \<Rightarrow> string list" where
  "clean_step rooted e out =
     (if e = [] \<or> e = ''.'' then out
      else if e = ''..'' then
        (if out \<noteq> [] \<and> last out \<noteq> ''..'' then butlast out else if rooted then out else out @ [e])
      else out @ [e])"

definition filepath_Clean :: "string \<Rightarrow> string" where
  "filepath_Clean path =
     (let rooted = (path \<noteq> [] \<and> hd path = CHR ''/'');
          es = fold (clean_step rooted) (SplitBy (\<lambda>c. c = CHR ''/'') path) [];
          p = (if rooted then [CHR ''/''] else []) @ join ''/'' es
      in if p = [] then ''.'' else p)"

definition filepath_Dir :: "string \<Rightarrow> string" where
  "filepath_Dir path =
     filepath_Clean (rev (dropWhile (\<lambda>c. c \<noteq> CHR ''/'') (rev path)))"

definition filepath_Join :: "string list \<Rightarrow> string" where
  "filepath_Join elem =
     (case filter (\<lambda>e. e \<noteq> []) elem of [] \<Rightarrow> [] | es \<Rightarrow> filepath_Clean (join ''/'' es))"

end
