(* ===== verification/Machine_Reporter.thy ===== *)
theory Machine_Reporter
  imports Client Go_Text
begin

text \<open>
  The status of the machine: \<open>cmd/star1ight-agent/machine_reporter.go\<close> with \<open>statfs\<close> of
  \<open>statfs_posix.go\<close>, the types of \<open>panelapi/types.go\<close>, and \<open>Client.ReportMachineStatus\<close> of
  \<open>panelapi/client.go\<close>.

  The system is the record \<open>machine\<close> over the outside world \<open>'w\<close>: files, interfaces, the file system's
  counts and the clock \<open>'t\<close>. Go's \<open>float64\<close> is the type \<open>'f\<close> with the operations the code uses
  (record \<open>float_ops\<close>), so a theorem here holds for any rounding.
\<close>

section \<open>Types\<close>

record usage_pair =
  Total :: u64
  Used :: u64

record 'f net_speed =
  InSpeed :: 'f
  OutSpeed :: 'f

record traffic_totals =
  tt_Up :: u64
  tt_Down :: u64

record 'f machine_status =
  ms_CPU :: 'f
  ms_Mem :: usage_pair
  ms_Swap :: usage_pair
  ms_Disk :: usage_pair
  ms_Net :: "'f net_speed option"
  ms_Traffic :: "traffic_totals option"
  ms_AgentVersion :: string

record 'f float_ops =
  f_of :: "u64 \<Rightarrow> 'f"
  f_times :: "'f \<Rightarrow> 'f \<Rightarrow> 'f"
  f_divide :: "'f \<Rightarrow> 'f \<Rightarrow> 'f"
  f_positive :: "'f \<Rightarrow> bool"
  f_show :: "'f \<Rightarrow> error + string"

record iface =
  if_Name :: string
  if_Up :: bool
  if_Loopback :: bool

record syscall_statfs =
  fs_blocks :: u64
  fs_bavail :: u64
  fs_bsize :: i64

text \<open>\<open>Statfs\<close> is the system call with its fields already at their widths.\<close>

record ('f, 't, 'w) machine =
  ReadFile :: "string \<Rightarrow> 'w \<Rightarrow> (error + string) \<times> 'w"
  Interfaces :: "'w \<Rightarrow> (error + iface list) \<times> 'w"
  Addrs :: "iface \<Rightarrow> 'w \<Rightarrow> (error + string list) \<times> 'w"
  Statfs :: "string \<Rightarrow> 'w \<Rightarrow> (error + syscall_statfs) \<times> 'w"
  filepath_Abs :: "string \<Rightarrow> 'w \<Rightarrow> error + string"
  time_Now :: "'w \<Rightarrow> 't"
  Seconds :: "'t \<Rightarrow> 't \<Rightarrow> 'f"

section \<open>Files\<close>

definition lines_of :: "string \<Rightarrow> string list" where
  "lines_of data = SplitBy (\<lambda>c. c = CHR 0x0A) data"

definition parse_u64 :: "string \<Rightarrow> error + u64" where
  "parse_u64 s = (case ParseUint 64 s of None \<Rightarrow> Inl (Extern ''strconv'') | Some n \<Rightarrow> Inr (word_of_nat n))"

definition readUintFromFile :: "('f, 't, 'w) machine \<Rightarrow> string \<Rightarrow> 'w \<Rightarrow> (error + u64) \<times> 'w" where
  "readUintFromFile M path w =
     (case ReadFile M path w of
        (Inl err, w) \<Rightarrow> (Inl err, w)
      | (Inr data, w) \<Rightarrow> (parse_u64 (TrimSpace data), w))"

text \<open>The first line with the prefix decides.\<close>

fun meminfo_line :: "string \<Rightarrow> string list \<Rightarrow> u64" where
  "meminfo_line prefix [] = 0"
| "meminfo_line prefix (line # lines) =
     (if \<not> HasPrefix line prefix then meminfo_line prefix lines
      else
        (let fields = Fields line
         in if length fields < 2 then 0
            else (case parse_u64 (fields ! 1) of Inl err \<Rightarrow> 0 | Inr v \<Rightarrow> v)))"

definition readUintFromMeminfo :: "('f, 't, 'w) machine \<Rightarrow> string \<Rightarrow> 'w \<Rightarrow> u64 \<times> 'w" where
  "readUintFromMeminfo M prefix w =
     (case ReadFile M ''/proc/meminfo'' w of
        (Inl err, w) \<Rightarrow> (0, w)
      | (Inr data, w) \<Rightarrow> (meminfo_line prefix (lines_of data), w))"

definition statfs :: "('f, 't, 'w) machine \<Rightarrow> string \<Rightarrow> 'w \<Rightarrow> (error + syscall_statfs) \<times> 'w" where
  "statfs M path w =
     (case Statfs M path w of
        (Inl err, w) \<Rightarrow> (Inl err, w)
      | (Inr s, w) \<Rightarrow> (Inr \<lparr>fs_blocks = fs_blocks s, fs_bavail = fs_bavail s, fs_bsize = fs_bsize s\<rparr>, w))"

definition diskUsage :: "('f, 't, 'w) machine \<Rightarrow> string \<Rightarrow> 'w \<Rightarrow> (u64 \<times> u64) \<times> 'w" where
  "diskUsage M path w =
     (let path = (if path = [] then ''/'' else path);
          full = (case filepath_Abs M path w of Inl err \<Rightarrow> path | Inr full \<Rightarrow> full)
      in case statfs M full w of
           (Inl err, w) \<Rightarrow> ((0, 0), w)
         | (Inr fs, w) \<Rightarrow>
             (let total = fs_blocks fs * fs_bsize fs;
                  free = fs_bavail fs * fs_bsize fs;
                  used = (if free \<le> total then total - free else 0)
              in ((total, used), w)))"

section \<open>CPU\<close>

record cpu_collector =
  prevTotal :: u64
  prevIdle :: u64
  cpu_ready :: bool

fun parse_all :: "string list \<Rightarrow> error + u64 list" where
  "parse_all [] = Inr []"
| "parse_all (field # rest) =
     (case parse_u64 field of
        Inl err \<Rightarrow> Inl err
      | Inr v \<Rightarrow> (case parse_all rest of Inl err \<Rightarrow> Inl err | Inr vs \<Rightarrow> Inr (v # vs)))"

text \<open>What \<open>Sample\<close> does with the fields of the \<open>cpu\<close> line.\<close>

definition sample_values :: "'f float_ops \<Rightarrow> u64 list \<Rightarrow> cpu_collector \<Rightarrow> 'f \<times> cpu_collector" where
  "sample_values F values c =
     (let tot = sum_list values;
          idle = values ! 3;
          idle = (if 4 < length values then idle + values ! 4 else idle)
      in if \<not> cpu_ready c then (f_of F 0, \<lparr>prevTotal = tot, prevIdle = idle, cpu_ready = True\<rparr>)
         else
           (let deltaTotal = tot - prevTotal c;
                deltaIdle = idle - prevIdle c;
                c = c\<lparr>prevTotal := tot, prevIdle := idle\<rparr>
            in if deltaTotal = 0 then (f_of F 0, c)
               else (f_divide F (f_times F (f_of F (deltaTotal - deltaIdle)) (f_of F 100)) (f_of F deltaTotal), c)))"

definition Sample :: "'f float_ops \<Rightarrow> ('f, 't, 'w) machine \<Rightarrow> cpu_collector \<Rightarrow> 'w \<Rightarrow> (error + 'f) \<times> cpu_collector \<times> 'w" where
  "Sample F M c w =
     (case ReadFile M ''/proc/stat'' w of
        (Inl err, w) \<Rightarrow> (Inl err, c, w)
      | (Inr data, w) \<Rightarrow>
          (case find (\<lambda>line. HasPrefix line ''cpu '') (lines_of data) of
             None \<Rightarrow> (Inr (f_of F 0), c, w)
           | Some line \<Rightarrow>
               (let fields = Fields line
                in if length fields < 5 then (Inr (f_of F 0), c, w)
                   else
                     (case parse_all (tl fields) of
                        Inl err \<Rightarrow> (Inl err, c, w)
                      | Inr values \<Rightarrow> (let (v, c) = sample_values F values c in (Inr v, c, w))))))"

section \<open>Network\<close>

record 't net_collector =
  prevRx :: u64
  prevTx :: u64
  prevAt :: 't
  net_ready :: bool

fun sum_ifaces :: "('f, 't, 'w) machine \<Rightarrow> iface list \<Rightarrow> u64 \<times> u64 \<Rightarrow> 'w \<Rightarrow> (u64 \<times> u64) \<times> 'w" where
  "sum_ifaces M [] sums w = (sums, w)"
| "sum_ifaces M (ifc # ifaces) sums w =
     (if \<not> if_Up ifc \<or> if_Loopback ifc then sum_ifaces M ifaces sums w
      else
        (case Addrs M ifc w of
           (Inl err, w) \<Rightarrow> sum_ifaces M ifaces sums w
         | (Inr counters, w) \<Rightarrow>
             if length counters = 0 then sum_ifaces M ifaces sums w
             else
               (let statsPath = filepath_Join [''/sys/class/net'', if_Name ifc, ''statistics'']
                in case readUintFromFile M (filepath_Join [statsPath, ''rx_bytes'']) w of
                     (Inl err, w) \<Rightarrow> sum_ifaces M ifaces sums w
                   | (Inr ifaceRx, w) \<Rightarrow>
                       (case readUintFromFile M (filepath_Join [statsPath, ''tx_bytes'']) w of
                          (Inl err, w) \<Rightarrow> sum_ifaces M ifaces sums w
                        | (Inr ifaceTx, w) \<Rightarrow>
                            sum_ifaces M ifaces (fst sums + ifaceRx, snd sums + ifaceTx) w))))"

definition readNetworkTotals :: "('f, 't, 'w) machine \<Rightarrow> 'w \<Rightarrow> (error + u64 \<times> u64) \<times> 'w" where
  "readNetworkTotals M w =
     (case Interfaces M w of
        (Inl err, w) \<Rightarrow> (Inl err, w)
      | (Inr ifaces, w) \<Rightarrow> (let (sums, w) = sum_ifaces M ifaces (0, 0) w in (Inr sums, w)))"

text \<open>The state is \<open>defaultNetCollector\<close>.\<close>

definition sampleNetworkStatus ::
  "'f float_ops \<Rightarrow> ('f, 't, 'w) machine \<Rightarrow> 't net_collector \<Rightarrow> 'w
   \<Rightarrow> (error + 'f net_speed option \<times> traffic_totals) \<times> 't net_collector \<times> 'w" where
  "sampleNetworkStatus F M c w =
     (case readNetworkTotals M w of
        (Inl err, w) \<Rightarrow> (Inl err, c, w)
      | (Inr (rx, tx), w) \<Rightarrow>
          (let now = time_Now M w;
               totals = \<lparr>tt_Up = tx, tt_Down = rx\<rparr>
           in if \<not> net_ready c
              then (Inr (None, totals), \<lparr>prevRx = rx, prevTx = tx, prevAt = now, net_ready = True\<rparr>, w)
              else
                (let elapsed = Seconds M now (prevAt c)
                 in if \<not> f_positive F elapsed then (Inr (None, totals), c, w)
                    else
                      (let inSpeed = f_divide F (f_of F (rx - prevRx c)) elapsed;
                           outSpeed = f_divide F (f_of F (tx - prevTx c)) elapsed
                       in (Inr (Some \<lparr>InSpeed = inSpeed, OutSpeed = outSpeed\<rparr>, totals),
                           c\<lparr>prevRx := rx, prevTx := tx, prevAt := now\<rparr>, w)))))"

section \<open>The status\<close>

definition sampleMachineStatus ::
  "'f float_ops \<Rightarrow> ('f, 't, 'w) machine \<Rightarrow> string \<Rightarrow> cpu_collector \<times> 't net_collector \<Rightarrow> 'w
   \<Rightarrow> 'f machine_status \<times> (cpu_collector \<times> 't net_collector) \<times> 'w" where
  "sampleMachineStatus F M agentVersion cols w =
     (let (r, cpu_c, w) = Sample F M (fst cols) w;
          cpu = (case r of Inl err \<Rightarrow> f_of F 0 | Inr v \<Rightarrow> v);
          (totalMem, w) = readUintFromMeminfo M ''MemTotal:'' w;
          (availableMem, w) = readUintFromMeminfo M ''MemAvailable:'' w;
          memUsed = (if availableMem \<le> totalMem then totalMem - availableMem else 0);
          (swapTotal, w) = readUintFromMeminfo M ''SwapTotal:'' w;
          (swapFree, w) = readUintFromMeminfo M ''SwapFree:'' w;
          swapUsed = (if swapFree \<le> swapTotal then swapTotal - swapFree else 0);
          ((diskTotal, diskUsed), w) = diskUsage M ''/'' w;
          (n, net_c, w) = sampleNetworkStatus F M (snd cols) w;
          (netSpeed, totals) = (case n of Inl err \<Rightarrow> (None, None) | Inr (sp, tot) \<Rightarrow> (sp, Some tot))
      in (\<lparr>ms_CPU = cpu,
           ms_Mem = \<lparr>Total = totalMem * 1024, Used = memUsed * 1024\<rparr>,
           ms_Swap = \<lparr>Total = swapTotal * 1024, Used = swapUsed * 1024\<rparr>,
           ms_Disk = \<lparr>Total = diskTotal, Used = diskUsed\<rparr>,
           ms_Net = netSpeed, ms_Traffic = totals, ms_AgentVersion = agentVersion\<rparr>,
          (cpu_c, net_c), w))"

section \<open>Reporting\<close>

definition JUint :: "u64 \<Rightarrow> json" where
  "JUint v = JNum (show_nat (unat v))"

definition usage_json :: "usage_pair \<Rightarrow> json" where
  "usage_json u = JObject [(''total'', JUint (Total u)), (''used'', JUint (Used u))]"

text \<open>A float that has no JSON number (an infinity, a NaN) makes the encoder fail.\<close>

definition status_payload :: "'f float_ops \<Rightarrow> client \<Rightarrow> 'f machine_status \<Rightarrow> error + (string, json) gomap" where
  "status_payload F c status =
     (case f_show F (ms_CPU status) of
        Inl err \<Rightarrow> Inl err
      | Inr cpu \<Rightarrow>
          (let payload =
             [(''token'', JString (MachineToken c)), (''machine_id'', JString (MachineID c)), (''cpu'', JNum cpu),
              (''mem'', usage_json (ms_Mem status))];
               payload = (if 0 < Total (ms_Swap status) \<or> 0 < Used (ms_Swap status)
                          then mput ''swap'' (usage_json (ms_Swap status)) payload else payload);
               payload = (if 0 < Total (ms_Disk status) \<or> 0 < Used (ms_Disk status)
                          then mput ''disk'' (usage_json (ms_Disk status)) payload else payload);
               payload = (case ms_Traffic status of
                            None \<Rightarrow> payload
                          | Some t \<Rightarrow> mput ''traffic'' (JObject [(''up'', JUint (tt_Up t)), (''down'', JUint (tt_Down t))]) payload);
               payload = (if ms_AgentVersion status \<noteq> []
                          then mput ''agent_version'' (JString (ms_AgentVersion status)) payload else payload)
           in case ms_Net status of
                None \<Rightarrow> Inr payload
              | Some n \<Rightarrow>
                  (case (f_show F (InSpeed n), f_show F (OutSpeed n)) of
                     (Inr i, Inr o') \<Rightarrow> Inr (mput ''net'' (JObject [(''in_speed'', JNum i), (''out_speed'', JNum o')]) payload)
                   | (Inl err, _) \<Rightarrow> Inl err
                   | (_, Inl err) \<Rightarrow> Inl err)))"

definition ReportMachineStatus :: "'f float_ops \<Rightarrow> 'w http \<Rightarrow> client \<Rightarrow> 'f machine_status \<Rightarrow> 'w \<Rightarrow> error option \<times> 'w" where
  "ReportMachineStatus F H c status w =
     (if MachineToken c = [] then (Some (Errorf ''panel api machine token is empty'' []), w)
      else
        (case status_payload F c status of
           Inl err \<Rightarrow> (Some err, w)
         | Inr payload \<Rightarrow>
             (case do_request H \<lparr>rq_method = ''POST'', rq_url = BaseURL c @ ''/api/v2/server/machine/status'', rq_query = [],
                 rq_body = JsonBody payload\<rparr> w of
                (Inl err, w) \<Rightarrow> (Some err, w)
              | (Inr resp, w) \<Rightarrow>
                  if \<not> ok_status resp then (Some (Errorf ''panel api machine status %s'' [Status resp]), w) else (None, w))))"

text \<open>A nil reporter is \<open>None\<close>.\<close>

definition buildMachineReporter :: "string \<Rightarrow> string \<Rightarrow> string \<Rightarrow> error + client option" where
  "buildMachineReporter panelURL machineID machineToken =
     (if machineID = [] then Inr None
      else if machineToken = [] then Inl (Errorf ''machine-id requires machine-token'' [])
      else Inr (Some ((NewClient panelURL [] [] [])\<lparr>MachineID := machineID, MachineToken := machineToken\<rparr>)))"

definition machineReporterTick ::
  "('r \<Rightarrow> 'f machine_status \<Rightarrow> 'w \<Rightarrow> error option \<times> 'w) \<Rightarrow> 'r option
   \<Rightarrow> ('c \<Rightarrow> 'w \<Rightarrow> 'f machine_status \<times> 'c \<times> 'w) option \<Rightarrow> 'c \<Rightarrow> 'w \<Rightarrow> error option \<times> 'c \<times> 'w" where
  "machineReporterTick report reporter sampler cols w =
     (case (reporter, sampler) of
        (Some rep, Some sample) \<Rightarrow>
          (let (status, cols, w) = sample cols w;
               (err, w) = report rep status w
           in (err, cols, w))
      | _ \<Rightarrow> (None, cols, w))"

text \<open>
  \<open>startMachineReporter\<close>: the first report and one per tick until the context ends; \<open>ticks\<close> is how
  many ticks come before that, at the period \<open>reporter_period\<close>. An error is only logged.
\<close>

definition reporter_period :: "i64 \<Rightarrow> i64" where
  "reporter_period every = (if sint every \<le> 0 then 60 * 1000000000 else every)"

fun report_ticks ::
  "('c \<Rightarrow> 'w \<Rightarrow> error option \<times> 'c \<times> 'w) \<Rightarrow> nat \<Rightarrow> 'c \<Rightarrow> 'w \<Rightarrow> 'c \<times> 'w" where
  "report_ticks tick 0 cols w = (let (err, cols, w) = tick cols w in (cols, w))"
| "report_ticks tick (Suc n) cols w = (let (err, cols, w) = tick cols w in report_ticks tick n cols w)"

definition startMachineReporter ::
  "'f float_ops \<Rightarrow> ('f, 't, 'w) machine \<Rightarrow> 'w http \<Rightarrow> string \<Rightarrow> client option \<Rightarrow> nat
   \<Rightarrow> 't net_collector \<Rightarrow> 'w \<Rightarrow> (cpu_collector \<times> 't net_collector) \<times> 'w" where
  "startMachineReporter F M H agentVersion reporter ticks netcol w =
     (let cpu = \<lparr>prevTotal = 0, prevIdle = 0, cpu_ready = False\<rparr>
      in if reporter = None then ((cpu, netcol), w)
         else report_ticks (machineReporterTick (ReportMachineStatus F H) reporter (Some (sampleMachineStatus F M agentVersion)))
           ticks (cpu, netcol) w)"

section \<open>Bounds\<close>

lemma diskUsage_bounded: "diskUsage M path w = ((t, u), w') \<Longrightarrow> u \<le> t"
proof -
  have "t - free \<le> t" if "free \<le> t" for t free :: u64
    using that by (rule word_sub_le)
  then show "diskUsage M path w = ((t, u), w') \<Longrightarrow> u \<le> t"
    by (auto simp: diskUsage_def Let_def split: prod.splits sum.splits if_splits)
qed

text \<open>A pair in bytes from a total and a free amount in KiB.\<close>

definition kib_pair :: "u64 \<Rightarrow> u64 \<Rightarrow> usage_pair" where
  "kib_pair t a = \<lparr>Total = t * 1024, Used = (if a \<le> t then t - a else 0) * 1024\<rparr>"

lemma kib_bounded:
  assumes "unat t < 2 ^ 54"
  shows "unat (Total (kib_pair t a)) = unat t * 1024" "unat (Used (kib_pair t a)) = (unat t - unat a) * 1024"
proof -
  let ?u = "if a \<le> t then t - a else 0"
  have u: "unat ?u = unat t - unat a" by (simp add: unat_sub word_le_nat_alt)
  show "unat (Total (kib_pair t a)) = unat t * 1024"
    using assms by (simp add: kib_pair_def unat_mult_lem [THEN iffD1])
  have "unat (?u * 1024) = unat ?u * unat (1024 :: u64)"
    using assms u by (intro unat_mult_lem [THEN iffD1]) (simp split del: if_split)
  then show "unat (Used (kib_pair t a)) = (unat t - unat a) * 1024"
    by (simp add: kib_pair_def u split del: if_split)
qed

lemma sample_status:
  assumes "sampleMachineStatus F M v cols w = (st, cols', w')"
  shows "Used (ms_Disk st) \<le> Total (ms_Disk st)"
    and "\<exists>w1 t w2 a. readUintFromMeminfo M ''MemTotal:'' w1 = (t, w2) \<and> ms_Mem st = kib_pair t a"
    and "\<exists>w1 t w2 a. readUintFromMeminfo M ''SwapTotal:'' w1 = (t, w2) \<and> ms_Swap st = kib_pair t a"
  using assms unfolding sampleMachineStatus_def Let_def kib_pair_def [symmetric]
  by (auto dest: diskUsage_bounded split: prod.splits split del: if_split) blast+

text \<open>The share of the CPU is at most the whole while no counter of the \<open>cpu\<close> line goes back.\<close>

definition idle_of :: "u64 list \<Rightarrow> u64" where
  "idle_of vs = (if 4 < length vs then vs ! 3 + vs ! 4 else vs ! 3)"

lemma unat_sum_list:
  fixes vs :: "u64 list"
  shows "sum_list (map unat vs) < 2 ^ 64 \<Longrightarrow> unat (sum_list vs) = sum_list (map unat vs)"
  by (induction vs) (simp_all add: unat_add_lem [THEN iffD1])

definition idle_nat :: "u64 list \<Rightarrow> nat" where
  "idle_nat vs = (if 4 < length vs then unat (vs ! 3) + unat (vs ! 4) else unat (vs ! 3))"

lemma idle_grows:
  assumes "list_all2 (\<lambda>a b. unat a \<le> unat b) vs0 vs" and "3 < length vs"
  shows "idle_nat vs0 \<le> idle_nat vs
    \<and> idle_nat vs - idle_nat vs0 \<le> sum_list (map unat vs) - sum_list (map unat vs0)
    \<and> idle_nat vs \<le> sum_list (map unat vs) \<and> sum_list (map unat vs0) \<le> sum_list (map unat vs)"
proof -
  obtain a b c d r where vs: "vs = a # b # c # d # r"
    using assms(2) by (auto simp: numeral_eq_Suc Suc_less_eq2 length_Suc_conv less_Suc_eq_0_disj dest!: less_imp_Suc_add)
  with assms(1) obtain a0 b0 c0 d0 r0 where vs0: "vs0 = a0 # b0 # c0 # d0 # r0" and r: "list_all2 (\<lambda>a b. unat a \<le> unat b) r0 r"
    and le: "unat a0 \<le> unat a" "unat b0 \<le> unat b" "unat c0 \<le> unat c" "unat d0 \<le> unat d"
    by (auto simp: list_all2_Cons2)
  have mono: "sum_list (map unat xs) \<le> sum_list (map unat ys)"
    if "list_all2 (\<lambda>a b. unat a \<le> unat b) xs ys" for xs ys :: "u64 list"
    using that by induction auto
  show ?thesis
  proof (cases r)
    case Nil
    with r le show ?thesis by (simp add: vs vs0 idle_nat_def)
  next
    case (Cons e r')
    with r obtain e0 r0' where "r0 = e0 # r0'" "unat e0 \<le> unat e" "list_all2 (\<lambda>a b. unat a \<le> unat b) r0' r'"
      by (auto simp: list_all2_Cons2)
    with Cons le mono [of r0' r'] show ?thesis by (simp add: vs vs0 idle_nat_def)
  qed
qed

lemma busy_share_bounded:
  assumes "list_all2 (\<lambda>a b. unat a \<le> unat b) vs0 vs" and "3 < length vs" and "sum_list (map unat vs) < 2 ^ 64"
  shows "(sum_list vs - sum_list vs0) - (idle_of vs - idle_of vs0) \<le> sum_list vs - sum_list vs0"
proof -
  note g = idle_grows [OF assms(1,2)]
  have idle: "unat (idle_of xs) = idle_nat xs" if "idle_nat xs < 2 ^ 64" for xs
    using that by (auto simp: idle_of_def idle_nat_def unat_add_lem [THEN iffD1])
  have le: "idle_of vs0 \<le> idle_of vs" "sum_list vs0 \<le> sum_list vs"
    using g idle [of vs] idle [of vs0] unat_sum_list [of vs] unat_sum_list [of vs0] assms(3)
    by (simp_all add: word_le_nat_alt)
  then have "idle_of vs - idle_of vs0 \<le> sum_list vs - sum_list vs0"
    using g idle [of vs] idle [of vs0] unat_sum_list [of vs] unat_sum_list [of vs0] assms(3)
    by (simp add: word_le_nat_alt unat_sub)
  then show ?thesis by (rule word_sub_le)
qed

section \<open>Properties\<close>

text \<open>
  C39: A reported usage is never more than its total: for memory and swap as long as the kernel's
  counts in KiB fit in 54 bits, so that the bytes do not wrap, whatever the kernel says is free, and
  for the disk always, even where the product of blocks and block size wraps.
\<close>

theorem reported_usage_is_bounded:
  assumes "sampleMachineStatus F M v cols w = (st, cols', w')"
    and "\<And>w. unat (fst (readUintFromMeminfo M ''MemTotal:'' w)) < 2 ^ 54"
    and "\<And>w. unat (fst (readUintFromMeminfo M ''SwapTotal:'' w)) < 2 ^ 54"
  shows "Used (ms_Mem st) \<le> Total (ms_Mem st) \<and> Used (ms_Swap st) \<le> Total (ms_Swap st)
    \<and> Used (ms_Disk st) \<le> Total (ms_Disk st)"
proof -
  have kib: "Used (kib_pair t a) \<le> Total (kib_pair t a)" if "unat t < 2 ^ 54" for t a
    using kib_bounded [OF that, of a] by (simp add: word_le_nat_alt)
  from sample_status(2) [OF assms(1)] kib assms(2) have "Used (ms_Mem st) \<le> Total (ms_Mem st)" by (metis fst_conv)
  moreover from sample_status(3) [OF assms(1)] kib assms(3) have "Used (ms_Swap st) \<le> Total (ms_Swap st)" by (metis fst_conv)
  ultimately show ?thesis using sample_status(1) [OF assms(1)] by blast
qed

text \<open>A machine whose kernel says that more is free than there is.\<close>

definition odd_machine :: "(int, int, unit) machine" where
  "odd_machine =
     \<lparr>ReadFile = (\<lambda>path w.
        (if path = ''/proc/meminfo''
         then Inr (''MemTotal:  100 kB'' @ [CHR 0x0A] @ ''MemAvailable: 40 kB'' @ [CHR 0x0A] @ ''SwapTotal: 8 kB'' @ [CHR 0x0A] @ ''SwapFree: 9 kB'')
         else Inl (Extern ''not exist''), w)),
      Interfaces = (\<lambda>w. (Inr [], w)), Addrs = (\<lambda>i w. (Inr [], w)),
      Statfs = (\<lambda>path w. (Inr \<lparr>fs_blocks = 1000, fs_bavail = 400, fs_bsize = 4096\<rparr>, w)),
      filepath_Abs = (\<lambda>path w. Inr path), time_Now = (\<lambda>w. 0), Seconds = (\<lambda>a b. a - b)\<rparr>"

definition int_floats :: "int float_ops" where
  "int_floats = \<lparr>f_of = uint, f_times = times, f_divide = divide, f_positive = (\<lambda>x. 0 < x), f_show = (\<lambda>x. Inr (Itoa (word_of_int x)))\<rparr>"

definition new_collectors :: "cpu_collector \<times> int net_collector" where
  "new_collectors =
     (\<lparr>prevTotal = 0, prevIdle = 0, cpu_ready = False\<rparr>, \<lparr>prevRx = 0, prevTx = 0, prevAt = 0, net_ready = False\<rparr>)"

lemma odd_sample:
  "let st = fst (sampleMachineStatus int_floats odd_machine ''dev'' new_collectors ())
   in (ms_Mem st, ms_Swap st, ms_Disk st)
      = (\<lparr>Total = 102400, Used = 61440\<rparr>, \<lparr>Total = 8192, Used = 0\<rparr>, \<lparr>Total = 4096000, Used = 2457600\<rparr>)"
  by code_simp

theorem reported_usage_is_bounded_witness:
  "\<exists>st cols. sampleMachineStatus int_floats odd_machine ''dev'' new_collectors () = (st, cols, ())
     \<and> Used (ms_Mem st) = 61440 \<and> Used (ms_Mem st) \<le> Total (ms_Mem st)"
proof -
  obtain st cols w where s: "sampleMachineStatus int_floats odd_machine ''dev'' new_collectors () = (st, cols, w)"
    by (metis prod.exhaust)
  have "unat (fst (readUintFromMeminfo odd_machine ''MemTotal:'' ())) < 2 ^ 54"
    "unat (fst (readUintFromMeminfo odd_machine ''SwapTotal:'' ())) < 2 ^ 54"
    by code_simp+
  with reported_usage_is_bounded [OF s] odd_sample s show ?thesis by simp
qed

end
