(* ===== verification/Runtime_Debug.thy ===== *)
theory Runtime_Debug
  imports Go_Text
begin

text \<open>
  The diagnostics of \<open>cmd/star1ight-agent/runtime_debug.go\<close>: what one sample reads from \<open>/proc\<close>, the
  cgroup files and the Go runtime, and the CSV line it becomes.

  \<open>files\<close> stands for \<open>os.ReadFile\<close> at the moment of the call, \<open>None\<close> on an error, over the outside
  world \<open>'w\<close>; the runtime's own numbers are the record \<open>mem_stats\<close>, whose array of 256 pauses is a function
  of its index. Indexing a slice out of range is a panic, \<open>Inl\<close>.
\<close>

record runtime_sample =
  pid :: i64
  utimeTicks :: u64
  stimeTicks :: u64
  startTimeTicks :: u64
  threads :: i64
  vmRSSKB :: u64
  vmHWMKB :: u64
  vmDataKB :: u64
  cgroupMemory :: u64
  cgroupOOM :: u64
  cgroupOOMKill :: u64
  cgroupPids :: u64
  cgroupPidsMax :: string
  memAvailableKB :: u64
  goroutines :: i64
  heapAlloc :: u64
  heapSys :: u64
  heapIdle :: u64
  heapReleased :: u64
  stackInuse :: u64
  otherSys :: u64
  numGC :: "32 word"
  pauseTotalNs :: u64
  lastGCPauseNs :: u64

record mem_stats =
  HeapAlloc :: u64
  HeapSys :: u64
  HeapIdle :: u64
  HeapReleased :: u64
  StackInuse :: u64
  OtherSys :: u64
  NumGC :: "32 word"
  PauseTotalNs :: u64
  PauseNs :: "8 word \<Rightarrow> u64"

type_synonym 'w files = "string \<Rightarrow> 'w \<Rightarrow> string option \<times> 'w"

section \<open>Panics\<close>

definition slice_at :: "'a list \<Rightarrow> nat \<Rightarrow> string + 'a" where
  "slice_at xs i = (if i < length xs then Inr (xs ! i) else Inl ''index out of range'')"

definition or_panic :: "string + 'a \<Rightarrow> ('a \<Rightarrow> string + 'b) \<Rightarrow> string + 'b" where
  "or_panic r f = (case r of Inl p \<Rightarrow> Inl p | Inr x \<Rightarrow> f x)"

text \<open>A loop over the lines of a file that fills a sample.\<close>

fun fill_lines :: "(string \<Rightarrow> 's \<Rightarrow> string + 's) \<Rightarrow> string list \<Rightarrow> 's \<Rightarrow> string + 's" where
  "fill_lines fill [] s = Inr s"
| "fill_lines fill (line # ls) s = or_panic (fill line s) (fill_lines fill ls)"

lemma slice_at_Inr [simp]: "i < length xs \<Longrightarrow> slice_at xs i = Inr (xs ! i)"
  by (simp add: slice_at_def)

lemma slice_at_two [simp]:
  "\<not> length xs < 2 \<Longrightarrow> slice_at xs 0 = Inr (xs ! 0)" "\<not> length xs < 2 \<Longrightarrow> slice_at xs (Suc 0) = Inr (xs ! 1)"
  by (auto simp: slice_at_def)

lemma or_panic_simps [simp]: "or_panic (Inr x) f = f x" "or_panic (Inl p) f = Inl p"
  by (simp_all add: or_panic_def)

lemma or_panic_Inr: "or_panic r f = Inr y \<longleftrightarrow> (\<exists>x. r = Inr x \<and> f x = Inr y)"
  by (cases r) simp_all

text \<open>A loop whose passes do not panic does not, and keeps what each of them keeps.\<close>

lemma fill_lines_safe:
  assumes "\<And>line s. \<exists>s'. fill line s = Inr s' \<and> g s' = g s"
  shows "\<exists>s'. fill_lines fill ls s = Inr s' \<and> g s' = g s"
proof (induction ls arbitrary: s)
  case (Cons line ls)
  from assms [of line s] obtain s1 where "fill line s = Inr s1" "g s1 = g s" by blast
  with Cons.IH [of s1] show ?case by auto
qed simp

section \<open>Parsing\<close>

definition csvSafe :: "string \<Rightarrow> string" where
  "csvSafe s = ReplaceAll_char CHR '','' CHR ''_'' s"

definition split_lines :: "string \<Rightarrow> string list" where
  "split_lines s = SplitBy (\<lambda>c. c = CHR 0x0A) s"

definition readTrim :: "'w files \<Rightarrow> string \<Rightarrow> 'w \<Rightarrow> string \<times> 'w" where
  "readTrim read path w =
     (case read path w of (None, w) \<Rightarrow> ([], w) | (Some data, w) \<Rightarrow> (TrimSpace data, w))"

fun readUintFirst :: "'w files \<Rightarrow> string list \<Rightarrow> 'w \<Rightarrow> string + u64 \<times> 'w" where
  "readUintFirst read [] w = Inr (0, w)"
| "readUintFirst read (path # paths) w =
     (let (content, w) = readTrim read path w
      in if content = [] \<or> content = ''max'' then readUintFirst read paths w
         else
           (case Fields content of
              [] \<Rightarrow> Inl ''index out of range''
            | f # fs \<Rightarrow>
                (case ParseUint 64 f of
                   Some v \<Rightarrow> Inr (word_of_nat v, w)
                 | None \<Rightarrow> readUintFirst read paths w)))"

fun mem_available :: "string list \<Rightarrow> string + u64" where
  "mem_available [] = Inr 0"
| "mem_available (line # ls) =
     (let parts = Fields line
      in if length parts < 2 then mem_available ls
         else
           or_panic (slice_at parts 0) (\<lambda>name.
             if name = ''MemAvailable:'' then map_sum id atou (slice_at parts 1) else mem_available ls))"

definition readMemAvailableKB :: "'w files \<Rightarrow> 'w \<Rightarrow> string + u64 \<times> 'w" where
  "readMemAvailableKB read w =
     (case read ''/proc/meminfo'' w of
        (None, w) \<Rightarrow> Inr (0, w)
      | (Some data, w) \<Rightarrow> map_sum id (\<lambda>v. (v, w)) (mem_available (split_lines data)))"

definition fill_events_line :: "string \<Rightarrow> runtime_sample \<Rightarrow> string + runtime_sample" where
  "fill_events_line line s =
     (let parts = Fields line
      in if length parts \<noteq> 2 then Inr s
         else
           or_panic (slice_at parts 0) (\<lambda>name.
             if name = ''oom'' then map_sum id (\<lambda>v. s\<lparr>cgroupOOM := atou v\<rparr>) (slice_at parts 1)
             else if name = ''oom_kill'' then map_sum id (\<lambda>v. s\<lparr>cgroupOOMKill := atou v\<rparr>) (slice_at parts 1)
             else Inr s))"

definition fillCgroupMemoryEvents :: "'w files \<Rightarrow> runtime_sample \<Rightarrow> 'w \<Rightarrow> string + runtime_sample \<times> 'w" where
  "fillCgroupMemoryEvents read s w =
     (case read ''/sys/fs/cgroup/memory.events'' w of
        (None, w) \<Rightarrow> Inr (s, w)
      | (Some data, w) \<Rightarrow> map_sum id (\<lambda>s. (s, w)) (fill_lines fill_events_line (split_lines data) s))"

text \<open>\<open>text[idx+2:]\<close> skips the parenthesis and the blank after it.\<close>

definition stat_fields :: "string \<Rightarrow> string list option" where
  "stat_fields content =
     (case LastIndex content '')'' of
        None \<Rightarrow> None
      | Some i \<Rightarrow>
          if length content \<le> i + 2 then None
          else (let parts = Fields (drop (i + 2) content) in if length parts < 20 then None else Some parts))"

definition fillProcStat :: "'w files \<Rightarrow> runtime_sample \<Rightarrow> 'w \<Rightarrow> string + runtime_sample \<times> 'w" where
  "fillProcStat read s w =
     (case read ''/proc/self/stat'' w of
        (None, w) \<Rightarrow> Inr (s, w)
      | (Some data, w) \<Rightarrow>
          (case stat_fields data of
             None \<Rightarrow> Inr (s, w)
           | Some parts \<Rightarrow>
               or_panic (slice_at parts 11) (\<lambda>u.
                 or_panic (slice_at parts 12) (\<lambda>k.
                   or_panic (slice_at parts 19) (\<lambda>b.
                     Inr (s\<lparr>utimeTicks := atou u, stimeTicks := atou k, startTimeTicks := atou b\<rparr>, w))))))"

definition fill_status_line :: "string \<Rightarrow> runtime_sample \<Rightarrow> string + runtime_sample" where
  "fill_status_line line s =
     (let parts = Fields line
      in if length parts < 2 then Inr s
         else
           or_panic (slice_at parts 0) (\<lambda>name.
             if name = ''Threads:'' then map_sum id (\<lambda>v. s\<lparr>threads := atoi v\<rparr>) (slice_at parts 1)
             else if name = ''VmRSS:'' then map_sum id (\<lambda>v. s\<lparr>vmRSSKB := atou v\<rparr>) (slice_at parts 1)
             else if name = ''VmHWM:'' then map_sum id (\<lambda>v. s\<lparr>vmHWMKB := atou v\<rparr>) (slice_at parts 1)
             else if name = ''VmData:'' then map_sum id (\<lambda>v. s\<lparr>vmDataKB := atou v\<rparr>) (slice_at parts 1)
             else Inr s))"

definition fillProcStatus :: "'w files \<Rightarrow> runtime_sample \<Rightarrow> 'w \<Rightarrow> string + runtime_sample \<times> 'w" where
  "fillProcStatus read s w =
     (case read ''/proc/self/status'' w of
        (None, w) \<Rightarrow> Inr (s, w)
      | (Some data, w) \<Rightarrow> map_sum id (\<lambda>s. (s, w)) (fill_lines fill_status_line (split_lines data) s))"

section \<open>A sample\<close>

definition zero_sample :: "i64 \<Rightarrow> string \<Rightarrow> runtime_sample" where
  "zero_sample p pidsMax =
     \<lparr>pid = p, utimeTicks = 0, stimeTicks = 0, startTimeTicks = 0, threads = 0, vmRSSKB = 0, vmHWMKB = 0, vmDataKB = 0,
      cgroupMemory = 0, cgroupOOM = 0, cgroupOOMKill = 0, cgroupPids = 0, cgroupPidsMax = pidsMax, memAvailableKB = 0,
      goroutines = 0, heapAlloc = 0, heapSys = 0, heapIdle = 0, heapReleased = 0, stackInuse = 0, otherSys = 0, numGC = 0,
      pauseTotalNs = 0, lastGCPauseNs = 0\<rparr>"

text \<open>\<open>ms.PauseNs[(ms.NumGC+255)%256]\<close>.\<close>

definition last_pause :: "mem_stats \<Rightarrow> u64" where
  "last_pause ms = PauseNs ms (ucast ((NumGC ms + 255) mod 256))"

definition fill_mem_stats :: "mem_stats \<Rightarrow> runtime_sample \<Rightarrow> runtime_sample" where
  "fill_mem_stats ms s =
     (let s = s\<lparr>heapAlloc := HeapAlloc ms, heapSys := HeapSys ms, heapIdle := HeapIdle ms, heapReleased := HeapReleased ms,
          stackInuse := StackInuse ms, otherSys := OtherSys ms, numGC := NumGC ms, pauseTotalNs := PauseTotalNs ms\<rparr>
      in if 0 < NumGC ms then s\<lparr>lastGCPauseNs := last_pause ms\<rparr> else s)"

definition collectRuntimeDebugSample ::
  "'w files \<Rightarrow> i64 \<Rightarrow> ('w \<Rightarrow> i64) \<Rightarrow> ('w \<Rightarrow> mem_stats) \<Rightarrow> 'w \<Rightarrow> string + runtime_sample \<times> 'w" where
  "collectRuntimeDebugSample read getpid numGoroutine readMemStats w =
     (let (pidsMax, w) = readTrim read ''/sys/fs/cgroup/pids.max'' w
      in or_panic (fillProcStatus read (zero_sample getpid pidsMax) w) (\<lambda>(s, w).
         or_panic (fillProcStat read s w) (\<lambda>(s, w).
         or_panic (readUintFirst read [''/sys/fs/cgroup/memory.current'', ''/sys/fs/cgroup/memory/memory.usage_in_bytes''] w) (\<lambda>(mem, w).
         or_panic (fillCgroupMemoryEvents read (s\<lparr>cgroupMemory := mem\<rparr>) w) (\<lambda>(s, w).
         or_panic (readUintFirst read [''/sys/fs/cgroup/pids.current''] w) (\<lambda>(pids, w).
         or_panic (readMemAvailableKB read w) (\<lambda>(avail, w).
           Inr (fill_mem_stats (readMemStats w)
             (s\<lparr>cgroupPids := pids, memAvailableKB := avail, goroutines := numGoroutine w\<rparr>), w))))))))"

definition show_u64 :: "'a::len word \<Rightarrow> string" where
  "show_u64 x = show_nat (unat x)"

definition csv_header :: string where
  "csv_header = ''ts,pid,utime_ticks,stime_ticks,threads,vmrss_kb,vmhwm_kb,vmdata_kb,cgroup_memory,cgroup_oom,cgroup_oom_kill,cgroup_pids,cgroup_pids_max,mem_available_kb,goroutines,heap_alloc,heap_sys,heap_idle,heap_released,stack_inuse,other_sys,num_gc,pause_total_ns,last_gc_pause_ns''"

text \<open>The line without its newline; \<open>ts\<close> is \<open>time.Now().UnixNano()\<close>.\<close>

definition csv_columns :: "i64 \<Rightarrow> runtime_sample \<Rightarrow> string list" where
  "csv_columns ts s =
     [Itoa ts, Itoa (pid s), show_u64 (utimeTicks s), show_u64 (stimeTicks s), Itoa (threads s), show_u64 (vmRSSKB s),
      show_u64 (vmHWMKB s), show_u64 (vmDataKB s), show_u64 (cgroupMemory s), show_u64 (cgroupOOM s),
      show_u64 (cgroupOOMKill s), show_u64 (cgroupPids s), csvSafe (cgroupPidsMax s), show_u64 (memAvailableKB s),
      Itoa (goroutines s), show_u64 (heapAlloc s), show_u64 (heapSys s), show_u64 (heapIdle s), show_u64 (heapReleased s),
      show_u64 (stackInuse s), show_u64 (otherSys s), show_u64 (numGC s), show_u64 (pauseTotalNs s), show_u64 (lastGCPauseNs s)]"

definition csv_line :: "i64 \<Rightarrow> runtime_sample \<Rightarrow> string" where
  "csv_line ts s = join '','' (csv_columns ts s)"

section \<open>No sample panics\<close>

lemma readUintFirst_safe: "\<exists>v w'. readUintFirst read paths w = Inr (v, w')"
proof (induction paths arbitrary: w)
  case (Cons path paths)
  obtain content w1 where r: "readTrim read path w = (content, w1)" by fastforce
  show ?case
  proof (cases "content = [] \<or> content = ''max''")
    case True
    with r Cons.IH show ?thesis by simp
  next
    case False
    with r obtain data where "content = TrimSpace data" "TrimSpace data \<noteq> []"
      by (auto simp: readTrim_def split: prod.splits option.splits)
    then obtain f fs where "Fields content = f # fs" using Fields_trimmed by (metis list.exhaust)
    with r False Cons.IH show ?thesis by (simp split: option.split)
  qed
qed simp

lemma fill_line_safe:
  "\<exists>s'. fill_status_line line s = Inr s' \<and> cgroupPidsMax s' = cgroupPidsMax s"
  "\<exists>s'. fill_events_line line s = Inr s' \<and> cgroupPidsMax s' = cgroupPidsMax s"
  by (simp_all add: fill_status_line_def fill_events_line_def Let_def)

lemma mem_available_safe: "\<exists>v. mem_available ls = Inr v"
  by (induction ls) (auto simp: Let_def)

lemma fills_safe:
  "\<exists>s' w'. fillProcStatus read s w = Inr (s', w') \<and> cgroupPidsMax s' = cgroupPidsMax s"
  "\<exists>s' w'. fillProcStat read s w = Inr (s', w') \<and> cgroupPidsMax s' = cgroupPidsMax s"
  "\<exists>s' w'. fillCgroupMemoryEvents read s w = Inr (s', w') \<and> cgroupPidsMax s' = cgroupPidsMax s"
  "\<exists>v w'. readMemAvailableKB read w = Inr (v, w')"
proof -
  note lines = fill_lines_safe [where g = cgroupPidsMax]
  show "\<exists>s' w'. fillProcStatus read s w = Inr (s', w') \<and> cgroupPidsMax s' = cgroupPidsMax s"
    using lines [of fill_status_line, OF fill_line_safe(1)]
    by (auto simp: fillProcStatus_def split: prod.split option.split) (metis map_sum.simps(2))
  show "\<exists>s' w'. fillCgroupMemoryEvents read s w = Inr (s', w') \<and> cgroupPidsMax s' = cgroupPidsMax s"
    using lines [of fill_events_line, OF fill_line_safe(2)]
    by (auto simp: fillCgroupMemoryEvents_def split: prod.split option.split) (metis map_sum.simps(2))
  have "20 \<le> length parts" if "stat_fields content = Some parts" for content parts
    using that by (auto simp: stat_fields_def Let_def split: option.splits if_splits)
  then show "\<exists>s' w'. fillProcStat read s w = Inr (s', w') \<and> cgroupPidsMax s' = cgroupPidsMax s"
    by (fastforce simp: fillProcStat_def split: prod.split option.split)
  show "\<exists>v w'. readMemAvailableKB read w = Inr (v, w')"
    using mem_available_safe by (auto simp: readMemAvailableKB_def split: prod.split option.split) (metis map_sum.simps(2))
qed

text \<open>So a sample is taken, and its text of \<open>pids.max\<close> is the one read first.\<close>

lemma sample_parts:
  "\<exists>pidsMax w1 s2 w2 s3 w3 mem w4 s5 w5 pids w6 avail w7.
     readTrim read ''/sys/fs/cgroup/pids.max'' w = (pidsMax, w1)
     \<and> fillProcStatus read (zero_sample p pidsMax) w1 = Inr (s2, w2) \<and> fillProcStat read s2 w2 = Inr (s3, w3)
     \<and> readUintFirst read [''/sys/fs/cgroup/memory.current'', ''/sys/fs/cgroup/memory/memory.usage_in_bytes''] w3 = Inr (mem, w4)
     \<and> fillCgroupMemoryEvents read (s3\<lparr>cgroupMemory := mem\<rparr>) w4 = Inr (s5, w5)
     \<and> readUintFirst read [''/sys/fs/cgroup/pids.current''] w5 = Inr (pids, w6) \<and> readMemAvailableKB read w6 = Inr (avail, w7)
     \<and> cgroupPidsMax s5 = pidsMax
     \<and> collectRuntimeDebugSample read p g m w
         = Inr (fill_mem_stats (m w7) (s5\<lparr>cgroupPids := pids, memAvailableKB := avail, goroutines := g w7\<rparr>), w7)"
proof -
  obtain pidsMax w1 where 1: "readTrim read ''/sys/fs/cgroup/pids.max'' w = (pidsMax, w1)" by fastforce
  obtain s2 w2 where 2: "fillProcStatus read (zero_sample p pidsMax) w1 = Inr (s2, w2)" "cgroupPidsMax s2 = pidsMax"
    using fills_safe(1) [of read "zero_sample p pidsMax" w1] by (auto simp: zero_sample_def)
  obtain s3 w3 where 3: "fillProcStat read s2 w2 = Inr (s3, w3)" "cgroupPidsMax s3 = pidsMax"
    using fills_safe(2) [of read s2 w2] 2(2) by auto
  obtain mem w4 where 4: "readUintFirst read
      [''/sys/fs/cgroup/memory.current'', ''/sys/fs/cgroup/memory/memory.usage_in_bytes''] w3 = Inr (mem, w4)"
    using readUintFirst_safe [of read _ w3] by blast
  obtain s5 w5 where 5: "fillCgroupMemoryEvents read (s3\<lparr>cgroupMemory := mem\<rparr>) w4 = Inr (s5, w5)" "cgroupPidsMax s5 = pidsMax"
    using fills_safe(3) [of read "s3\<lparr>cgroupMemory := mem\<rparr>" w4] 3(2) by auto
  obtain pids w6 where 6: "readUintFirst read [''/sys/fs/cgroup/pids.current''] w5 = Inr (pids, w6)"
    using readUintFirst_safe [of read _ w5] by blast
  obtain avail w7 where 7: "readMemAvailableKB read w6 = Inr (avail, w7)" using fills_safe(4) [of read w6] by blast
  have "collectRuntimeDebugSample read p g m w
      = Inr (fill_mem_stats (m w7) (s5\<lparr>cgroupPids := pids, memAvailableKB := avail, goroutines := g w7\<rparr>), w7)"
    using 1 2 3 4 5 6 7 by (simp add: collectRuntimeDebugSample_def del: readUintFirst.simps)
  with 1 2(1) 3(1) 4 5 6 7 show ?thesis by blast
qed

lemma sample_never_panics: "\<exists>s w'. collectRuntimeDebugSample read p g m w = Inr (s, w')"
  using sample_parts [of read w p g m] by auto

text \<open>A line has the columns of the header: no column has a comma in it.\<close>

lemma count_join: "xs \<noteq> [] \<Longrightarrow> \<forall>x \<in> set xs. c \<notin> set x \<Longrightarrow> count_list (join [c] xs) c = length xs - 1"
  by (induction "[c]" xs rule: join.induct) (auto simp: count_list_0_iff)

lemma show_nat_no_comma: "CHR '','' \<notin> set (show_nat n)" "CHR '','' \<notin> set (Itoa i)" "CHR '','' \<notin> set (show_u64 x)"
proof -
  show n: "CHR '','' \<notin> set (show_nat n)" for n
    using show_nat_digits [of n] by (auto simp: list_all_iff is_digit_def)
  show "CHR '','' \<notin> set (Itoa i)" using n by (simp add: Itoa_def)
  show "CHR '','' \<notin> set (show_u64 x)" using n by (simp add: show_u64_def)
qed

lemma csv_columns_match_header: "count_list (csv_line ts s) CHR '','' = count_list csv_header CHR '',''"
proof -
  have "CHR '','' \<notin> set (csvSafe x)" for x by (auto simp: csvSafe_def ReplaceAll_char_def)
  then have "\<forall>x \<in> set (csv_columns ts s). CHR '','' \<notin> set x"
    by (simp add: csv_columns_def show_nat_no_comma)
  then have "count_list (csv_line ts s) CHR '','' = length (csv_columns ts s) - 1"
    unfolding csv_line_def by (intro count_join) (simp_all add: csv_columns_def)
  moreover have "count_list csv_header CHR '','' = 23" by code_simp
  ultimately show ?thesis by (simp add: csv_columns_def)
qed

end
