(* ===== verification/Runtime_Log.thy ===== *)
theory Runtime_Log
  imports Runtime_Debug
begin

text \<open>
  The log of \<open>cmd/star1ight-agent/runtime_debug.go\<close>: \<open>startRuntimeDebugLogger\<close> with its goroutine, which
  writes a sample, syncs the file and waits for the ticker or the end of the context. The file, the clock
  and the runtime are a \<open>log_system\<close> over the world \<open>'w\<close>; what the theorem needs of it is what \<open>os.OpenFile\<close>
  documents of a file opened with \<open>O_APPEND\<close>.
\<close>

section \<open>The logger\<close>

record 'w log_system =
  open_log :: "string \<Rightarrow> 'w \<Rightarrow> error option \<times> 'w"
  stat_log :: "'w \<Rightarrow> (error + i64) \<times> 'w"
  print_log :: "string \<Rightarrow> 'w \<Rightarrow> 'w"
  sync_log :: "'w \<Rightarrow> 'w"
  close_log :: "'w \<Rightarrow> 'w"
  unix_nano :: "'w \<Rightarrow> i64"
  log_files :: "'w files"
  log_pid :: i64
  log_goroutines :: "'w \<Rightarrow> i64"
  log_mem_stats :: "'w \<Rightarrow> mem_stats"

text \<open>What the \<open>select\<close> of the loop sees next.\<close>

datatype log_event = LogTick | LogDone

datatype 'w logging = LogWaiting 'w | LogReturned 'w | LogPanicked string

definition newline :: string where
  "newline = [CHR 0x0A]"

definition log_sample :: "'w log_system \<Rightarrow> 'w \<Rightarrow> string + 'w" where
  "log_sample S w =
     (case collectRuntimeDebugSample (log_files S) (log_pid S) (log_goroutines S) (log_mem_stats S) w of
        Inl p \<Rightarrow> Inl p
      | Inr (s, w) \<Rightarrow> Inr (sync_log S (print_log S (csv_line (unix_nano S w) s @ newline) w)))"

fun log_loop :: "'w log_system \<Rightarrow> log_event list \<Rightarrow> 'w \<Rightarrow> 'w logging" where
  "log_loop S es w =
     (case log_sample S w of
        Inl p \<Rightarrow> LogPanicked p
      | Inr w \<Rightarrow>
          (case es of
             [] \<Rightarrow> LogWaiting w
           | LogDone # es \<Rightarrow> LogReturned (close_log S w)
           | LogTick # es \<Rightarrow> log_loop S es w))"

declare log_loop.simps [simp del]

text \<open>
  The call returns an error, or nil with the period of the ticker of the goroutine it started, if any.
  \<open>time.NewTicker\<close> panics when its period is not positive.
\<close>

definition startRuntimeDebugLogger :: "'w log_system \<Rightarrow> string \<Rightarrow> i64 \<Rightarrow> 'w \<Rightarrow> (error + i64 option) \<times> 'w" where
  "startRuntimeDebugLogger S path every w =
     (if path = [] then (Inr None, w)
      else
        (let every = (if sint every \<le> 0 then 1000000000 else every)
         in case open_log S path w of
              (Some err, w) \<Rightarrow> (Inl err, w)
            | (None, w) \<Rightarrow>
                (let (st, w) = stat_log S w;
                     w = (if st = Inr 0 then print_log S (csv_header @ newline) w else w)
                 in (Inr (Some every), w))))"

section \<open>The file\<close>

text \<open>
  \<open>content\<close> is what the file holds. Opening it for appending keeps what it holds, \<open>Stat\<close> tells its size,
  a write appends, and nothing else writes to it; \<open>pids.max\<close> is one line.
\<close>

definition appends :: "('w \<Rightarrow> string) \<Rightarrow> 'w log_system \<Rightarrow> bool" where
  "appends content S \<longleftrightarrow>
     (\<forall>path w. content (snd (open_log S path w)) = content w)
     \<and> (\<forall>w. \<exists>n. fst (stat_log S w) = Inr n \<and> (n = 0 \<longleftrightarrow> content w = []) \<and> content (snd (stat_log S w)) = content w)
     \<and> (\<forall>text w. content (print_log S text w) = content w @ text)
     \<and> (\<forall>w. content (sync_log S w) = content w \<and> content (close_log S w) = content w)
     \<and> (\<forall>path w. content (snd (log_files S path w)) = content w)
     \<and> (\<forall>w data. fst (log_files S ''/sys/fs/cgroup/pids.max'' w) = Some data \<longrightarrow> CHR 0x0A \<notin> set (TrimSpace data))"

text \<open>A table: lines of the header's 24 columns, the first of them the header.\<close>

definition is_row :: "string \<Rightarrow> bool" where
  "is_row line \<longleftrightarrow> (\<exists>cols. length cols = 24 \<and> line = join '','' cols
     \<and> (\<forall>c \<in> set cols. CHR '','' \<notin> set c \<and> CHR 0x0A \<notin> set c))"

definition table :: "string list \<Rightarrow> string" where
  "table rows = concat (map (\<lambda>r. r @ newline) rows)"

lemma table_snoc: "table (rows @ [r]) = table rows @ r @ newline"
  by (simp add: table_def)

lemma join_no: "\<forall>x \<in> set xs. c \<notin> set x \<Longrightarrow> c \<notin> set sep \<Longrightarrow> c \<notin> set (join sep xs)"
  by (induction sep xs rule: join.induct) auto

text \<open>The lines of a table can be read back.\<close>

lemma split_lines_table:
  assumes "\<forall>r \<in> set rows. CHR 0x0A \<notin> set r"
  shows "split_lines (table rows) = rows @ [[]]"
  using assms
proof (induction rows)
  case Nil
  show ?case by (simp add: table_def split_lines_def)
next
  case (Cons r rows)
  then have "SplitBy (\<lambda>c. c = CHR 0x0A) (r @ CHR 0x0A # table rows) = r # SplitBy (\<lambda>c. c = CHR 0x0A) (table rows)"
    by (intro SplitBy_append) (auto simp: list_all_iff)
  with Cons show ?case by (simp add: table_def split_lines_def newline_def)
qed

section \<open>A sample leaves the file alone\<close>

lemma reads_keep:
  assumes "\<And>path w. content (snd (read path w)) = content w"
  shows "readTrim read path w = (t, w') \<Longrightarrow> content w' = content w"
    and "readUintFirst read paths w = Inr (v, w') \<Longrightarrow> content w' = content w"
    and "readMemAvailableKB read w = Inr (v, w') \<Longrightarrow> content w' = content w"
    and "fillCgroupMemoryEvents read s w = Inr (s', w') \<Longrightarrow> content w' = content w"
    and "fillProcStat read s w = Inr (s', w') \<Longrightarrow> content w' = content w"
    and "fillProcStatus read s w = Inr (s', w') \<Longrightarrow> content w' = content w"
proof -
  have one: "read path w = (d, w') \<Longrightarrow> content w' = content w" for path w d w' using assms by (metis snd_conv)
  then show trim: "readTrim read path w = (t, w') \<Longrightarrow> content w' = content w" for path w t w'
    by (auto simp: readTrim_def split: prod.splits option.splits)
  show "readUintFirst read paths w = Inr (v, w') \<Longrightarrow> content w' = content w"
    by (induction paths arbitrary: w) (auto dest: trim split: prod.splits if_splits list.splits option.splits)
  have lines: "map_sum id (\<lambda>x. (x, w1)) r = Inr (y, w2) \<Longrightarrow> w2 = w1" for r :: "string + 'c" and y w1 w2
    by (cases r) auto
  show "readMemAvailableKB read w = Inr (v, w') \<Longrightarrow> content w' = content w"
    "fillCgroupMemoryEvents read s w = Inr (s', w') \<Longrightarrow> content w' = content w"
    "fillProcStatus read s w = Inr (s', w') \<Longrightarrow> content w' = content w"
    using one by (auto simp: readMemAvailableKB_def fillCgroupMemoryEvents_def fillProcStatus_def
        dest!: lines split: prod.splits option.splits)
  show "fillProcStat read s w = Inr (s', w') \<Longrightarrow> content w' = content w"
    using one by (auto simp: fillProcStat_def or_panic_Inr split: prod.splits option.splits)
qed

lemma sample_keeps:
  assumes "collectRuntimeDebugSample read p g m w = Inr (s, w')"
    and keep: "\<And>path w. content (snd (read path w)) = content w"
  shows "content w' = content w" and "cgroupPidsMax s = fst (readTrim read ''/sys/fs/cgroup/pids.max'' w)"
proof -
  note keeps = reads_keep [where content = content, OF keep]
  from sample_parts [of read w p g m] obtain pidsMax w1 s2 w2 s3 w3 mem w4 s5 w5 pids w6 avail w7 where
    1: "readTrim read ''/sys/fs/cgroup/pids.max'' w = (pidsMax, w1)"
    and 2: "fillProcStatus read (zero_sample p pidsMax) w1 = Inr (s2, w2)" and 3: "fillProcStat read s2 w2 = Inr (s3, w3)"
    and 4: "readUintFirst read [''/sys/fs/cgroup/memory.current'', ''/sys/fs/cgroup/memory/memory.usage_in_bytes''] w3 = Inr (mem, w4)"
    and 5: "fillCgroupMemoryEvents read (s3\<lparr>cgroupMemory := mem\<rparr>) w4 = Inr (s5, w5)"
    and 6: "readUintFirst read [''/sys/fs/cgroup/pids.current''] w5 = Inr (pids, w6)"
    and 7: "readMemAvailableKB read w6 = Inr (avail, w7)" and pids: "cgroupPidsMax s5 = pidsMax"
    and s: "collectRuntimeDebugSample read p g m w
      = Inr (fill_mem_stats (m w7) (s5\<lparr>cgroupPids := pids, memAvailableKB := avail, goroutines := g w7\<rparr>), w7)"
    by blast
  show "content w' = content w"
    using assms(1) s keeps(1) [OF 1] keeps(6) [OF 2] keeps(5) [OF 3] keeps(2) [OF 4] keeps(4) [OF 5] keeps(2) [OF 6] keeps(3) [OF 7]
    by simp
  show "cgroupPidsMax s = fst (readTrim read ''/sys/fs/cgroup/pids.max'' w)"
    using assms(1) s 1 pids by (auto simp: fill_mem_stats_def Let_def)
qed

section \<open>The log is a table\<close>

lemma digits_no_newline:
  "CHR 0x0A \<notin> set (show_nat n)" "CHR 0x0A \<notin> set (Itoa i)" "CHR 0x0A \<notin> set (show_u64 x)"
proof -
  show n: "CHR 0x0A \<notin> set (show_nat n)" for n
    using show_nat_digits [of n] by (auto simp: list_all_iff is_digit_def)
  show "CHR 0x0A \<notin> set (Itoa i)" using n by (simp add: Itoa_def)
  show "CHR 0x0A \<notin> set (show_u64 x)" using n by (simp add: show_u64_def)
qed

lemma is_row_line: "CHR 0x0A \<notin> set (cgroupPidsMax s) \<Longrightarrow> is_row (csv_line ts s)"
  unfolding is_row_def csv_line_def
  by (intro exI [of _ "csv_columns ts s"])
    (auto simp: csv_columns_def show_nat_no_comma digits_no_newline csvSafe_def ReplaceAll_char_def)

lemma is_row_header: "is_row csv_header"
  unfolding is_row_def
  by (intro exI [of _ "SplitBy (\<lambda>c. c = CHR '','') csv_header"]) code_simp

lemma is_row_no_newline: "is_row r \<Longrightarrow> CHR 0x0A \<notin> set r"
  unfolding is_row_def using join_no [of _ "CHR 0x0A" "'',''"] by force

lemma log_sample_row:
  assumes "appends content S"
  shows "\<exists>w' r. log_sample S w = Inr w' \<and> content w' = content w @ r @ newline \<and> is_row r"
proof -
  from assms have keep: "\<And>path w. content (snd (log_files S path w)) = content w"
    and pids: "\<And>w data. fst (log_files S ''/sys/fs/cgroup/pids.max'' w) = Some data \<Longrightarrow> CHR 0x0A \<notin> set (TrimSpace data)"
    and prints: "\<And>text w. content (print_log S text w) = content w @ text" "\<And>w. content (sync_log S w) = content w"
    by (auto simp: appends_def)
  obtain s w1 where s: "collectRuntimeDebugSample (log_files S) (log_pid S) (log_goroutines S) (log_mem_stats S) w = Inr (s, w1)"
    using sample_never_panics [of "log_files S" "log_pid S" "log_goroutines S" "log_mem_stats S" w] by auto
  have "CHR 0x0A \<notin> set (cgroupPidsMax s)"
    using sample_keeps(2) [OF s keep] pids [of w]
    by (auto simp: readTrim_def split: prod.splits option.splits)
  then show ?thesis
    using s sample_keeps(1) [where content = content, OF s keep] prints is_row_line by (simp add: log_sample_def)
qed

lemma log_loop_rows:
  assumes "appends content S" and "content w = table rows" and "\<forall>r \<in> set rows. is_row r"
  shows "\<exists>new w'. log_loop S es w = (if LogDone \<in> set es then LogReturned w' else LogWaiting w')
    \<and> content w' = table (rows @ new) \<and> (\<forall>r \<in> set new. is_row r)
    \<and> length new = Suc (length (takeWhile ((=) LogTick) es))"
  using assms(2,3)
proof (induction es arbitrary: w rows)
  case Nil
  from log_sample_row [OF assms(1), of w] obtain w' r where
    "log_sample S w = Inr w'" "content w' = content w @ r @ newline" "is_row r" by blast
  with Nil show ?case by (intro exI [of _ "[r]"] exI [of _ w']) (simp add: log_loop.simps table_snoc)
next
  case (Cons e es)
  from log_sample_row [OF assms(1), of w] obtain w' r where
    w': "log_sample S w = Inr w'" "content w' = content w @ r @ newline" "is_row r" by blast
  with Cons.prems have table: "content w' = table (rows @ [r])" "\<forall>r \<in> set (rows @ [r]). is_row r"
    by (auto simp: table_snoc)
  show ?case
  proof (cases e)
    case LogTick
    from Cons.IH [OF table] obtain new w2 where
      "log_loop S es w' = (if LogDone \<in> set es then LogReturned w2 else LogWaiting w2)"
      "content w2 = table (rows @ r # new)" "\<forall>r \<in> set new. is_row r" "length new = Suc (length (takeWhile ((=) LogTick) es))"
      by auto
    with LogTick w' show ?thesis
      by (intro exI [of _ "r # new"] exI [of _ w2]) (simp add: log_loop.simps [of S "LogTick # es"])
  next
    case LogDone
    have "content (close_log S w') = content w'" using assms(1) by (simp add: appends_def)
    with LogDone w' table show ?thesis
      by (intro exI [of _ "[r]"] exI [of _ "close_log S w'"]) (simp add: log_loop.simps)
  qed
qed

text \<open>
  C40: The runtime log is always a table. Whether the file is new or has been written by earlier runs,
  whatever the files of the system hold and however long the process runs, the log is the header and
  then one line of 24 columns for each sample: what it held before, one sample at the start and one for
  each tick until the context ends. Nothing panics, the ticker's period is positive and the goroutine
  returns when the context ends.
\<close>

theorem runtime_log_is_a_table:
  assumes "appends content S" and "path \<noteq> []"
    and "startRuntimeDebugLogger S path every w0 = (Inr (Some period), w1)"
    and "content w0 = table rows" and "\<forall>r \<in> set rows. is_row r" and "rows = [] \<or> hd rows = csv_header"
  shows "0 < sint period
    \<and> (\<exists>new w. log_loop S es w1 = (if LogDone \<in> set es then LogReturned w else LogWaiting w)
         \<and> split_lines (content w) = (if rows = [] then [csv_header] else rows) @ new @ [[]]
         \<and> length new = Suc (length (takeWhile ((=) LogTick) es)) \<and> (\<forall>r \<in> set new. is_row r))"
proof -
  let ?rows = "if rows = [] then [csv_header] else rows"
  obtain w2 where w2: "open_log S path w0 = (None, w2)" and w1: "w1 = (if fst (stat_log S w2) = Inr 0
      then print_log S (csv_header @ newline) (snd (stat_log S w2)) else snd (stat_log S w2))"
    and period: "period = (if sint every \<le> 0 then 1000000000 else every)"
    using assms(2,3) by (auto simp: startRuntimeDebugLogger_def Let_def split: prod.splits option.splits)
  have same: "content w2 = table rows" using assms(1,4) w2 unfolding appends_def by (metis snd_conv)
  obtain n where n: "fst (stat_log S w2) = Inr n" "n = 0 \<longleftrightarrow> content w2 = []" "content (snd (stat_log S w2)) = content w2"
    and prints: "\<And>text w. content (print_log S text w) = content w @ text"
    using assms(1) unfolding appends_def by blast
  have "table rows = [] \<longleftrightarrow> rows = []" by (auto simp: table_def newline_def)
  then have "content w1 = table ?rows"
    using same n prints by (simp add: w1) (simp add: table_def)
  moreover have rows: "\<forall>r \<in> set ?rows. is_row r" using assms(5) is_row_header by simp
  ultimately obtain new w where new: "log_loop S es w1 = (if LogDone \<in> set es then LogReturned w else LogWaiting w)"
    "content w = table (?rows @ new)" "\<forall>r \<in> set new. is_row r" "length new = Suc (length (takeWhile ((=) LogTick) es))"
    using log_loop_rows [OF assms(1)] by blast
  have "split_lines (content w) = (?rows @ new) @ [[]]"
    unfolding new(2) by (rule split_lines_table) (use rows new(3) is_row_no_newline in auto)
  moreover have "0 < sint period" by (simp add: period)
  ultimately show ?thesis using new by (metis append_assoc)
qed

text \<open>A system whose world is the file, and whose other files cannot be read.\<close>

definition bare_system :: "string log_system" where
  "bare_system =
     \<lparr>open_log = (\<lambda>path w. (None, w)), stat_log = (\<lambda>w. (Inr (if w = [] then 0 else 1), w)), print_log = (\<lambda>text w. w @ text),
      sync_log = (\<lambda>w. w), close_log = (\<lambda>w. w), unix_nano = (\<lambda>w. 7), log_files = (\<lambda>path w. (None, w)), log_pid = 1,
      log_goroutines = (\<lambda>w. 2),
      log_mem_stats = (\<lambda>w. \<lparr>HeapAlloc = 0, HeapSys = 0, HeapIdle = 0, HeapReleased = 0, StackInuse = 0, OtherSys = 0,
        NumGC = 0, PauseTotalNs = 0, PauseNs = (\<lambda>i. 0)\<rparr>)\<rparr>"

theorem runtime_log_is_a_table_witness:
  "fst (startRuntimeDebugLogger bare_system ''/tmp/runtime.csv'' 0 []) = Inr (Some 1000000000)
   \<and> (\<exists>new w. log_loop bare_system [LogTick, LogDone] (snd (startRuntimeDebugLogger bare_system ''/tmp/runtime.csv'' 0 [])) = LogReturned w
        \<and> split_lines w = [csv_header] @ new @ [[]] \<and> length new = 2)"
proof -
  have start: "startRuntimeDebugLogger bare_system ''/tmp/runtime.csv'' 0 [] = (Inr (Some 1000000000), csv_header @ newline)"
    by (simp add: startRuntimeDebugLogger_def bare_system_def)
  have "appends (\<lambda>w. w) bare_system" by (simp add: appends_def bare_system_def)
  from runtime_log_is_a_table [OF this _ start, of "[]" "[LogTick, LogDone]"]
  show ?thesis unfolding start by (auto simp: table_def)
qed

end
