(* ===== verification/Startup.thy ===== *)
theory Startup
  imports Agent Machine_Reporter Runtime_Log
begin

text \<open>
  The start of the agent in \<open>cmd/star1ight-agent/main.go\<close>: the options of sing-box with the Hysteria2
  tuning, the panel \<open>configurePanel\<close> chooses, and the wiring of \<open>main\<close> with the goroutines it starts:
  the runtime log, the statistics API, the synchroniser and the machine reporter.

  Parsing the flags, the sing-box options and the user file is done by packages and is a parameter
  (\<open>env\<close>), like creating and starting the core. \<open>log.Fatal\<close> ends the process: \<open>Inl\<close>.
\<close>

section \<open>Options\<close>

text \<open>Of sing-box's types, the fields the agent touches.\<close>

record hy2_inbound_options =
  hy2_UpMbps :: i64
  hy2_DownMbps :: i64
  hy2_IgnoreClientBandwidth :: bool
  hy2_BrutalDebug :: bool

datatype 'o inbound_options = Hysteria2Options "hy2_inbound_options option" | OtherOptions 'o

record 'o inbound_entry =
  in_Type :: string
  in_Options :: "'o inbound_options"

record log_options =
  log_Level :: string
  log_Timestamp :: bool

record 'o singbox_options =
  opt_Log :: "log_options option"
  opt_Inbounds :: "'o inbound_entry list"

record hy2_tuning =
  Enabled :: bool
  tune_UpMbps :: i64
  tune_DownMbps :: i64
  tune_IgnoreClientBandwidth :: bool
  tune_BrutalDebug :: bool

definition tune_inbound :: "hy2_tuning \<Rightarrow> 'o inbound_entry \<Rightarrow> 'o inbound_entry" where
  "tune_inbound tuning e =
     (if in_Type e \<noteq> ''hysteria2'' then e
      else
        (case in_Options e of
           Hysteria2Options (Some hy2) \<Rightarrow>
             (let hy2 = (if 0 < sint (tune_UpMbps tuning) then hy2\<lparr>hy2_UpMbps := tune_UpMbps tuning\<rparr> else hy2);
                  hy2 = (if 0 < sint (tune_DownMbps tuning) then hy2\<lparr>hy2_DownMbps := tune_DownMbps tuning\<rparr> else hy2);
                  hy2 = (if tune_IgnoreClientBandwidth tuning then hy2\<lparr>hy2_IgnoreClientBandwidth := True\<rparr> else hy2);
                  hy2 = (if tune_BrutalDebug tuning then hy2\<lparr>hy2_BrutalDebug := True\<rparr> else hy2)
              in e\<lparr>in_Options := Hysteria2Options (Some hy2)\<rparr>)
         | _ \<Rightarrow> e))"

definition applyHY2Tuning :: "'o singbox_options option \<Rightarrow> hy2_tuning \<Rightarrow> 'o singbox_options option" where
  "applyHY2Tuning opts tuning =
     (case opts of
        None \<Rightarrow> None
      | Some opts' \<Rightarrow>
          if \<not> Enabled tuning then opts
          else Some (opts'\<lparr>opt_Inbounds := map (tune_inbound tuning) (opt_Inbounds opts')\<rparr>))"

text \<open>What the packages do with the files.\<close>

record ('o, 'c, 'w) env =
  env_ReadFile :: "string \<Rightarrow> 'w \<Rightarrow> error + string"
  env_UnmarshalOptions :: "string \<Rightarrow> error + 'o singbox_options"
  env_UnmarshalUsers :: "string \<Rightarrow> error + local_user_file"
  box_New :: "'o singbox_options \<Rightarrow> error + 'c"
  AppendTracker :: "'c \<Rightarrow> 'c"
  box_Start :: "'c \<Rightarrow> error option \<times> 'c"
  env_log :: "'w log_system"

definition loadOptionsWithHY2Tuning :: "('o, 'c, 'w) env \<Rightarrow> string \<Rightarrow> hy2_tuning \<Rightarrow> 'w \<Rightarrow> error + 'o singbox_options" where
  "loadOptionsWithHY2Tuning E path tuning w =
     (case env_ReadFile E path w of
        Inl err \<Rightarrow> Inl err
      | Inr data \<Rightarrow>
          (case env_UnmarshalOptions E data of
             Inl err \<Rightarrow> Inl err
           | Inr opts \<Rightarrow>
               (let opts =
                  (case opt_Log opts of
                     None \<Rightarrow> opts\<lparr>opt_Log := Some \<lparr>log_Level = ''warn'', log_Timestamp = True\<rparr>\<rparr>
                   | Some l \<Rightarrow> if log_Level l = [] then opts\<lparr>opt_Log := Some (l\<lparr>log_Level := ''warn''\<rparr>)\<rparr> else opts)
                in case applyHY2Tuning (Some opts) tuning of Some opts \<Rightarrow> Inr opts | None \<Rightarrow> Inr opts)))"

definition loadOptions :: "('o, 'c, 'w) env \<Rightarrow> string \<Rightarrow> 'w \<Rightarrow> error + 'o singbox_options" where
  "loadOptions E path w =
     loadOptionsWithHY2Tuning E path
       \<lparr>Enabled = False, tune_UpMbps = 0, tune_DownMbps = 0, tune_IgnoreClientBandwidth = False, tune_BrutalDebug = False\<rparr> w"

definition loadRuntimeOptions ::
  "('o, 'c, 'w) env \<Rightarrow> string \<Rightarrow> hy2_tuning \<Rightarrow> bool \<Rightarrow> 'w \<Rightarrow> error + 'o singbox_options option" where
  "loadRuntimeOptions E path tuning machineOnly w =
     (if machineOnly then Inr None
      else
        (case loadOptionsWithHY2Tuning E path tuning w of Inl err \<Rightarrow> Inl err | Inr opts \<Rightarrow> Inr (Some opts)))"

definition loadLocalUsers :: "('o, 'c, 'w) env \<Rightarrow> string \<Rightarrow> 'w \<Rightarrow> error + user list" where
  "loadLocalUsers E path w =
     (if path = [] then Inr []
      else
        (case env_ReadFile E path w of
           Inl err \<Rightarrow> Inl err
         | Inr data \<Rightarrow> ParseUsers (env_UnmarshalUsers E data)))"

section \<open>The panel\<close>

record flags =
  fl_config :: string
  fl_api :: string
  fl_users :: string
  fl_panelURL :: string
  fl_panelToken :: string
  fl_panelNodeID :: string
  fl_panelNodeType :: string
  fl_machineID :: string
  fl_machineToken :: string
  fl_machineEvery :: i64
  fl_panelHY2NodeID :: string
  fl_panelHY2NodeType :: string
  fl_panelEvery :: i64
  fl_nodeRateMbps :: i64
  fl_machineOnly :: bool
  fl_hy2UpMbps :: i64
  fl_hy2DownMbps :: i64
  fl_hy2IgnoreClientBandwidth :: bool
  fl_hy2BrutalDebug :: bool
  fl_debugRuntimeLog :: string
  fl_debugRuntimeEvery :: i64
  fl_sourceBuckets :: string
  fl_sourceServerMap :: string
  fl_sourceDrop :: string

text \<open>The values of the flags when none is given.\<close>

definition default_flags :: flags where
  "default_flags =
     \<lparr>fl_config = ''config.json'', fl_api = ''unix:/tmp/star1ight-agent.sock'', fl_users = [], fl_panelURL = [],
      fl_panelToken = [], fl_panelNodeID = [], fl_panelNodeType = ''vless'', fl_machineID = [], fl_machineToken = [],
      fl_machineEvery = minute, fl_panelHY2NodeID = [], fl_panelHY2NodeType = ''hysteria'', fl_panelEvery = minute,
      fl_nodeRateMbps = 0, fl_machineOnly = False, fl_hy2UpMbps = 0, fl_hy2DownMbps = 0,
      fl_hy2IgnoreClientBandwidth = False, fl_hy2BrutalDebug = False, fl_debugRuntimeLog = [],
      fl_debugRuntimeEvery = second_ns, fl_sourceBuckets = [], fl_sourceServerMap = [], fl_sourceDrop = []\<rparr>"

text \<open>Each client is a pointer of its own: the number in its \<open>client_panel\<close>.\<close>

definition source_routes ::
  "'w http \<Rightarrow> string \<Rightarrow> string \<Rightarrow> string \<Rightarrow> (string, string) gomap \<Rightarrow> (string, 'w panel option) gomap" where
  "source_routes H panelURL panelToken panelNodeType sourceServerMap =
     fold (\<lambda>(i, label, nodeID) routes.
         mput label (Some (client_panel H (2 + i) (NewClient panelURL panelToken nodeID panelNodeType))) routes)
       (zip [0..<length sourceServerMap] sourceServerMap) []"

definition configurePanel ::
  "('o, 'c, 'w) env \<Rightarrow> 'w http \<Rightarrow> flags \<Rightarrow> (string, string) gomap \<Rightarrow> (string, bool) gomap
   \<Rightarrow> error + 'w panel option \<times> client option" where
  "configurePanel E H f sourceServerMap sourceDropLabels =
     (if fl_panelURL f \<noteq> [] then
        (let panel =
           (if \<not> fl_machineOnly f then
              (let primary = client_panel H 0 (NewClient (fl_panelURL f) (fl_panelToken f) (fl_panelNodeID f) (fl_panelNodeType f));
                   panel =
                     (if fl_panelHY2NodeID f \<noteq> [] then
                        MultiPanel [Some primary,
                          Some (client_panel H 1 (NewClient (fl_panelURL f) (fl_panelToken f) (fl_panelHY2NodeID f) (fl_panelHY2NodeType f)))]
                      else primary);
                   panel =
                     (if 0 < length sourceServerMap then
                        SourceMappedPanel \<lparr>Default = Some panel,
                          Routes = source_routes H (fl_panelURL f) (fl_panelToken f) (fl_panelNodeType f) sourceServerMap\<rparr>
                      else panel);
                   panel = (if 0 < length sourceDropLabels then SourceFilteredPanel (Some panel) sourceDropLabels else panel)
               in Some panel)
            else None)
         in if fl_machineID f \<noteq> [] then
              (case buildMachineReporter (fl_panelURL f) (fl_machineID f) (fl_machineToken f) of
                 Inl err \<Rightarrow> Inl err
               | Inr machineReporter \<Rightarrow> Inr (panel, machineReporter))
            else Inr (panel, None))
      else
        Inr (if \<not> fl_machineOnly f \<and> fl_users f \<noteq> []
             then Some (LocalUsers (\<lambda>path w. env_ReadFile E path w) (env_UnmarshalUsers E) (fl_users f)) else None, None))"

section \<open>Main\<close>

text \<open>
  What \<open>main\<close> has made when it waits for the context. The goroutines it has started are the loop of the
  runtime log (\<open>log_loop\<close>, by its period), the statistics API (\<open>serveStats\<close>, by its address, over the hook),
  \<open>Run\<close> of the synchroniser, and the reports of \<open>startMachineReporter\<close>, by the client and the period.
\<close>

record ('l, 'c, 'w) started =
  run_log :: "i64 option"
  run_panel :: "'w panel option"
  run_core :: "('l hook \<times> 'c) option"
  run_api :: "string option"
  run_syncer :: "('l hook \<times> 'c, 'w) syncer option"
  run_reports :: "(client \<times> i64) option"

text \<open>The classifier of \<open>--source-buckets\<close>, nil when there is none.\<close>

definition main_classifier :: "string \<Rightarrow> error + source_rule list option" where
  "main_classifier sourceBuckets =
     (if TrimSpace sourceBuckets \<noteq> [] then
        (case ParseSourceBuckets (parseSourceBucketSpecs sourceBuckets) of Inl err \<Rightarrow> Inl err | Inr c \<Rightarrow> Inr (Some c))
      else Inr None)"

text \<open>
  The data plane: the core, the user manager, the hook, which the router tracks connections with, and the
  local users.
\<close>

definition start_core ::
  "('l, 't, 'c) platform \<Rightarrow> ('o, 'c, 'w) env \<Rightarrow> flags \<Rightarrow> (string, string) gomap \<Rightarrow> (string, bool) gomap
   \<Rightarrow> 'o singbox_options \<Rightarrow> 'w \<Rightarrow> error + 'l hook \<times> 'c" where
  "start_core P E f sourceServerMap sourceDropLabels opts w =
     (case main_classifier (fl_sourceBuckets f) of
        Inl err \<Rightarrow> Inl err
      | Inr cls \<Rightarrow>
          (case box_New E opts of
             Inl err \<Rightarrow> Inl err
           | Inr c \<Rightarrow>
               (let h = new_hook (NewUserManager (rate_package P) (clock P c) (fl_nodeRateMbps f) empty_limiters)
                          cls sourceServerMap sourceDropLabels;
                    c = AppendTracker E c
                in case box_Start E c of
                     (Some err, c) \<Rightarrow> Inl err
                   | (None, c) \<Rightarrow>
                       if fl_users f = [] then Inr (h, c)
                       else
                         (case loadLocalUsers E (fl_users f) w of
                            Inl err \<Rightarrow> Inl err
                          | Inr localUsers \<Rightarrow>
                              (case apply_box P localUsers (h, c) of
                                 (Some err, hc) \<Rightarrow> Inl err
                               | (None, hc) \<Rightarrow> Inr hc)))))"

definition main_tuning :: "flags \<Rightarrow> hy2_tuning" where
  "main_tuning f =
     \<lparr>Enabled = (0 < sint (fl_hy2UpMbps f) \<or> 0 < sint (fl_hy2DownMbps f) \<or> fl_hy2IgnoreClientBandwidth f \<or> fl_hy2BrutalDebug f),
      tune_UpMbps = fl_hy2UpMbps f, tune_DownMbps = fl_hy2DownMbps f,
      tune_IgnoreClientBandwidth = fl_hy2IgnoreClientBandwidth f, tune_BrutalDebug = fl_hy2BrutalDebug f\<rparr>"

definition main_start ::
  "('l, 't, 'c) platform \<Rightarrow> ('o, 'c, 'w) env \<Rightarrow> 'w http \<Rightarrow> flags \<Rightarrow> 'w
   \<Rightarrow> (error + ('l, 'c, 'w) started) \<times> 'w" where
  "main_start P E H f w =
     (case startRuntimeDebugLogger (env_log E) (fl_debugRuntimeLog f) (fl_debugRuntimeEvery f) w of
        (Inl err, w) \<Rightarrow> (Inl err, w)
      | (Inr logger, w) \<Rightarrow>
          (case ParseSourceServerMap (fl_sourceServerMap f) of
             Inl err \<Rightarrow> (Inl err, w)
           | Inr sourceServerMap \<Rightarrow>
               (let sourceDropLabels = parseSourceDropLabels (fl_sourceDrop f)
                in case configurePanel E H f sourceServerMap sourceDropLabels of
                     Inl err \<Rightarrow> (Inl err, w)
                   | Inr (panel, machineReporter) \<Rightarrow>
                       if fl_machineOnly f \<and> machineReporter = None
                       then (Inl (Errorf ''machine-only mode requires --panel-url, --machine-id and --machine-token'' []), w)
                       else
                         (let reports = map_option (\<lambda>rep. (rep, reporter_period (fl_machineEvery f))) machineReporter
                          in case loadRuntimeOptions E (fl_config f) (main_tuning f) (fl_machineOnly f) w of
                               Inl err \<Rightarrow> (Inl err, w)
                             | Inr None \<Rightarrow>
                                 (Inr \<lparr>run_log = logger, run_panel = panel, run_core = None, run_api = None, run_syncer = None,
                                    run_reports = reports\<rparr>, w)
                             | Inr (Some opts) \<Rightarrow>
                                 (case start_core P E f sourceServerMap sourceDropLabels opts w of
                                    Inl err \<Rightarrow> (Inl err, w)
                                  | Inr hc \<Rightarrow>
                                      (Inr \<lparr>run_log = logger, run_panel = panel, run_core = Some hc,
                                         run_api = (if fl_api f \<noteq> [] then Some (fl_api f) else None),
                                         run_syncer = map_option (\<lambda>p. agent_syncer P p (fl_panelEvery f)) panel,
                                         run_reports = reports\<rparr>, w))))))"

section \<open>The statistics API\<close>

text \<open>What \<open>/stats\<close> encodes, for the query of the request, and where \<open>serveStats\<close> listens.\<close>

datatype stats_reply = StatsDetails stats_details | StatsTraffic traffic

definition stats_handler :: "string \<Rightarrow> string \<Rightarrow> 'l hook \<Rightarrow> (string, string) gomap \<Rightarrow> stats_reply" where
  "stats_handler agentSlug agentVersion h query =
     (let reset = (mget_or [] query ''reset'' = ''1'');
          delta = (mget_or [] query ''delta'' = ''1'');
          details = (mget_or [] query ''details'' = ''1'')
      in if details then StatsDetails (statsDetailsPayload agentSlug agentVersion h reset delta)
         else if delta then StatsTraffic (Hook_SnapshotDelta h)
         else StatsTraffic (Hook_Snapshot reset h))"

definition stats_listener :: "string \<Rightarrow> string \<times> string" where
  "stats_listener listen =
     (if HasPrefix listen ''unix:'' then (''unix'', drop (length ''unix:'') listen) else (''tcp'', listen))"

text \<open>The name of the program; its version is set by the linker.\<close>

definition agentSlug :: string where
  "agentSlug = ''star1ight-agent''"

text \<open>The handler of a request; the pattern of a mux without a trailing slash matches its path only.\<close>

datatype stats_response = StatsBody stats_reply | PlainBody string | PageNotFound

definition stats_mux :: "string \<Rightarrow> 'l hook \<Rightarrow> string \<Rightarrow> (string, string) gomap \<Rightarrow> stats_response" where
  "stats_mux agentVersion h path query =
     (if path = ''/stats'' then StatsBody (stats_handler agentSlug agentVersion h query)
      else if path = ''/health'' then PlainBody (''ok'' @ [CHR 0x0A])
      else PageNotFound)"

text \<open>
  \<open>serveStats\<close> up to the loop of the server: the socket file is removed first, and an error of \<open>net.Listen\<close>
  is returned; \<open>None\<close> when it serves. \<open>os.Remove\<close> and \<open>net.Listen\<close> belong to the system.
\<close>

record 'w socket_system =
  os_Remove :: "string \<Rightarrow> 'w \<Rightarrow> 'w"
  net_Listen :: "string \<Rightarrow> string \<Rightarrow> 'w \<Rightarrow> error option \<times> 'w"

definition serveStats :: "'w socket_system \<Rightarrow> string \<Rightarrow> 'w \<Rightarrow> error option \<times> 'w" where
  "serveStats Y listen w =
     (case stats_listener listen of (network, addr) \<Rightarrow>
        net_Listen Y network addr (if network = ''unix'' then os_Remove Y addr w else w))"

text \<open>The processors the process may use: one, unless \<open>GOMAXPROCS\<close> is set.\<close>

definition configureGoMaxProcs :: "(string \<Rightarrow> string option) \<Rightarrow> nat option" where
  "configureGoMaxProcs LookupEnv = (if LookupEnv ''GOMAXPROCS'' \<noteq> None then None else Some 1)"

text \<open>
  The API only reads: the replies do not depend on \<open>reset\<close>, which nothing implements, and \<open>delta=1\<close> shows what
  the synchroniser would push next.
\<close>

lemma stats_reset_is_ignored:
  "stats_handler slug version h (mput ''reset'' v query) = stats_handler slug version h query"
  by (simp add: stats_handler_def statsDetailsPayload_def Hook_Snapshot_def Snapshot_def Let_def mget_or_mput)

lemma stats_delta_is_next_push:
  "mget_or [] query ''delta'' = ''1'' \<Longrightarrow> mget_or [] query ''details'' \<noteq> ''1'' \<Longrightarrow>
   \<exists>push. sy_Snapshot (agent_syncer P p every) = Some push
     \<and> stats_mux version h ''/stats'' query = StatsBody (StatsTraffic (push (h, c)))"
  by (simp add: stats_mux_def stats_handler_def agent_syncer_def wired_to_def)

section \<open>What runs\<close>

text \<open>
  A started agent is the one the theorems of \<open>Agent\<close> are about: with a data plane and no local users the
  hook is a new one, and the synchroniser, when there is a panel, is \<open>agent_syncer\<close> over it.
\<close>

lemma started_agent:
  assumes "main_start P E H f w = (Inr st, w')" and "run_core st = Some (h, c)"
  shows "\<not> fl_machineOnly f"
    and "run_syncer st = map_option (\<lambda>p. agent_syncer P p (fl_panelEvery f)) (run_panel st)"
    and "fl_users f = [] \<Longrightarrow>
      \<exists>now cls ssm sdl. h = new_hook (NewUserManager (rate_package P) now (fl_nodeRateMbps f) empty_limiters) cls ssm sdl"
proof -
  from assms obtain ssm sdl panel opts w1 where
    opts: "loadRuntimeOptions E (fl_config f) (main_tuning f) (fl_machineOnly f) w1 = Inr (Some opts)"
    and core: "start_core P E f ssm sdl opts w1 = Inr (h, c)"
    and st: "run_panel st = panel" "run_syncer st = map_option (\<lambda>p. agent_syncer P p (fl_panelEvery f)) panel"
    by (auto simp: main_start_def Let_def split: sum.splits prod.splits if_splits option.splits)
  from opts show "\<not> fl_machineOnly f" by (auto simp: loadRuntimeOptions_def split: if_splits)
  from st show "run_syncer st = map_option (\<lambda>p. agent_syncer P p (fl_panelEvery f)) (run_panel st)"
    by simp
  show "\<exists>now cls ssm sdl. h = new_hook (NewUserManager (rate_package P) now (fl_nodeRateMbps f) empty_limiters) cls ssm sdl"
    if "fl_users f = []"
    using core that unfolding start_core_def Let_def by (force split: sum.splits prod.splits option.splits)
qed

text \<open>
  A dual-node install with a source map cannot push: its default panel is a \<open>MultiPanel\<close>, which the
  source map uses as a map key as soon as there is traffic of an unmapped source.
\<close>

lemma dual_node_with_map_panics:
  assumes "fl_panelURL f \<noteq> []" and "\<not> fl_machineOnly f" and "fl_panelHY2NodeID f \<noteq> []" and "fl_machineID f = []"
    and "ssm \<noteq> []" and "(inbound, users) \<in> set delta" and "snd (splitSourceInbound inbound) = []"
  shows "\<exists>p. configurePanel E H f ssm [] = Inr (Some p, None)
    \<and> PushTraffic p delta w = (Panicked ''hash of unhashable type'', w)"
proof -
  let ?multi = "MultiPanel [Some (client_panel H 0 (NewClient (fl_panelURL f) (fl_panelToken f) (fl_panelNodeID f) (fl_panelNodeType f))),
    Some (client_panel H 1 (NewClient (fl_panelURL f) (fl_panelToken f) (fl_panelHY2NodeID f) (fl_panelHY2NodeType f)))]"
  let ?m = "\<lparr>Default = Some ?multi, Routes = source_routes H (fl_panelURL f) (fl_panelToken f) (fl_panelNodeType f) ssm\<rparr>"
  have "routeForInbound ?m inbound = (Some ?multi, fst (splitSourceInbound inbound))"
    using assms(7) by (auto simp: routeForInbound_def case_prod_unfold Let_def)
  from route_panics [OF assms(6) this, of add_traffic "Inr []"]
  have "PushTraffic (SourceMappedPanel ?m) delta w = (Panicked ''hash of unhashable type'', w)"
    by (simp add: SourceMappedPanel_def Mapped_PushTraffic_def routeTraffic_def MultiPanel_def)
  then show ?thesis using assms(1-5) by (simp add: configurePanel_def Let_def)
qed

lemma tuning_needs_a_flag: "\<not> Enabled t \<Longrightarrow> applyHY2Tuning opts t = opts"
  by (cases opts) (simp_all add: applyHY2Tuning_def)

text \<open>Only Hysteria2 inbounds are tuned, and each keeps its type.\<close>

lemma tuned_inbounds:
  assumes "applyHY2Tuning (Some opts) t = Some opts'"
  shows "map in_Type (opt_Inbounds opts') = map in_Type (opt_Inbounds opts)"
    and "filter (\<lambda>e. in_Type e \<noteq> ''hysteria2'') (opt_Inbounds opts') = filter (\<lambda>e. in_Type e \<noteq> ''hysteria2'') (opt_Inbounds opts)"
proof -
  have same: "in_Type (tune_inbound t e) = in_Type e" "in_Type e \<noteq> ''hysteria2'' \<Longrightarrow> tune_inbound t e = e" for e :: "'a inbound_entry"
    by (simp_all add: tune_inbound_def Let_def split: inbound_options.split option.split)
  have "map in_Type (map (tune_inbound t) es) = map in_Type es"
    "filter (\<lambda>e. in_Type e \<noteq> ''hysteria2'') (map (tune_inbound t) es) = filter (\<lambda>e. in_Type e \<noteq> ''hysteria2'') es"
    for es :: "'a inbound_entry list"
    by (induction es) (simp_all add: same)
  then show "map in_Type (opt_Inbounds opts') = map in_Type (opt_Inbounds opts)"
    "filter (\<lambda>e. in_Type e \<noteq> ''hysteria2'') (opt_Inbounds opts') = filter (\<lambda>e. in_Type e \<noteq> ''hysteria2'') (opt_Inbounds opts)"
    using assms by (auto simp: applyHY2Tuning_def split: if_splits)
qed

text \<open>The default API address is a socket; without flags nothing is pushed.\<close>

lemma default_start:
  "stats_listener (fl_api default_flags) = (''unix'', ''/tmp/star1ight-agent.sock'')"
  "configurePanel E H default_flags [] [] = Inr (None, None)"
  by code_simp (simp add: configurePanel_def default_flags_def)

end
