(* ===== verification/Device_Books.thy ===== *)
theory Device_Books
  imports Syncer
begin

text \<open>
  The devices over a whole run of the synchroniser of \<open>panelapi/sync.go\<close>, as \<open>Syncer\<close> has it for the
  traffic: a component whose \<open>AliveDelta\<close> and \<open>CommitAlive\<close> meet the contract \<open>delta_source\<close>, and a
  panel that shows the devices it was sent, agree after every run of \<open>Run\<close>.
\<close>

section \<open>A panel that shows devices\<close>

text \<open>
  \<open>view\<close> reads the devices off the world: an accepted \<open>good\<close> delta is applied to them, a refused one
  and the other calls leave them alone.
\<close>

definition shows_devices ::
  "(alive_map \<Rightarrow> bool) \<Rightarrow> ('w \<Rightarrow> 'v) \<Rightarrow> (alive_map \<Rightarrow> 'v \<Rightarrow> 'v) \<Rightarrow> 'w panel \<Rightarrow> bool" where
  "shows_devices good view apply_delta p \<longleftrightarrow>
     (\<forall>a w r w'. good a \<longrightarrow> PushAlive p a w = (r, w') \<longrightarrow>
        view w' = (if r = NoError then apply_delta a (view w) else view w))
     \<and> (\<forall>d w. view (snd (PushTraffic p d w)) = view w)
     \<and> (\<forall>w. view (snd (FetchUsers p w)) = view w)"

section \<open>A component and the devices its panel shows\<close>

locale device_source =
  delta_source inv alive_of commit_alive current reported apply_delta covers env
  for inv :: "'s \<Rightarrow> bool" and alive_of :: "'s \<Rightarrow> alive_map" and commit_alive :: "alive_map \<Rightarrow> 's \<Rightarrow> 's"
    and current :: "'s \<Rightarrow> 'v" and reported :: "'s \<Rightarrow> 'v" and apply_delta :: "alive_map \<Rightarrow> 'v \<Rightarrow> 'v"
    and covers :: "alive_map \<Rightarrow> 's \<Rightarrow> bool" and env :: "'s \<Rightarrow> 's \<Rightarrow> bool" +
  fixes good :: "alive_map \<Rightarrow> bool"
    and snap :: "'s \<Rightarrow> traffic"
    and commit :: "traffic \<Rightarrow> 's \<Rightarrow> 's"
    and apply_users :: "user list \<Rightarrow> 's \<Rightarrow> error option \<times> 's"
  assumes alive_good: "inv s \<Longrightarrow> good (alive_of s)"
    and users_keep: "inv s \<Longrightarrow>
      inv (snd (apply_users us s)) \<and> reported (snd (apply_users us s)) = reported s"
    and commit_keep: "inv s \<Longrightarrow> inv (commit d s) \<and> reported (commit d s) = reported s"
begin

abbreviation wired :: "('s, 'w) syncer \<Rightarrow> 'w panel \<Rightarrow> bool" where
  "wired \<equiv> wired_to snap commit alive_of commit_alive apply_users"

abbreviation agrees :: "('w \<Rightarrow> 'v) \<Rightarrow> 's \<times> 'w \<Rightarrow> bool" where
  "agrees \<equiv> books_agree inv reported"

lemmas wired_def = wired_to_def and agrees_def = books_agree_def

lemma agrees_work: "agrees view (s, w) \<Longrightarrow> env\<^sup>*\<^sup>* s s' \<Longrightarrow> agrees view (s', w)"
  by (auto simp: agrees_def dest: envs_keep)

lemma flushAlive_agrees:
  assumes "wired sy p" and "shows_devices good view apply_delta p" and "\<And>s. env\<^sup>*\<^sup>* s (work s)"
    and "agrees view (s, w)" and "flushAlive sy work (s, w) = Inr sw'"
  shows "agrees view sw'"
proof -
  obtain r w1 where push: "PushAlive p (alive_of s) w = (r, w1)" by fastforce
  have s: "inv s" "view w = reported s" and work: "env\<^sup>*\<^sup>* s (work s)"
    using assms(3,4) by (auto simp: agrees_def)
  from assms(2) push alive_good [OF s(1)]
  have shown: "view w1 = (if r = NoError then apply_delta (alive_of s) (view w) else view w)"
    unfolding shows_devices_def by blast
  have "flushAlive sy work (s, w) = (if alive_of s = [] then Inr (s, w)
      else case r of Panicked m \<Rightarrow> Inl m | Failed err \<Rightarrow> Inr (work s, w1)
        | NoError \<Rightarrow> Inr (commit_alive (alive_of s) (work s), w1))"
    using assms(1) push by (auto simp: flushAlive_def wired_def Let_def split: outcome.split)
  with assms(4,5) shown s agrees_work [OF assms(4) work] accepted_cycle [OF s(1) work] snapshot_complete [OF s(1)]
  show ?thesis by (cases r) (auto simp: agrees_def split: if_splits)
qed

lemma flush_agrees:
  assumes "wired sy p" and "shows_devices good view apply_delta p" and "\<And>s. env\<^sup>*\<^sup>* s (work s)"
    and "agrees view (s, w)" and "flush sy work (s, w) = Inr sw'"
  shows "agrees view sw'"
proof -
  obtain r w1 where push: "PushTraffic p (snap s) w = (r, w1)" by fastforce
  with assms(2) have view: "view w1 = view w" unfolding shows_devices_def by (metis snd_conv)
  have work: "agrees view (work s, w)" using agrees_work [OF assms(4)] assms(3) by blast
  have "flush sy work (s, w) = (if \<not> has_traffic (snap s) then Inr (s, w)
      else case r of Panicked m \<Rightarrow> Inl m | Failed err \<Rightarrow> Inr (work s, w1)
        | NoError \<Rightarrow> Inr (commit (commitDelta (snap s)) (work s), w1))"
    using assms(1) push by (subst flush_wired) (auto simp: wired_def split: outcome.split)
  with assms(4,5) view work commit_keep show ?thesis
    by (cases r) (auto simp: agrees_def split: if_splits)
qed

lemma fetch_agrees:
  assumes "wired sy p" and "shows_devices good view apply_delta p" and "\<And>s. env\<^sup>*\<^sup>* s (work s)"
    and "agrees view (s, w)"
  shows "agrees view (fetch_and_apply sy p work (s, w))"
proof -
  obtain r w1 where fetch: "FetchUsers p w = (r, w1)" by fastforce
  with assms(2) have "view w1 = view w" unfolding shows_devices_def by (metis snd_conv)
  moreover have "agrees view (work s, w)" using agrees_work [OF assms(4)] assms(3) by blast
  ultimately show ?thesis
    using assms(1) fetch users_keep by (cases r) (auto simp: fetch_and_apply_def wired_def agrees_def)
qed

lemma Run_agrees:
  assumes "wired sy p" and "shows_devices good view apply_delta p"
    and "works env first" and "\<forall>e \<in> set es. event_works env e"
    and "agrees view sw" and "Run sy first es sw = Waiting sw' \<or> Run sy first es sw = Returned sw'"
  shows "agrees view sw'"
proof -
  have "sy_Panel sy = Some p" using assms(1) by (simp add: wired_def)
  then have "kept_by env sy p (agrees view)"
    by (rule kept_byI [OF _ agrees_work fetch_agrees [OF assms(1,2)] flushAlive_agrees [OF assms(1,2)]
        flush_agrees [OF assms(1,2)]])
  from Run_keeps [OF this assms(3-6)] show ?thesis .
qed

end

end
