(* ===== verification/Agent_Devices.thy ===== *)
theory Agent_Devices
  imports Agent Device_Books
begin

text \<open>
  The devices the agent reports, over whole runs of the synchroniser \<open>main\<close> wires
  (\<open>cmd/star1ight-agent/main.go\<close>, \<open>panelapi/sync.go\<close>): the hook and the core meet the contract of
  \<open>Device_Books\<close> with the sessions that open and close, so the panel shows what the tracker has
  recorded, and its next delta makes it the devices of the open sessions.
\<close>

section \<open>Sessions while the synchroniser works\<close>

text \<open>The sessions are those of users the panel names (\<open>canonical\<close>), and no device is the empty text.\<close>

definition canonical_refs :: "session_tracker \<Rightarrow> bool" where
  "canonical_refs t \<longleftrightarrow> (\<forall>i u k. 0 < ref_count (deviceRefs t) (i, u, k) \<longrightarrow> canonical u)"

definition named :: "session_tracker \<Rightarrow> bool" where
  "named t \<longleftrightarrow> canonical_refs t
     \<and> (\<forall>i u k. 0 < ref_count (deviceRefs t) (i, u, k) \<longrightarrow> k \<noteq> [])
     \<and> (\<forall>i u. mget2 (lastAlive t) i u \<noteq> None \<longrightarrow> canonical u)"

text \<open>
  One step: a session opens or closes, of a user the panel names, or something else than the tracker
  changes. The core is free.
\<close>

inductive device_step :: "'l hook \<times> 'c \<Rightarrow> 'l hook \<times> 'c \<Rightarrow> bool" where
  ds_session: "sessionTracker h = Some t \<Longrightarrow> alive_step t t' \<Longrightarrow> (canonical_refs t \<Longrightarrow> canonical_refs t') \<Longrightarrow>
    sessionTracker h' = Some t' \<Longrightarrow> device_step (h, c) (h', c')"
| ds_other: "sessionTracker h' = sessionTracker h \<Longrightarrow> device_step (h, c) (h', c')"

inductive_cases device_stepE: "device_step s s'"

definition device_inv :: "'l hook \<times> 'c \<Rightarrow> bool" where
  "device_inv s \<longleftrightarrow> (\<exists>t. sessionTracker (fst s) = Some t \<and> alive_inv t \<and> named t)"

definition hook_reported :: "'l hook \<Rightarrow> string \<Rightarrow> string \<Rightarrow> string list" where
  "hook_reported h = (case sessionTracker h of None \<Rightarrow> (\<lambda>i u. []) | Some t \<Rightarrow> peers_of (lastAlive t))"

text \<open>The views are compared on a set of inbounds the panel shows, for the numeric users.\<close>

definition seen_on :: "string set \<Rightarrow> (string \<Rightarrow> string \<Rightarrow> string set) \<Rightarrow> string \<Rightarrow> string \<Rightarrow> string set" where
  "seen_on I v i u = (if i \<in> I \<and> isNumericUser u \<and> canonical u then v i u else {})"

abbreviation seen_list :: "string set \<Rightarrow> (string \<Rightarrow> string \<Rightarrow> string list) \<Rightarrow> string \<Rightarrow> string \<Rightarrow> string set" where
  "seen_list I v \<equiv> seen_on I (\<lambda>i u. set (v i u))"

definition apply_seen ::
  "string set \<Rightarrow> alive_map \<Rightarrow> (string \<Rightarrow> string \<Rightarrow> string set) \<Rightarrow> string \<Rightarrow> string \<Rightarrow> string set" where
  "apply_seen I a v i u = (if i \<in> I \<and> isNumericUser u \<and> canonical u then show_alive a v i u else v i u)"

lemma apply_seen_on: "apply_seen I a (seen_on I v) = seen_on I (show_alive a v)"
  by (auto simp: fun_eq_iff apply_seen_def seen_on_def show_alive_def split: option.split)

lemma apply_seen_list: "apply_seen I a (seen_list I v) = seen_list I (apply_alive a v)"
  by (simp add: apply_seen_on show_alive_sets [abs_def] fun_eq_iff seen_on_def)

section \<open>What a step keeps\<close>

lemma alive_step_named:
  assumes "alive_step t t'" and "alive_inv t" and "named t" and "canonical_refs t \<Longrightarrow> canonical_refs t'"
  shows "named t'"
proof -
  have wf: "wf_refs (deviceRefs t)" using assms(2) by (simp add: alive_inv_def)
  have inc: "0 < ref_count (ref_inc (i0, u0, k0) (deviceRefs t)) (i, u, k) \<Longrightarrow> k0 \<noteq> [] \<Longrightarrow> k \<noteq> []" for i0 u0 k0 i u k
    using assms(3) by (auto simp: named_def ref_count_inc split: if_splits)
  have dec: "0 < ref_count (ref_dec (i0, u0, k0) (deviceRefs t)) (i, u, k) \<Longrightarrow> k \<noteq> []" for i0 u0 k0 i u k
  proof -
    assume "0 < ref_count (ref_dec (i0, u0, k0) (deviceRefs t)) (i, u, k)"
    then have "0 < ref_count (deviceRefs t) (i, u, k)"
      unfolding ref_count_dec [OF wf] by (auto split: if_splits)
    with assms(3) show "k \<noteq> []" unfolding named_def by blast
  qed
  have "\<forall>i u k. 0 < ref_count (deviceRefs t') (i, u, k) \<longrightarrow> k \<noteq> []"
    using assms(1,3) inc dec
    by (cases rule: alive_step.cases)
      (auto simp: Open_def run_opened_def close_session_def Let_def named_def split: if_splits)
  with assms(3,4) alive_step_keeps(2) [OF assms(1,2)] show ?thesis by (simp add: named_def)
qed

lemma device_step_keeps:
  assumes "device_step s s'" and "device_inv s"
  shows "device_inv s'" and "hook_reported (fst s') = hook_reported (fst s)"
proof -
  have "device_inv s' \<and> hook_reported (fst s') = hook_reported (fst s)"
    using assms(1)
  proof (cases rule: device_step.cases)
    case (ds_session h t t' h' c c')
    with assms(2) have t: "alive_inv t" "named t" by (auto simp: device_inv_def)
    show ?thesis
      using ds_session alive_step_keeps [OF ds_session(4) t(1)] alive_step_named [OF ds_session(4) t ds_session(5)]
      by (simp add: device_inv_def hook_reported_def)
  next
    case (ds_other h' h c c')
    with assms(2) show ?thesis by (simp add: device_inv_def hook_reported_def)
  qed
  then show "device_inv s'" "hook_reported (fst s') = hook_reported (fst s)" by blast+
qed

lemma set_peers_of_Devices:
  "wf_refs (deviceRefs t) \<Longrightarrow> set (peers_of (DevicesSnapshot t) i u) \<subseteq> {ip. 0 < ref_count (deviceRefs t) (i, u, ip)}"
  by (cases "finite {ip. 0 < ref_count (deviceRefs t) (i, u, ip)}") (simp_all add: peers_of_Devices)

text \<open>A delta is a good one for the panel.\<close>

lemma AliveDelta_canonical:
  assumes "alive_inv t" and "named t"
  shows "canonical_alive (AliveDelta t)"
proof -
  have wf: "wf_refs (deviceRefs t)" using assms(1) by (simp add: alive_inv_def)
  have "canonical u \<and> distinct ips \<and> [] \<notin> set ips" if d: "mget2 (AliveDelta t) i u = Some ips" for i u ips
  proof -
    let ?now = "peers_of (DevicesSnapshot t) i u" and ?was = "peers_of (lastAlive t) i u"
    from d have ips: "ips = ?now" and changed: "?now \<noteq> ?was"
      by (auto simp: AliveDelta_changed [OF assms(1)] split: if_splits)
    have "canonical u"
    proof (cases "?now = []")
      case True
      with changed have "mget2 (lastAlive t) i u \<noteq> None"
        by (cases "mget2 (lastAlive t) i u") (simp_all add: peers_of_mget2 split: option.splits)
      with assms(2) show ?thesis by (simp add: named_def)
    next
      case False
      then obtain k where "k \<in> set ?now" by fastforce
      with set_peers_of_Devices [OF wf] have "0 < ref_count (deviceRefs t) (i, u, k)" by blast
      with assms(2) show ?thesis unfolding named_def canonical_refs_def by blast
    qed
    moreover have "[] \<notin> set ?now"
      using set_peers_of_Devices [OF wf, of i u] assms(2) by (auto simp: named_def)
    moreover have "distinct ?now" by (simp add: peers_of_Devices [OF wf])
    ultimately show ?thesis by (simp add: ips)
  qed
  with AliveDelta_shape [OF wf] show ?thesis by (simp add: canonical_alive_def alive_shape_def)
qed

lemma CommitAlive_named:
  assumes "alive_inv t" and "alive_inv (CommitAlive d t)" and "alive_shape d" and "named t" and "canonical_alive d"
  shows "named (CommitAlive d t)"
proof -
  have "canonical u" if last: "mget2 (lastAlive (CommitAlive d t)) i u \<noteq> None" for i u
  proof -
    from last assms(2) have "peers_of (lastAlive (CommitAlive d t)) i u \<noteq> []"
      by (auto simp: alive_inv_def no_blank_def peers_of_mget2)
    then have "apply_alive d (peers_of (lastAlive t)) i u \<noteq> []"
      using al.commit_reported [OF assms(1,3)] by simp
    then have "mget2 d i u \<noteq> None \<or> mget2 (lastAlive t) i u \<noteq> None"
      by (auto simp: apply_alive_def peers_of_mget2 split: option.splits)
    with assms(4,5) show ?thesis unfolding named_def canonical_alive_def by blast
  qed
  with assms(4) show ?thesis by (simp add: named_def canonical_refs_def CommitAlive_def)
qed

lemma users_callback_tracker: "sessionTracker (fst (snd (users_callback P us s))) = sessionTracker (fst s)"
proof -
  have "sessionTracker (Hook_RemoveAbsent active h) = sessionTracker h" for active and h :: "'a hook"
  proof -
    have "sessionTracker (fold (\<lambda>(k, v) h. h\<lparr>byInbound := mput k (RemoveAbsent active v (storages h)) (byInbound h)\<rparr>) es h)
        = sessionTracker h" for es
      by (induction es arbitrary: h) auto
    then show ?thesis by (simp add: Hook_RemoveAbsent_def)
  qed
  then show ?thesis
    by (cases s) (auto simp: users_callback_def apply_box_def split: option.split prod.split)
qed

lemma Hook_CommitSnapshot_tracker: "sessionTracker (Hook_CommitSnapshot d h) = sessionTracker h"
proof (induction d arbitrary: h)
  case (Cons e d)
  then show ?case by (cases e) (simp add: Hook_CommitSnapshot_Cons split: option.split)
qed simp

section \<open>The agent meets the contract\<close>

interpretation ad: device_source device_inv "\<lambda>s. Hook_AliveDelta (fst s)" "\<lambda>a s. (Hook_CommitAlive a (fst s), snd s)"
  "\<lambda>s. seen_list I (peers_of (DeviceSnapshot (fst s)))" "\<lambda>s. seen_list I (hook_reported (fst s))" "apply_seen I"
  "\<lambda>a s. alive_shape a" device_step canonical_alive "\<lambda>s. Hook_SnapshotDelta (fst s)"
  "\<lambda>d s. (Hook_CommitSnapshot d (fst s), snd s)" "users_callback P"
  for I :: "string set" and P :: "('l, 't, 'c) platform"
proof unfold_locales
  fix s s' :: "'l hook \<times> 'c" and d :: alive_map
  {
    assume "device_inv s"
    then obtain t where t: "sessionTracker (fst s) = Some t" "alive_inv t" "named t" by (auto simp: device_inv_def)
    then show "alive_shape (Hook_AliveDelta (fst s))"
      by (simp add: Hook_AliveDelta_def alive_inv_def AliveDelta_shape)
    show "canonical_alive (Hook_AliveDelta (fst s))"
      using t by (simp add: Hook_AliveDelta_def AliveDelta_canonical)
    show "apply_seen I (Hook_AliveDelta (fst s)) (seen_list I (hook_reported (fst s)))
        = seen_list I (peers_of (DeviceSnapshot (fst s)))"
      using al.snapshot_complete [OF t(2)] t(1)
      by (simp add: apply_seen_list Hook_AliveDelta_def hook_reported_def DeviceSnapshot_def)
    show "device_inv (snd (users_callback P us s))
        \<and> seen_list I (hook_reported (fst (snd (users_callback P us s)))) = seen_list I (hook_reported (fst s))" for us
      using t by (simp add: device_inv_def hook_reported_def users_callback_tracker)
    show "device_inv (Hook_CommitSnapshot da (fst s), snd s)
        \<and> seen_list I (hook_reported (fst (Hook_CommitSnapshot da (fst s), snd s))) = seen_list I (hook_reported (fst s))" for da
      using t by (simp add: device_inv_def hook_reported_def Hook_CommitSnapshot_tracker)
    show "seen_list I (hook_reported (fst (Hook_CommitAlive d (fst s), snd s))) = apply_seen I d (seen_list I (hook_reported (fst s)))"
      "seen_list I (peers_of (DeviceSnapshot (fst (Hook_CommitAlive d (fst s), snd s)))) = seen_list I (peers_of (DeviceSnapshot (fst s)))"
      if "alive_shape d"
      using al.commit_reported [OF t(2) that] al.commit_current [OF t(2) that] t(1)
      by (simp_all add: apply_seen_list Hook_CommitAlive_def hook_reported_def DeviceSnapshot_def)
  }
  show "device_inv s'" "seen_list I (hook_reported (fst s')) = seen_list I (hook_reported (fst s))"
    if "device_step s s'" "device_inv s"
    using device_step_keeps [OF that] by simp_all
  assume inv: "device_inv s" and steps: "device_step\<^sup>*\<^sup>* s s'"
  from inv obtain t where t: "sessionTracker (fst s) = Some t" "alive_inv t" "named t" by (auto simp: device_inv_def)
  from steps have "device_inv s' \<and> (\<exists>t'. sessionTracker (fst s') = Some t' \<and> alive_step\<^sup>*\<^sup>* t t')"
  proof (induction rule: rtranclp_induct)
    case base
    with inv t(1) show ?case by auto
  next
    case (step y z)
    with device_step_keeps(1) [OF step.hyps(2)] show ?case
      by (auto elim!: device_stepE intro: rtranclp.rtrancl_into_rtrancl)
  qed
  then obtain t' where s': "sessionTracker (fst s') = Some t'" "alive_inv t'" "named t'" and run: "alive_step\<^sup>*\<^sup>* t t'"
    by (auto simp: device_inv_def)
  have shape: "alive_shape (AliveDelta t)" using t(2) by (simp add: alive_inv_def AliveDelta_shape)
  have "alive_inv (CommitAlive (AliveDelta t) t')" by (rule al.commit_inv [OF t(2) run])
  with CommitAlive_named [OF s'(2) this shape s'(3) AliveDelta_canonical [OF t(2,3)]] s'(1) t(1)
  show "device_inv (Hook_CommitAlive (Hook_AliveDelta (fst s)) (fst s'), snd s')"
    by (simp add: device_inv_def Hook_CommitAlive_def Hook_AliveDelta_def)
qed simp

section \<open>Devices\<close>

lemma panel_shows_devices:
  assumes "panel_shows I devices p"
  shows "shows_devices canonical_alive (\<lambda>w. seen_on I (devices w)) (apply_seen I) p"
  unfolding shows_devices_def
proof (intro conjI allI impI)
  fix a w r w' assume "canonical_alive a" and "PushAlive p a w = (r, w')"
  with assms have "seen_on I (devices w') i u
      = (if r = NoError then seen_on I (show_alive a (devices w)) else seen_on I (devices w)) i u" for i u
    by (auto simp: panel_shows_def seen_on_def)
  then show "seen_on I (devices w') = (if r = NoError then apply_seen I a (seen_on I (devices w)) else seen_on I (devices w))"
    unfolding apply_seen_on by blast
qed (use assms in \<open>simp_all add: panel_shows_def\<close>)

lemma new_hook_devices: "device_inv (new_hook ms c ssm sdl, c0)" "hook_reported (new_hook ms c ssm sdl) i u = []"
  using alive_inv_New [of c]
  by (simp_all add: device_inv_def new_hook_def hook_reported_def named_def canonical_refs_def NewSessionTracker_def
      ref_count_def mget_or_def peers_of_mget2 mget2_def)

lemma agent_shows:
  assumes "panel_shows I devices p" and "i \<in> I" and "u = Itoa n" and "isNumericUser u"
    and "works device_step first" and "\<forall>e \<in> set es. event_works device_step e"
    and "\<forall>i u. devices w0 i u = {}"
    and "Run (agent_syncer P p every) first es ((new_hook ms c ssm sdl, c0), w0) \<in> {Waiting ((h, c1), w), Returned ((h, c1), w)}"
  shows "devices w i u = set (hook_reported h i u)
    \<and> show_alive (Hook_AliveDelta h) (devices w) i u = set (peers_of (DeviceSnapshot h) i u)"
proof -
  let ?agrees = "books_agree device_inv (\<lambda>s. seen_list I (hook_reported (fst s))) (\<lambda>w. seen_on I (devices w))"
  have u: "canonical u" using assms(3) by (auto simp: canonical_def)
  have "?agrees ((h, c1), w)"
  proof (rule ad.Run_agrees [OF _ panel_shows_devices [OF assms(1)] assms(5,6)])
    show "?agrees ((new_hook ms c ssm sdl, c0), w0)"
      using assms(7) by (simp add: books_agree_def new_hook_devices seen_on_def fun_eq_iff)
    show "Run (agent_syncer P p every) first es ((new_hook ms c ssm sdl, c0), w0) = Waiting ((h, c1), w)
        \<or> Run (agent_syncer P p every) first es ((new_hook ms c ssm sdl, c0), w0) = Returned ((h, c1), w)"
      using assms(8) by blast
  qed (simp add: agent_syncer_def wired_to_def)
  then have h: "device_inv (h, c1)" and agree: "seen_on I (devices w) = seen_list I (hook_reported h)"
    by (simp_all add: books_agree_def)
  have same: "devices w i u = set (hook_reported h i u)"
    using fun_cong [OF fun_cong [OF agree, of i], of u] assms(2,4) u by (simp add: seen_on_def)
  from ad.snapshot_complete [OF h, of I]
  have "set (apply_alive (Hook_AliveDelta h) (hook_reported h) i u) = set (peers_of (DeviceSnapshot h) i u)"
    using assms(2,4) u
    by (simp add: apply_seen_list) (drule fun_cong [of _ _ i], drule fun_cong [of _ _ u], simp add: seen_on_def)
  moreover have "show_alive (Hook_AliveDelta h) (devices w) i u = set (apply_alive (Hook_AliveDelta h) (hook_reported h) i u)"
    by (simp add: show_alive_def apply_alive_def same split: option.splits)
  ultimately show ?thesis using same by simp
qed

text \<open>
  C3: The agent reports the devices. However sessions open and close while the synchroniser runs,
  whatever the panel answers, in every state a run reaches the panel shows for a user, on each
  inbound it takes, exactly the set of devices the tracker has recorded as reported, and the next
  delta turns it into the devices of the sessions open then.
\<close>

theorem agent_reports_devices:
  assumes "panel_shows I devices p" and "i \<in> I" and "u = Itoa n" and "isNumericUser u"
    and "works device_step first" and "\<forall>e \<in> set es. event_works device_step e"
    and "\<forall>i u. devices w0 i u = {}"
    and "Run (agent_syncer P p every) first es ((new_hook ms c ssm sdl, c0), w0) \<in> {Waiting ((h, c1), w), Returned ((h, c1), w)}"
  shows "devices w i u = set (hook_reported h i u)
    \<and> show_alive (Hook_AliveDelta h) (devices w) i u = set (peers_of (DeviceSnapshot h) i u)"
  using assms by (rule agent_shows)

text \<open>A session of user 7 opens while \<open>Run\<close> waits for its ticker.\<close>

definition open_seven :: "'l hook \<times> 'c \<Rightarrow> 'l hook \<times> 'c" where
  "open_seven s =
     ((fst s)\<lparr>sessionTracker := map_option (\<lambda>t. snd (Open ''vless-in'' ''7'' ''192.0.2.7:1'' t)) (sessionTracker (fst s))\<rparr>, snd s)"

definition visited :: "('l hook \<times> 'c) meanwhile" where
  "visited = resting\<lparr>while_idle := open_seven\<rparr>"

lemma works_visited:
  "works device_step (resting :: ('l hook \<times> 'c) meanwhile)" "works device_step (visited :: ('l hook \<times> 'c) meanwhile)"
proof -
  have seven: "canonical ''7''" using Itoa_7 unfolding canonical_def by metis
  have "device_step s (open_seven s)" for s :: "'l hook \<times> 'c"
  proof (cases "sessionTracker (fst s)")
    case None
    then show ?thesis by (cases s) (simp add: open_seven_def ds_other)
  next
    case (Some t)
    let ?t = "snd (Open ''vless-in'' ''7'' ''192.0.2.7:1'' t)"
    have "canonical_refs ?t" if "canonical_refs t"
      using that seven by (auto simp: canonical_refs_def Open_def Let_def ref_count_inc split: if_splits)
    with Some show ?thesis
      by (cases s) (auto simp: open_seven_def intro!: ds_session [where t = t] step_open)
  qed
  then show "works device_step (resting :: ('l hook \<times> 'c) meanwhile)" "works device_step (visited :: ('l hook \<times> 'c) meanwhile)"
    by (auto simp: works_def resting_def visited_def)
qed

definition small_devices :: "small_server \<Rightarrow> i64 \<Rightarrow> string set" where
  "small_devices w = shown_by (answered (snd w))"

lemma small_http_shows: "server_shows (small_http us) small_devices"
  using answered_shows [OF small_http_logs] by (simp add: small_devices_def [abs_def])

definition visited_run :: "((int \<times> int) hook \<times> unit, small_server) running" where
  "visited_run =
     Run (agent_syncer small_platform small_panel 0) resting [Tick visited, Tick resting, CtxDone visited]
       ((new_hook (NewUserManager counting_xrate () 0 empty_limiters) None [] [], ()), False, [])"

definition shown_and_open :: "('l hook \<times> 'c, small_server) running \<Rightarrow> (string set \<times> string list) option" where
  "shown_and_open r =
     (case r of Returned ((h, c), w) \<Rightarrow> Some (small_devices w 7, peers_of (DeviceSnapshot h) ''vless-in'' ''7'') | _ \<Rightarrow> None)"

lemma visited_run_shows: "shown_and_open visited_run = Some ({''192.0.2.7''}, [''192.0.2.7''])"
  by code_simp

theorem agent_reports_devices_witness:
  "\<exists>h c w. visited_run = Returned ((h, c), w) \<and> small_devices w 7 = {''192.0.2.7''}
     \<and> set (hook_reported h ''vless-in'' ''7'') = {''192.0.2.7''}"
proof -
  from visited_run_shows obtain h c w where r: "visited_run = Returned ((h, c), w)"
    and w: "small_devices w 7 = {''192.0.2.7''}"
    by (auto simp: shown_and_open_def split: running.splits)
  have panel: "panel_shows {''vless-in''} (server_devices small_devices) small_panel"
    unfolding small_panel_def by (rule client_shows [OF small_http_shows vless_matches])
  have seven: "isNumericUser ''7''" "Atoi ''7'' = Some 7" by code_simp+
  have "server_devices small_devices w ''vless-in'' ''7'' = set (hook_reported h ''vless-in'' ''7'')"
    using agent_reports_devices [OF panel _ Itoa_7(1) [symmetric] seven(1) works_visited(1),
        of "''vless-in''" "[Tick visited, Tick resting, CtxDone visited]" "(False, [])" small_platform 0
        "NewUserManager counting_xrate () 0 empty_limiters" None "[]" "[]" "()" h c w] r
    unfolding visited_run_def by (simp add: works_visited server_devices_def small_devices_def answered_def shown_by_def split: option.split)
  with w have "set (hook_reported h ''vless-in'' ''7'') = {''192.0.2.7''}" by (simp add: server_devices_def seven)
  with r w show ?thesis by blast
qed

end
