(* ===== verification/Whole_Agent.thy ===== *)
theory Whole_Agent
  imports Startup Agent_Devices
begin

text \<open>
  The agent as \<open>main\<close> of \<open>cmd/star1ight-agent/main.go\<close> starts it from its flags, against the panel's
  server: the panel \<open>configurePanel\<close> makes is one that bills and shows (\<open>Panel_Server\<close>), so what \<open>Agent\<close>
  and \<open>Agent_Devices\<close> prove of \<open>agent_syncer\<close> holds of the synchroniser that runs.
\<close>

section \<open>The panel of the flags\<close>

text \<open>The client of a single-node install, and its panel with the sources it drops.\<close>

definition main_client :: "flags \<Rightarrow> client" where
  "main_client f = NewClient (fl_panelURL f) (fl_panelToken f) (fl_panelNodeID f) (fl_panelNodeType f)"

definition main_panel :: "'w http \<Rightarrow> flags \<Rightarrow> 'w panel" where
  "main_panel H f =
     (let ds = parseSourceDropLabels (fl_sourceDrop f)
      in if 0 < length ds then SourceFilteredPanel (Some (client_panel H 0 (main_client f))) ds
         else client_panel H 0 (main_client f))"

definition single_node :: "flags \<Rightarrow> bool" where
  "single_node f \<longleftrightarrow> fl_panelURL f \<noteq> [] \<and> fl_panelHY2NodeID f = [] \<and> ParseSourceServerMap (fl_sourceServerMap f) = Inr []"

lemma configured_panel:
  assumes "single_node f" and "\<not> fl_machineOnly f"
    and "configurePanel E H f [] (parseSourceDropLabels (fl_sourceDrop f)) = Inr (p, r)"
  shows "p = Some (main_panel H f)"
  using assms
  by (auto simp: configurePanel_def single_node_def main_panel_def main_client_def Let_def split: if_splits sum.splits)

lemma started_single_node:
  assumes "main_start P E H f w = (Inr st, w')" and "run_core st = Some (h, c)" and "single_node f" and "fl_users f = []"
  shows "run_syncer st = Some (agent_syncer P (main_panel H f) (fl_panelEvery f))"
    and "\<exists>now cls ssm sdl. h = new_hook (NewUserManager (rate_package P) now (fl_nodeRateMbps f) empty_limiters) cls ssm sdl"
proof -
  note started = started_agent [OF assms(1,2)]
  from started(3) [OF assms(4)]
  show "\<exists>now cls ssm sdl. h = new_hook (NewUserManager (rate_package P) now (fl_nodeRateMbps f) empty_limiters) cls ssm sdl" .
  have "run_panel st = Some (main_panel H f)"
    using assms(1,2,3) configured_panel [OF assms(3) started(1)]
    by (auto simp: main_start_def single_node_def Let_def split: sum.splits prod.splits if_splits option.splits)
  with started(2) show "run_syncer st = Some (agent_syncer P (main_panel H f) (fl_panelEvery f))" by simp
qed

text \<open>It bills and shows the inbound of its client, and lists the users the server lists.\<close>

lemma main_panel_serves:
  assumes "\<And>t. matchesInbound (main_client f) t \<longleftrightarrow> t = tag"
    and "\<not> shouldDrop (parseSourceDropLabels (fl_sourceDrop f)) tag"
  shows "server_bills H bills \<Longrightarrow> panel_bills {tag} (server_ledger bills) (main_panel H f)"
    and "server_shows H devs \<Longrightarrow> panel_shows {tag} (server_devices devs) (main_panel H f)"
    and "panel_lists U (client_panel H 0 (main_client f)) \<Longrightarrow> panel_lists U (main_panel H f)"
proof -
  let ?ds = "parseSourceDropLabels (fl_sourceDrop f)"
  have tag: "{i \<in> {tag}. \<not> shouldDrop ?ds i} = {tag}" using assms(2) by auto
  show "panel_bills {tag} (server_ledger bills) (main_panel H f)" if "server_bills H bills"
    using client_bills [OF that assms(1), of 0] filtered_bills [OF client_bills [OF that assms(1), of 0], of ?ds, unfolded tag]
    by (simp add: main_panel_def Let_def)
  show "panel_shows {tag} (server_devices devs) (main_panel H f)" if "server_shows H devs"
    using client_shows [OF that assms(1), of 0] filtered_shows [OF client_shows [OF that assms(1), of 0], of ?ds, unfolded tag]
    by (simp add: main_panel_def Let_def)
  show "panel_lists U (main_panel H f)" if "panel_lists U (client_panel H 0 (main_client f))"
    using that by (simp add: main_panel_def Let_def panel_lists_def SourceFilteredPanel_def Filtered_FetchUsers_def)
qed

text \<open>What the other goroutines do during an event of \<open>Run\<close>.\<close>

primrec during :: "'s event \<Rightarrow> 's meanwhile" where
  "during (Tick m) = m"
| "during (CtxDone m) = m"

lemma event_works_during: "event_works R e \<longleftrightarrow> works R (during e)"
  by (cases e) simp_all

section \<open>Properties\<close>

text \<open>
  C1: The program, from its flags to the panel's books. An agent that \<open>main\<close> has started for one node, with
  no file of local users and no source map, whatever its tuning, limits, source labels and drop list, runs a
  synchroniser under which, however connections count, sessions open and close and requests fail, the server
  has billed a user it keeps listing exactly what the counters of the node's one inbound record as reported,
  by the pushes it answered; what the agent saw fail and the server applied all the same is billed on top of
  it, for it is pushed again. The next delta makes the answered bill what has been counted. The devices the
  server shows are those recorded as reported, unless the last update it applied got no answer, and the next
  delta makes them the devices of the open sessions.
\<close>

theorem main_bills_and_shows:
  assumes "main_start P E H f w0 = (Inr st, w1)" and "run_core st = Some s0" and "run_syncer st = Some sy"
    and "single_node f" and "fl_users f = []"
    and "\<And>t. matchesInbound (main_client f) t \<longleftrightarrow> t = tag" and "\<not> shouldDrop (parseSourceDropLabels (fl_sourceDrop f)) tag"
    and "server_logs H log" and "log w1 = []"
    and "panel_lists {Itoa n} (client_panel H 0 (main_client f))" and "isNumericUser (Itoa n)"
    and "\<forall>m \<in> {first} \<union> set (map during es). works agent_step m \<and> works device_step m"
    and "Run sy first es (s0, w1) \<in> {Waiting ((h, c), w), Returned ((h, c), w)}"
  shows "bill_of (answered (log w)) n = hook_committed h tag (Itoa n)
    \<and> bill_of (log w) n = add2 (hook_committed h tag (Itoa n)) (bill_of (unanswered (log w)) n)
    \<and> add2 (bill_of (answered (log w)) n) (amount (Hook_SnapshotDelta h) tag (Itoa n)) = hook_used h tag (Itoa n)
    \<and> (last_answered (log w) n \<longrightarrow> shown_by (log w) n = set (hook_reported h tag (Itoa n)))
    \<and> show_alive (Hook_AliveDelta h) (\<lambda>i u. set (hook_reported h i u)) tag (Itoa n)
        = set (peers_of (DeviceSnapshot h) tag (Itoa n))"
proof -
  obtain h0 c0 where s0: "s0 = (h0, c0)" by fastforce
  note single = started_single_node [OF assms(1) assms(2) [unfolded s0] assms(4,5)]
  from single(1) assms(3) have sy: "sy = agent_syncer P (main_panel H f) (fl_panelEvery f)" by simp
  from single(2) obtain now cls ssm sdl where
    h0: "h0 = new_hook (NewUserManager (rate_package P) now (fl_nodeRateMbps f) empty_limiters) cls ssm sdl" by blast
  note serves = main_panel_serves [OF assms(6,7)]
  note run = assms(13) [unfolded sy s0 h0]
  have works: "works agent_step first" "works device_step first"
    "\<forall>e \<in> set es. event_works agent_step e" "\<forall>e \<in> set es. event_works device_step e"
    using assms(12) by (auto simp: event_works_during)
  let ?bills = "\<lambda>w. bill_of (answered (log w))" and ?devs = "\<lambda>w. shown_by (answered (log w))"
  have zero: "\<forall>i u. server_ledger ?bills w1 i u = zero2" "\<forall>i u. server_devices ?devs w1 i u = {}"
    using assms(9) by (auto simp: server_ledger_def server_devices_def answered_def bill_of_def shown_by_def split: option.split)
  have server: "server_ledger ?bills w tag (Itoa n) = ?bills w n" "server_devices ?devs w tag (Itoa n) = ?devs w n"
    by (simp_all add: server_ledger_def server_devices_def)
  have tag: "tag \<in> {tag}" by simp
  have bills: "?bills w n = hook_committed h tag (Itoa n)"
    "add2 (?bills w n) (amount (Hook_SnapshotDelta h) tag (Itoa n)) = hook_used h tag (Itoa n)"
    using agent_bills [OF serves(1) [OF answered_bills [OF assms(8)]] serves(3) [OF assms(10)] tag refl assms(11)
        works(1,3) zero(1) run] unfolding server by blast+
  have devs: "?devs w n = set (hook_reported h tag (Itoa n))"
    "show_alive (Hook_AliveDelta h) (server_devices ?devs w) tag (Itoa n) = set (peers_of (DeviceSnapshot h) tag (Itoa n))"
    using agent_shows [OF serves(2) [OF answered_shows [OF assms(8)]] tag refl assms(11) works(2,4) zero(2) run]
    unfolding server by blast+
  have "show_alive (Hook_AliveDelta h) (\<lambda>i u. set (hook_reported h i u)) tag (Itoa n)
      = show_alive (Hook_AliveDelta h) (server_devices ?devs w) tag (Itoa n)"
    by (simp add: show_alive_def server devs(1) split: option.split)
  with bills devs bill_of_split [of "log w" n] shown_by_answered [of "log w" n] show ?thesis by simp
qed

text \<open>A node that drops the source \<open>cdn\<close>, in a session of user 7 that downloads.\<close>

definition small_env :: "(unit, unit, small_server) env" where
  "small_env =
     \<lparr>env_ReadFile = (\<lambda>path w. Inr ''{}''), env_UnmarshalOptions = (\<lambda>data. Inr \<lparr>opt_Log = None, opt_Inbounds = []\<rparr>),
      env_UnmarshalUsers = (\<lambda>data. Inl (Extern ''unused'')), box_New = (\<lambda>opts. Inr ()), AppendTracker = (\<lambda>c. c), box_Start = (\<lambda>c. (None, c)),
      env_log = \<lparr>open_log = (\<lambda>path w. (Some (Extern ''read-only''), w)), stat_log = (\<lambda>w. (Inr 0, w)), print_log = (\<lambda>text w. w),
        sync_log = (\<lambda>w. w), close_log = (\<lambda>w. w), unix_nano = (\<lambda>w. 0), log_files = (\<lambda>path w. (None, w)), log_pid = 1,
        log_goroutines = (\<lambda>w. 1), log_mem_stats = (\<lambda>w. \<lparr>HeapAlloc = 0, HeapSys = 0, HeapIdle = 0, HeapReleased = 0,
          StackInuse = 0, OtherSys = 0, NumGC = 0, PauseTotalNs = 0, PauseNs = (\<lambda>i. 0)\<rparr>)\<rparr>\<rparr>"

definition small_flags :: flags where
  "small_flags = default_flags\<lparr>fl_panelURL := ''https://panel.example/'', fl_panelToken := ''t'', fl_panelNodeID := ''1'',
     fl_sourceDrop := ''cdn''\<rparr>"

definition at_work :: "('l hook \<times> 'c) meanwhile" where
  "at_work = resting\<lparr>while_idle := five_bytes \<circ> open_seven, while_pushing := five_bytes\<rparr>"

lemma five_bytes_tracker: "sessionTracker (fst (five_bytes s)) = sessionTracker (fst s)"
proof -
  obtain a h where g: "Hook_GetCounter ''vless-in'' ''7'' (fst s) = (a, h)" by fastforce
  then have "sessionTracker h = sessionTracker (fst s)"
    by (auto simp: Hook_GetCounter_def tc_def Let_def split: option.splits prod.splits if_splits)
  with g show ?thesis by (simp add: five_bytes_def)
qed

lemma works_at_work:
  "works agent_step (at_work :: ('l hook \<times> 'c) meanwhile)" "works device_step (at_work :: ('l hook \<times> 'c) meanwhile)"
  "works device_step (busy :: ('l hook \<times> 'c) meanwhile)"
proof -
  have "device_step s (five_bytes s)" for s :: "'l hook \<times> 'c"
    using five_bytes_tracker [of s] by (cases s; cases "five_bytes s") (simp add: ds_other)
  then have five: "device_step\<^sup>*\<^sup>* s (five_bytes s)" for s :: "'l hook \<times> 'c" by blast
  show "works device_step (busy :: ('l hook \<times> 'c) meanwhile)"
    using five by (simp add: works_def busy_def resting_def del: split_paired_All)
  have seven: "device_step\<^sup>*\<^sup>* s (open_seven s)" for s :: "'l hook \<times> 'c"
    using works_visited(2) by (cases s) (auto simp: works_def visited_def)
  show "works device_step (at_work :: ('l hook \<times> 'c) meanwhile)"
    using five rtranclp_trans [OF seven five] by (simp add: works_def at_work_def resting_def del: split_paired_All)
  have "agent_step s (open_seven s)" for s :: "'l hook \<times> 'c"
    by (cases s) (auto simp: open_seven_def canonical_hook_def tc_of_def intro!: as_hook hs_session)
  then have seven: "agent_step\<^sup>*\<^sup>* s (open_seven s)" for s :: "'l hook \<times> 'c" by blast
  have five: "agent_step\<^sup>*\<^sup>* s (five_bytes s)" for s :: "'l hook \<times> 'c"
    using works_busy(2) by (cases s) (auto simp: works_def busy_def)
  show "works agent_step (at_work :: ('l hook \<times> 'c) meanwhile)"
    using five rtranclp_trans [OF seven five] by (simp add: works_def at_work_def resting_def del: split_paired_All)
qed

definition small_start :: "(error + (int \<times> int, unit, small_server) started) \<times> small_server" where
  "small_start = main_start small_platform small_env (small_http [some_user 7 ''uuid-7'']) small_flags (False, [])"

definition started_core :: "error + ('l, 'c, 'w) started \<Rightarrow> ('l hook \<times> 'c) option" where
  "started_core r = (case r of Inl err \<Rightarrow> None | Inr st \<Rightarrow> run_core st)"

definition started_syncer :: "error + ('l, 'c, 'w) started \<Rightarrow> ('l hook \<times> 'c, 'w) syncer option" where
  "started_syncer r = (case r of Inl err \<Rightarrow> None | Inr st \<Rightarrow> run_syncer st)"

definition small_events :: "('l hook \<times> 'c) event list" where
  "small_events = [Tick busy, Tick at_work, CtxDone resting]"

definition started_run :: "((int \<times> int) hook \<times> unit, small_server) running" where
  "started_run =
     Run (the (started_syncer (fst small_start))) resting small_events (the (started_core (fst small_start)), snd small_start)"

definition settled :: "('l hook \<times> 'c, small_server) running \<Rightarrow> (pair64 \<times> pair64 \<times> string set) option" where
  "settled r = (case r of Returned ((h, c), w) \<Rightarrow> Some (bill_of (answered (snd w)) 7, bill_of (snd w) 7, shown_by (snd w) 7) | _ \<Rightarrow> None)"

lemma started_run_settles:
  "started_core (fst small_start) \<noteq> None" "started_syncer (fst small_start) \<noteq> None" "snd small_start = (False, [])"
  "settled started_run = Some ((20, 0), (25, 0), {''192.0.2.7''})"
  by code_simp+

theorem main_bills_and_shows_witness:
  "\<exists>st s0 sy h c w. small_start = (Inr st, False, []) \<and> run_core st = Some s0 \<and> run_syncer st = Some sy
     \<and> Run sy resting small_events (s0, False, []) = Returned ((h, c), w)
     \<and> hook_committed h ''vless-in'' ''7'' = (20, 0) \<and> bill_of (snd w) 7 = (25, 0) \<and> bill_of (unanswered (snd w)) 7 = (5, 0)
     \<and> shown_by (snd w) 7 = {''192.0.2.7''}"
proof -
  from started_run_settles(1,3) obtain st where st1: "small_start = (Inr st, False, [])"
    unfolding started_core_def by (metis prod.collapse sum.case(1) sum.exhaust)
  have parts: "started_core (fst small_start) = run_core st" "started_syncer (fst small_start) = run_syncer st"
    "snd small_start = (False, [])"
    unfolding started_core_def started_syncer_def st1 by simp_all
  with started_run_settles(1,2) obtain s0 sy where st: "run_core st = Some s0" "run_syncer st = Some sy"
    by (metis option.exhaust)
  from started_run_settles(4) obtain h c w where
    run: "Run sy resting small_events (s0, False, []) = Returned ((h, c), w)"
    and w: "bill_of (answered (snd w)) 7 = (20, 0)" "bill_of (snd w) 7 = (25, 0)" "shown_by (snd w) 7 = {''192.0.2.7''}"
    by (auto simp: settled_def started_run_def parts st split: running.splits)
  have f: "single_node small_flags" "fl_users small_flags = []" "isNumericUser ''7''"
    "\<not> shouldDrop (parseSourceDropLabels (fl_sourceDrop small_flags)) ''vless-in''"
    by code_simp+
  have c: "main_client small_flags = vless_client"
    by (simp add: main_client_def small_flags_def default_flags_def vless_client_def)
  have works: "\<forall>m \<in> {resting} \<union> set (map during small_events). works agent_step m \<and> works device_step m"
    by (simp add: small_events_def works_at_work works_busy works_visited)
  have "bill_of (answered (snd w)) 7 = hook_committed h ''vless-in'' ''7''
      \<and> bill_of (snd w) 7 = add2 (hook_committed h ''vless-in'' ''7'') (bill_of (unanswered (snd w)) 7)"
    using main_bills_and_shows [OF st1 [unfolded small_start_def] st f(1,2) _ f(4) small_http_logs _ _ _ works,
        of 7 h c w] run small_panel_lists vless_matches f(3) Itoa_7
    by (simp add: c small_panel_def)
  with w have "hook_committed h ''vless-in'' ''7'' = (20, 0)" "add2 (20, 0) (bill_of (unanswered (snd w)) 7) = (25, 0)"
    by simp_all
  moreover from this(2) have "bill_of (unanswered (snd w)) 7 = (5, 0)"
    by (cases "bill_of (unanswered (snd w)) 7") (simp add: add2_def add.commute eq_diff_eq [symmetric])
  ultimately show ?thesis using st1 st run w
    by (intro exI [of _ st] exI [of _ s0] exI [of _ sy] exI [of _ h] exI [of _ c] exI [of _ w]) simp
qed

end
