(* ===== verification/Concurrent_Counters.thy ===== *)
theory Concurrent_Counters
  imports Traffic_Accounting
begin

text \<open>
  The atomic actions inside \<open>SnapshotDelta\<close> and \<open>GetCounter\<close> of \<open>counter/counter.go\<close>, interleaved with
  the connections. \<open>Traffic_Counter\<close> takes each of the two as one step; here \<open>SnapshotDelta\<close> loads the
  four counters of each entry one after the other, and \<open>GetCounter\<close> loads the map before it stores.
  The theory shows that nothing the other theories rely on depends on their being one step.
\<close>

section \<open>A snapshot, load by load\<close>

text \<open>
  The entries \<open>Range\<close> has still to visit, the values loaded of the first of them (\<open>UpCounter\<close>,
  \<open>CommittedUp\<close>, \<open>DownCounter\<close>) and the map \<open>out\<close>.
\<close>

record snap =
  to_visit :: traffic_counter
  loaded :: "i64 list"
  snap_out :: user_traffic

definition snap_start :: "traffic_counter \<Rightarrow> snap" where
  "snap_start tc = \<lparr>to_visit = tc, loaded = [], snap_out = []\<rparr>"

definition snap_action :: "store \<Rightarrow> snap \<Rightarrow> snap" where
  "snap_action st s =
     (case to_visit s of
        [] \<Rightarrow> s
      | (k, a) # rest \<Rightarrow>
          (case loaded s of
             [] \<Rightarrow> s\<lparr>loaded := [UpCounter (cell st a)]\<rparr>
           | [u] \<Rightarrow> s\<lparr>loaded := [u, CommittedUp (cell st a)]\<rparr>
           | [u, cu] \<Rightarrow> s\<lparr>loaded := [u, cu, DownCounter (cell st a)]\<rparr>
           | u # cu # d # _ \<Rightarrow>
               (let up = u - cu; down = d - CommittedDown (cell st a)
                in \<lparr>to_visit = rest, loaded = [],
                    snap_out = (if 0 <s up \<or> 0 <s down then mput k (up, down) (snap_out s) else snap_out s)\<rparr>)))"

text \<open>A run of the snapshot with the connections: they step, or it takes its next action.\<close>

inductive snap_run :: "counters \<Rightarrow> counters \<Rightarrow> snap \<Rightarrow> bool" for c0 where
  snap_begin: "snap_run c0 c0 (snap_start (fst c0))"
| snap_conn: "snap_run c0 c s \<Longrightarrow> traffic_step c c' \<Longrightarrow> snap_run c0 c' s"
| snap_act: "snap_run c0 c s \<Longrightarrow> to_visit s \<noteq> [] \<Longrightarrow> snap_run c0 c (snap_action (snd c) s)"

text \<open>Alone, it is \<open>SnapshotDelta\<close>, in four actions an entry.\<close>

lemma snap_entry:
  "(snap_action st ^^ 4) \<lparr>to_visit = (k, a) # rest, loaded = [], snap_out = out\<rparr>
   = \<lparr>to_visit = rest, loaded = [],
      snap_out = (if positive2 (pending (cell st a)) then mput k (pending (cell st a)) out else out)\<rparr>"
  by (simp add: numeral_eq_Suc snap_action_def Let_def positive2_def pending_pair)

lemma snap_alone: "(snap_action st ^^ (4 * length tc)) (snap_start tc) = \<lparr>to_visit = [], loaded = [], snap_out = SnapshotDelta tc st\<rparr>"
proof -
  have "(snap_action st ^^ (4 * length es)) \<lparr>to_visit = es, loaded = [], snap_out = out\<rparr>
      = \<lparr>to_visit = [], loaded = [],
         snap_out = fold (\<lambda>(k, a) out. if positive2 (pending (cell st a)) then mput k (pending (cell st a)) out else out) es out\<rparr>" for es out
  proof (induction es arbitrary: out)
    case (Cons e es)
    obtain k a where e: "e = (k, a)" by (cases e)
    have "4 * length (e # es) = 4 * length es + 4" by simp
    then show ?case by (simp only: funpow_add comp_apply e snap_entry Cons.IH) simp
  qed simp
  moreover have "SnapshotDelta tc st
      = fold (\<lambda>(k, a) out. if positive2 (pending (cell st a)) then mput k (pending (cell st a)) out else out) tc []"
    by (simp only: SnapshotDelta_def Let_def positive2_def pending_pair fst_conv snd_conv)
  ultimately show ?thesis by (simp add: snap_start_def)
qed

section \<open>What the loads see\<close>

lemma grows2_trans: "grows2 p q \<Longrightarrow> grows2 q r \<Longrightarrow> grows2 p r"
  by (auto simp: grows2_def)

lemma traffic_grows_trans:
  assumes "traffic_grows c0 c" and "traffic_grows c c'"
  shows "traffic_grows c0 c'"
proof -
  have "grows2 (pending (cell (snd c0) a)) (pending (cell (snd c') a))" if "a < fresh (snd c0)" for a
  proof -
    have "a < fresh (snd c)" using that assms(1) by (simp add: traffic_grows_def)
    with that assms show ?thesis unfolding traffic_grows_def using grows2_trans by blast
  qed
  with assms show ?thesis by (auto simp: traffic_grows_def)
qed

lemma traffic_step_cells:
  assumes "traffic_step (tc, st) (tc', st')" and "a < fresh st"
  shows "committed (cell st' a) = committed (cell st a)"
  using assms
  by (cases rule: traffic_step.cases)
    (auto simp: GetCounter_def LoadOrStore_def Let_def used_add_up used_add_down split: option.splits)

definition between :: "storage \<Rightarrow> pair64 \<Rightarrow> storage \<Rightarrow> bool" where
  "between s v s' \<longleftrightarrow> grows2 (pending s) v \<and> grows2 v (pending s')"

text \<open>
  The invariant: each visited entry has in the map an amount its storage had on its way, the values
  loaded of the current entry likewise, and what is committed does not change.
\<close>

definition visited_ok :: "store \<Rightarrow> store \<Rightarrow> user_traffic \<Rightarrow> string \<times> nat \<Rightarrow> bool" where
  "visited_ok st st' out e \<longleftrightarrow>
     (\<exists>v. between (cell st (snd e)) v (cell st' (snd e))
        \<and> mget out (fst e) = (if positive2 v then Some v else None))"

definition loaded_ok :: "storage \<Rightarrow> storage \<Rightarrow> i64 list \<Rightarrow> bool" where
  "loaded_ok s s' vs \<longleftrightarrow>
     (case vs of
        [] \<Rightarrow> True
      | u # vs' \<Rightarrow>
          sint (fst (pending s)) \<le> sint (u - CommittedUp s) \<and> sint (u - CommittedUp s) \<le> sint (fst (pending s'))
          \<and> (case vs' of
               [] \<Rightarrow> True
             | cu # vs'' \<Rightarrow>
                 cu = CommittedUp s
                 \<and> (case vs'' of
                      [] \<Rightarrow> True
                    | d # _ \<Rightarrow> sint (snd (pending s)) \<le> sint (d - CommittedDown s)
                        \<and> sint (d - CommittedDown s) \<le> sint (snd (pending s')))))"

definition snap_inv :: "counters \<Rightarrow> counters \<Rightarrow> snap \<Rightarrow> bool" where
  "snap_inv c0 c s \<longleftrightarrow>
     traffic_inv c \<and> traffic_grows c0 c
     \<and> (\<forall>a < fresh (snd c0). committed (cell (snd c) a) = committed (cell (snd c0) a))
     \<and> (\<exists>visited. fst c0 = visited @ to_visit s
          \<and> (\<forall>e \<in> set visited. visited_ok (snd c0) (snd c) (snap_out s) e)
          \<and> (\<forall>k. mget (snap_out s) k \<noteq> None \<longrightarrow> k \<in> fst ` set visited)
          \<and> wf_map (snap_out s)
          \<and> (to_visit s = [] \<longrightarrow> loaded s = [])
          \<and> (to_visit s \<noteq> [] \<longrightarrow>
               loaded_ok (cell (snd c0) (snd (hd (to_visit s)))) (cell (snd c) (snd (hd (to_visit s)))) (loaded s)))"

lemma loaded_ok_simps:
  "loaded_ok s s' []"
  "loaded_ok s s' [u] \<longleftrightarrow>
     sint (fst (pending s)) \<le> sint (u - CommittedUp s) \<and> sint (u - CommittedUp s) \<le> sint (fst (pending s'))"
  "loaded_ok s s' [u, cu] \<longleftrightarrow> loaded_ok s s' [u] \<and> cu = CommittedUp s"
  "loaded_ok s s' (u # cu # d # ds) \<longleftrightarrow> loaded_ok s s' [u, cu]
     \<and> sint (snd (pending s)) \<le> sint (d - CommittedDown s) \<and> sint (d - CommittedDown s) \<le> sint (snd (pending s'))"
  by (auto simp: loaded_ok_def)

lemma between_grows: "between s v s' \<Longrightarrow> grows2 (pending s') (pending s'') \<Longrightarrow> between s v s''"
  unfolding between_def using grows2_trans by blast

lemma loaded_ok_grows: "loaded_ok s s' vs \<Longrightarrow> grows2 (pending s') (pending s'') \<Longrightarrow> loaded_ok s s'' vs"
  by (auto simp: loaded_ok_def grows2_def split: list.splits)

lemma snap_inv_start: "traffic_inv c0 \<Longrightarrow> snap_inv c0 c0 (snap_start (fst c0))"
  by (auto simp: snap_inv_def snap_start_def traffic_grows_def loaded_ok_def)

lemma snap_inv_conn:
  assumes "snap_inv c0 c s" and "traffic_step c c'" and "wf_tc (fst c0) (snd c0)"
  shows "snap_inv c0 c' s"
proof -
  from assms(1) obtain visited where inv: "traffic_inv c" "traffic_grows c0 c"
    and com: "\<forall>a < fresh (snd c0). committed (cell (snd c) a) = committed (cell (snd c0) a)"
    and parts: "fst c0 = visited @ to_visit s" "\<forall>e \<in> set visited. visited_ok (snd c0) (snd c) (snap_out s) e"
      "\<forall>k. mget (snap_out s) k \<noteq> None \<longrightarrow> k \<in> fst ` set visited" "wf_map (snap_out s)"
      "to_visit s = [] \<longrightarrow> loaded s = []"
      "to_visit s \<noteq> [] \<longrightarrow>
         loaded_ok (cell (snd c0) (snd (hd (to_visit s)))) (cell (snd c) (snd (hd (to_visit s)))) (loaded s)"
    unfolding snap_inv_def by blast
  have step: "traffic_grows c c'" "traffic_inv c'"
    using traffic_step_grows [OF assms(2) inv(1)] traffic_step_keeps(1) [OF assms(2) inv(1)] by blast+
  have low: "a < fresh (snd c)" if "a < fresh (snd c0)" for a
    using that inv(2) by (simp add: traffic_grows_def)
  have cell: "grows2 (pending (cell (snd c) (snd e))) (pending (cell (snd c') (snd e)))" if "e \<in> set (fst c0)" for e
    using that assms(3) low step(1) by (auto simp: wf_tc_def traffic_grows_def)
  have "traffic_grows c0 c'" using inv(2) step(1) by (rule traffic_grows_trans)
  moreover have "\<forall>a < fresh (snd c0). committed (cell (snd c') a) = committed (cell (snd c0) a)"
    using com low traffic_step_cells [of "fst c" "snd c" "fst c'" "snd c'"] assms(2) by simp
  moreover have "visited_ok (snd c0) (snd c') (snap_out s) e" if e: "e \<in> set visited" for e
  proof -
    have "grows2 (pending (cell (snd c) (snd e))) (pending (cell (snd c') (snd e)))"
      using cell e parts(1) by simp
    moreover have "visited_ok (snd c0) (snd c) (snap_out s) e" using parts(2) e by blast
    ultimately show ?thesis unfolding visited_ok_def by (blast intro: between_grows)
  qed
  moreover have "to_visit s \<noteq> [] \<longrightarrow>
      loaded_ok (cell (snd c0) (snd (hd (to_visit s)))) (cell (snd c') (snd (hd (to_visit s)))) (loaded s)"
    using parts(1,6) cell [of "hd (to_visit s)"] loaded_ok_grows by (cases "to_visit s") auto
  ultimately show ?thesis using step(2) parts(1,3,4,5) unfolding snap_inv_def by blast
qed

text \<open>The values of an entry, once all four are loaded, are an amount its storage had on its way.\<close>

lemma loaded_between:
  assumes "loaded_ok s s' [u, cu, d]" and "committed s' = committed s"
  shows "between s (u - cu, d - CommittedDown s') s'"
  using assms by (simp add: loaded_ok_simps between_def grows2_def committed_def)

lemma snap_inv_act:
  assumes "snap_inv c0 c s" and "to_visit s \<noteq> []" and wf: "wf_tc (fst c0) (snd c0)"
  shows "snap_inv c0 c (snap_action (snd c) s)"
proof -
  from assms(1) obtain visited where inv: "traffic_inv c" "traffic_grows c0 c"
    and com: "\<forall>a < fresh (snd c0). committed (cell (snd c) a) = committed (cell (snd c0) a)"
    and parts: "fst c0 = visited @ to_visit s" "\<forall>e \<in> set visited. visited_ok (snd c0) (snd c) (snap_out s) e"
      "\<forall>k. mget (snap_out s) k \<noteq> None \<longrightarrow> k \<in> fst ` set visited" "wf_map (snap_out s)"
      "loaded_ok (cell (snd c0) (snd (hd (to_visit s)))) (cell (snd c) (snd (hd (to_visit s)))) (loaded s)"
    using assms(2) unfolding snap_inv_def by blast
  from assms(2) obtain k a rest where e: "to_visit s = (k, a) # rest" by (metis list.exhaust prod.exhaust)
  have a: "a < fresh (snd c0)" using wf parts(1) e by (auto simp: wf_tc_def)
  then have com_a: "committed (cell (snd c) a) = committed (cell (snd c0) a)" using com by blast
  have grow: "grows2 (pending (cell (snd c0) a)) (pending (cell (snd c) a))"
    using inv(2) a by (simp add: traffic_grows_def)
  have ok: "loaded_ok (cell (snd c0) a) (cell (snd c) a) (loaded s)" using parts(5) e by simp
  have load: ?thesis if "snap_action (snd c) s = s\<lparr>loaded := vs\<rparr>" "loaded_ok (cell (snd c0) a) (cell (snd c) a) vs" for vs
    using that inv com parts e unfolding snap_inv_def by auto
  have uc: "CommittedUp (cell (snd c) a) = CommittedUp (cell (snd c0) a)"
    "CommittedDown (cell (snd c) a) = CommittedDown (cell (snd c0) a)"
    using com_a by (simp_all add: committed_def)
  have pend: "sint (fst (pending (cell (snd c0) a))) \<le> sint (UpCounter (cell (snd c) a) - CommittedUp (cell (snd c0) a))"
    "sint (snd (pending (cell (snd c0) a))) \<le> sint (DownCounter (cell (snd c) a) - CommittedDown (cell (snd c0) a))"
    "fst (pending (cell (snd c) a)) = UpCounter (cell (snd c) a) - CommittedUp (cell (snd c0) a)"
    "snd (pending (cell (snd c) a)) = DownCounter (cell (snd c) a) - CommittedDown (cell (snd c0) a)"
    using grow uc by (simp_all add: grows2_def pending_pair)
  show ?thesis
  proof (cases "loaded s" rule: remdups_adj.cases)
    case 1
    show ?thesis
      by (rule load [of "[UpCounter (cell (snd c) a)]"]) (use 1 e pend in \<open>simp_all add: snap_action_def loaded_ok_simps\<close>)
  next
    case (2 u)
    show ?thesis
      by (rule load [of "[u, CommittedUp (cell (snd c) a)]"]) (use 2 e ok uc in \<open>simp_all add: snap_action_def loaded_ok_simps\<close>)
  next
    case (3 u cu ds)
    show ?thesis
    proof (cases ds)
      case Nil
      show ?thesis
        by (rule load [of "[u, cu, DownCounter (cell (snd c) a)]"]) (use 3 Nil e ok pend in \<open>simp_all add: snap_action_def loaded_ok_simps\<close>)
    next
      case (Cons d ds')
      let ?v = "(u - cu, d - CommittedDown (cell (snd c) a))"
      let ?out = "if positive2 ?v then mput k ?v (snap_out s) else snap_out s"
      have act: "snap_action (snd c) s = \<lparr>to_visit = rest, loaded = [], snap_out = ?out\<rparr>"
        using 3 Cons e by (simp add: snap_action_def Let_def positive2_def)
      have "loaded_ok (cell (snd c0) a) (cell (snd c) a) [u, cu, d]" using ok 3 Cons by (simp add: loaded_ok_simps)
      from loaded_between [OF this com_a] have v: "between (cell (snd c0) a) ?v (cell (snd c) a)" .
      have new: "k \<notin> fst ` set visited" using wf parts(1) e by (auto simp: wf_tc_def wf_map_def)
      then have absent: "mget (snap_out s) k = None" using parts(3) by blast
      have "visited_ok (snd c0) (snd c) ?out (k, a)"
        unfolding visited_ok_def using v absent by (intro exI [of _ ?v]) (simp add: mget_mput)
      moreover have "\<forall>e \<in> set visited. visited_ok (snd c0) (snd c) ?out e"
      proof
        fix e assume e': "e \<in> set visited"
        with new have "fst e \<noteq> k" by blast
        with parts(2) e' show "visited_ok (snd c0) (snd c) ?out e" by (auto simp: visited_ok_def mget_mput)
      qed
      ultimately have "\<forall>e \<in> set (visited @ [(k, a)]). visited_ok (snd c0) (snd c) ?out e" by auto
      moreover have "\<forall>k'. mget ?out k' \<noteq> None \<longrightarrow> k' \<in> fst ` set (visited @ [(k, a)])"
        using parts(3) by (auto simp: mget_mput split: if_splits)
      moreover have "wf_map ?out" using parts(4) by (simp add: wf_mput)
      moreover have "fst c0 = (visited @ [(k, a)]) @ rest" using parts(1) e by simp
      ultimately show ?thesis
        unfolding snap_inv_def act using inv com by (auto simp: loaded_ok_def)
    qed
  qed
qed

lemma snap_run_inv:
  assumes "snap_run c0 c s" and "traffic_inv c0"
  shows "snap_inv c0 c s"
  using assms(1)
proof (induction rule: snap_run.induct)
  case snap_begin
  from assms(2) show ?case by (rule snap_inv_start)
next
  case (snap_conn c s c')
  with assms(2) show ?case using snap_inv_conn by (auto simp: traffic_inv_def)
next
  case (snap_act c s)
  with assms(2) show ?case using snap_inv_act by (auto simp: traffic_inv_def)
qed


lemma traffic_steps_committed:
  "traffic_step\<^sup>*\<^sup>* c c' \<Longrightarrow> traffic_inv c \<Longrightarrow> traffic_inv c' \<and> committed_of c' = committed_of c"
  by (induction rule: rtranclp_induct) (auto dest: traffic_step_keeps(1,2))

lemma snap_run_committed:
  "snap_run c0 c s \<Longrightarrow> traffic_inv c0 \<Longrightarrow> traffic_inv c \<and> committed_of c = committed_of c0"
  by (induction rule: snap_run.induct) (auto dest: traffic_step_keeps(1,2))

lemma nonneg2_grows: "nonneg2 p \<Longrightarrow> grows2 p q \<Longrightarrow> nonneg2 q"
  by (auto simp: nonneg2_def grows2_def)

text \<open>What a finished snapshot holds for a user, between what was on its way when it began and now.\<close>

lemma snap_run_out:
  assumes "snap_run c0 c s" and "traffic_inv c0" and "to_visit s = []"
  shows "wf_map (snap_out s)"
    and "mget (snap_out s) u \<noteq> None \<Longrightarrow> mget (fst c0) u \<noteq> None"
    and "mget (fst c0) u = Some a \<Longrightarrow>
      \<exists>v. between (cell (snd c0) a) v (cell (snd c) a) \<and> nonneg2 v \<and> v = mget_or zero2 (snap_out s) u"
proof -
  have wf: "wf_tc (fst c0) (snd c0)" using assms(2) by (simp add: traffic_inv_def)
  from snap_run_inv [OF assms(1,2)] assms(3)
  have parts: "\<forall>e \<in> set (fst c0). visited_ok (snd c0) (snd c) (snap_out s) e"
    "\<forall>k. mget (snap_out s) k \<noteq> None \<longrightarrow> k \<in> fst ` set (fst c0)" "wf_map (snap_out s)"
    unfolding snap_inv_def by auto
  show "wf_map (snap_out s)" by (rule parts(3))
  show "mget (fst c0) u \<noteq> None" if "mget (snap_out s) u \<noteq> None"
    using that parts(2) by (auto simp: mget_None_iff mkeys_def)
  show "\<exists>v. between (cell (snd c0) a) v (cell (snd c) a) \<and> nonneg2 v \<and> v = mget_or zero2 (snap_out s) u"
    if u: "mget (fst c0) u = Some a"
  proof -
    have "(u, a) \<in> set (fst c0)" using u by (rule mget_in_set)
    then obtain v where v: "between (cell (snd c0) a) v (cell (snd c) a)"
      "mget (snap_out s) u = (if positive2 v then Some v else None)"
      using parts(1) unfolding visited_ok_def by fastforce
    have "nonneg2 v"
      using v(1) assms(2) nonneg2_grows unfolding between_def traffic_inv_def by blast
    moreover from this have "v = mget_or zero2 (snap_out s) u"
      using v(2) nonneg2_not_positive by (simp add: mget_or_def)
    ultimately show ?thesis using v(1) by blast
  qed
qed

section \<open>A snapshot taken while connections count\<close>

text \<open>
  C5: A snapshot whose loads interleave with connections reports every byte counted before it began,
  no byte twice, and leaves the rest: after its commit, however much later, the committed totals have
  grown by exactly what was pushed, no total counted is lost, no commit exceeds what was counted, and
  the next snapshot completes the committed totals to everything counted.
\<close>

theorem concurrent_snapshot_counts_once:
  assumes "traffic_inv (tc, st)" and "snap_run (tc, st) (tc1, st1) s" and "to_visit s = []"
    and "traffic_step\<^sup>*\<^sup>* (tc1, st1) (tc2, st2)"
  shows "traffic_inv (tc2, CommitSnapshot (snap_out s) tc2 st2)
    \<and> grows2 (sub2 (used_of (tc, st) u) (committed_of (tc, st) u)) (mget_or zero2 (snap_out s) u)
    \<and> committed_of (tc2, CommitSnapshot (snap_out s) tc2 st2) u
        = add2 (committed_of (tc, st) u) (mget_or zero2 (snap_out s) u)
    \<and> used_of (tc2, CommitSnapshot (snap_out s) tc2 st2) u = used_of (tc2, st2) u
    \<and> add2 (committed_of (tc2, CommitSnapshot (snap_out s) tc2 st2) u)
        (mget_or zero2 (SnapshotDelta tc2 (CommitSnapshot (snap_out s) tc2 st2)) u) = used_of (tc2, st2) u"
proof -
  let ?c = "(tc2, CommitSnapshot (snap_out s) tc2 st2)"
  have c: "?c = commit_traffic (snap_out s) (tc2, st2)" by (simp add: commit_traffic_def)
  note out = snap_run_out [OF assms(2,1,3), simplified]
  have run: "snap_inv (tc, st) (tc1, st1) s" using assms(2,1) by (rule snap_run_inv)
  from run have inv1: "traffic_inv (tc1, st1)" and g1: "traffic_grows (tc, st) (tc1, st1)"
    by (auto simp: snap_inv_def)
  from traffic_steps_grow [OF assms(4) inv1] have inv2: "traffic_inv (tc2, st2)"
    and g2: "traffic_grows (tc1, st1) (tc2, st2)" by auto
  have com: "committed_of (tc2, st2) = committed_of (tc, st)"
    using snap_run_committed [OF assms(2,1)] traffic_steps_committed [OF assms(4) inv1] by simp
  have covers: "traffic_covers (snap_out s) (tc2, st2)"
    using out(1,2) traffic_grows_trans [OF g1 g2] by (fastforce simp: traffic_covers_def traffic_grows_def)
  have inv: "traffic_inv ?c"
    unfolding c
  proof (rule traffic_commit_below [OF inv2 out(1)])
    fix u' a v assume u': "mget (fst (tc2, st2)) u' = Some a" "mget (snap_out s) u' = Some v"
    then obtain b where b: "mget tc u' = Some b" using out(2) [of u'] by auto
    from out(3) [OF b] u'(2) have v: "between (cell st b) v (cell st1 b)" "nonneg2 v"
      by (auto simp: mget_or_def)
    have ab: "a = b" using u'(1) b traffic_grows_trans [OF g1 g2] by (auto simp: traffic_grows_def)
    have "b < fresh st" using assms(1) b by (auto simp: traffic_inv_def intro: wf_tc_fresh)
    then have "b < fresh st1" using g1 by (simp add: traffic_grows_def)
    then have "grows2 (pending (cell st1 b)) (pending (cell st2 b))" using g2 by (simp add: traffic_grows_def)
    moreover have "grows2 v (pending (cell st1 b))" using v(1) by (simp add: between_def)
    ultimately have "grows2 v (pending (cell st2 b))" by (rule grows2_trans [rotated])
    with v(2) ab show "nonneg2 v \<and> grows2 v (pending (cell (snd (tc2, st2)) a))" by simp
  qed
  have "grows2 (sub2 (used_of (tc, st) u) (committed_of (tc, st) u)) (mget_or zero2 (snap_out s) u)"
  proof (cases "mget tc u")
    case None
    then have "mget (snap_out s) u = None" using out(2) [of u] by (cases "mget (snap_out s) u") auto
    with None show ?thesis by (simp add: used_of_def committed_of_def mget_or_def sub2_def zero2_def)
  next
    case (Some a)
    from out(3) [OF this] have "grows2 (pending (cell st a)) (mget_or zero2 (snap_out s) u)"
      unfolding between_def by (elim exE conjE) simp
    with Some show ?thesis by (simp add: used_of_def committed_of_def pending_def)
  qed
  moreover have "committed_of ?c = apply_traffic (snap_out s) (committed_of (tc, st))"
    "used_of ?c = used_of (tc2, st2)"
    using views_commit [OF inv2 covers] com unfolding c by simp_all
  moreover from this tr.snapshot_complete [OF inv]
  have "apply_traffic (SnapshotDelta tc2 (CommitSnapshot (snap_out s) tc2 st2)) (committed_of ?c) = used_of (tc2, st2)"
    by (simp add: snapshot_traffic_def)
  then have "add2 (committed_of ?c u) (mget_or zero2 (SnapshotDelta tc2 (CommitSnapshot (snap_out s) tc2 st2)) u)
      = used_of (tc2, st2) u"
    unfolding apply_traffic_def by (rule fun_cong)
  ultimately show ?thesis using inv by (simp only: apply_traffic_def simp_thms)
qed

theorem concurrent_snapshot_counts_once_witness:
  "let tc = [(''7'', 0)]; st = add_up 5 0 (empty_store\<lparr>fresh := 1\<rparr>); st1 = add_up 9 0 st;
       s = (snap_action st1 ^^ 3) (snap_action st (snap_start tc))
   in snap_run (tc, st) (tc, st1) s \<and> to_visit s = [] \<and> mget_or zero2 (snap_out s) ''7'' = (5, 0)
      \<and> mget_or zero2 (SnapshotDelta tc (CommitSnapshot (snap_out s) tc st1)) ''7'' = (9, 0)
      \<and> add2 (committed_of (tc, CommitSnapshot (snap_out s) tc st1) ''7'')
          (mget_or zero2 (SnapshotDelta tc (CommitSnapshot (snap_out s) tc st1)) ''7'') = used_of (tc, st1) ''7''"
proof -
  let ?tc = "[(''7'', 0)]" and ?st = "add_up 5 0 (empty_store\<lparr>fresh := 1\<rparr>)"
  let ?later = "add_up 9 0 ?st" and ?begun = "snap_start [(''7'', 0)]"
  let ?once = "snap_action ?st ?begun" and ?act = "snap_action ?later"
  let ?fin = "(?act ^^ 3) ?once"
  have inv: "traffic_inv (?tc, ?st)"
    by (auto simp: traffic_inv_def wf_tc_def nonneg2_def add_up_def empty_store_def pending_pair zero_storage_def)
  have step: "traffic_step (?tc, ?st) (?tc, ?later)"
    by (rule step_up) (simp_all add: add_up_def empty_store_def pending_pair zero_storage_def word_sless_alt)
  have pcs: "?begun = \<lparr>to_visit = ?tc, loaded = [], snap_out = []\<rparr>" "?once = ?begun\<lparr>loaded := [5]\<rparr>"
    "?act ?once = ?begun\<lparr>loaded := [5, 0]\<rparr>" "?act (?act ?once) = ?begun\<lparr>loaded := [5, 0, 0]\<rparr>"
    "?act (?act (?act ?once)) = \<lparr>to_visit = [], loaded = [], snap_out = [(''7'', (5, 0))]\<rparr>"
    by (simp_all add: snap_start_def snap_action_def add_up_def empty_store_def zero_storage_def word_sless_alt)
  have s: "?fin = ?act (?act (?act ?once))" by (simp only: numeral_3_eq_3 funpow.simps comp_apply id_apply)
  have visiting: "to_visit ?begun \<noteq> []" "to_visit ?once \<noteq> []" "to_visit (?act ?once) \<noteq> []" "to_visit (?act (?act ?once)) \<noteq> []"
    by (simp_all add: snap_start_def snap_action_def)
  note act = snap_act [of "(?tc, ?st)" "(?tc, ?st)", unfolded snd_conv]
    snap_act [of "(?tc, ?st)" "(?tc, ?later)", unfolded snd_conv]
  have r0: "snap_run (?tc, ?st) (?tc, ?st) ?begun" using snap_begin [of "(?tc, ?st)"] by (simp only: fst_conv)
  have r1: "snap_run (?tc, ?st) (?tc, ?later) ?once" by (rule snap_conn [OF act(1) [OF r0 visiting(1)] step])
  have run: "snap_run (?tc, ?st) (?tc, ?later) ?fin"
    unfolding s by (rule act(2) [OF act(2) [OF act(2) [OF r1 visiting(2)] visiting(3)] visiting(4)])
  have fin: "to_visit ?fin = []" "mget_or zero2 (snap_out ?fin) ''7'' = (5, 0)"
    unfolding s pcs(5) by (simp_all add: mget_or_def)
  have "mget_or zero2 (SnapshotDelta ?tc (CommitSnapshot (snap_out ?fin) ?tc ?later)) ''7'' = (9, 0)"
    unfolding s pcs(5) by code_simp
  with concurrent_snapshot_counts_once [OF inv run fin(1) rtranclp.rtrancl_refl, of "''7''"] run fin
  show ?thesis unfolding Let_def by blast
qed

section \<open>Goroutines that get a counter\<close>

text \<open>
  Where a call of \<open>GetCounter\<close> is: before its \<open>Load\<close>, between the allocation of \<open>s\<close> and
  \<open>LoadOrStore\<close>, or returned with a pointer. \<open>get_action\<close> is the next of its atomic actions.
\<close>

datatype get_pc = GetLoad | GetStore nat | GetDone nat

fun get_action :: "string \<Rightarrow> get_pc \<Rightarrow> counters \<Rightarrow> get_pc \<times> counters" where
  "get_action user GetLoad (tc, st) =
     (case mget tc user of
        Some a \<Rightarrow> (GetDone a, (tc, st))
      | None \<Rightarrow>
          (let s = fresh st
           in (GetStore s, (tc, st\<lparr>cell := (cell st)(s := zero_storage), fresh := Suc s\<rparr>))))"
| "get_action user (GetStore s) (tc, st) = (let (v, tc') = LoadOrStore user s tc in (GetDone v, (tc', st)))"
| "get_action user (GetDone a) c = (GetDone a, c)"

lemma get_alone:
  "(case get_action user GetLoad (tc, st) of (pc, c) \<Rightarrow> get_action user pc c)
   = (case GetCounter user tc st of (a, tc', st') \<Rightarrow> (GetDone a, (tc', st')))"
  by (simp add: GetCounter_def Let_def split: option.split prod.split)

text \<open>Any number of calls, each for its user, interleaved with each other and with the connections.\<close>

inductive gets_run :: "counters \<Rightarrow> string list \<Rightarrow> counters \<Rightarrow> get_pc list \<Rightarrow> bool" for c0 users where
  gets_begin: "gets_run c0 users c0 (map (\<lambda>_. GetLoad) users)"
| gets_conn: "gets_run c0 users c pcs \<Longrightarrow> traffic_step c c' \<Longrightarrow> gets_run c0 users c' pcs"
| gets_act: "gets_run c0 users c pcs \<Longrightarrow> i < length users \<Longrightarrow> get_action (users ! i) (pcs ! i) c = (pc, c') \<Longrightarrow>
    gets_run c0 users c' (pcs[i := pc])"

fun pc_ok :: "counters \<Rightarrow> string \<Rightarrow> get_pc \<Rightarrow> bool" where
  "pc_ok c user GetLoad = True"
| "pc_ok c user (GetStore s) = (s < fresh (snd c) \<and> s \<notin> snd ` set (fst c))"
| "pc_ok c user (GetDone a) = (mget (fst c) user = Some a)"

definition gets_inv :: "counters \<Rightarrow> string list \<Rightarrow> counters \<Rightarrow> get_pc list \<Rightarrow> bool" where
  "gets_inv c0 users c pcs \<longleftrightarrow>
     length pcs = length users \<and> wf_tc (fst c) (snd c)
     \<and> (\<forall>u a. mget (fst c0) u = Some a \<longrightarrow> mget (fst c) u = Some a)
     \<and> (\<forall>i < length users. pc_ok c (users ! i) (pcs ! i))
     \<and> (\<forall>i < length users. \<forall>j < length users. \<forall>s. pcs ! i = GetStore s \<and> pcs ! j = GetStore s \<longrightarrow> i = j)"

lemma gets_inv_conn:
  assumes "gets_inv c0 users c pcs" and "traffic_step c c'"
  shows "gets_inv c0 users c' pcs"
proof -
  have inv: "wf_tc (fst c) (snd c)" using assms(1) by (simp add: gets_inv_def)
  from assms(2) have "fst c' = fst c \<and> fresh (snd c') = fresh (snd c)
      \<or> (\<exists>user a. GetCounter user (fst c) (snd c) = (a, c'))"
    by (cases rule: traffic_step.cases) (auto simp: add_up_def add_down_def)
  then show ?thesis
  proof
    assume "fst c' = fst c \<and> fresh (snd c') = fresh (snd c)"
    moreover from this have "pc_ok c' u pc = pc_ok c u pc" for u pc by (cases pc) auto
    ultimately show ?thesis using assms(1) inv by (auto simp: gets_inv_def wf_tc_def)
  next
    assume "\<exists>user a. GetCounter user (fst c) (snd c) = (a, c')"
    then obtain user a where get: "GetCounter user (fst c) (snd c) = (a, (fst c', snd c'))" by auto
    note spec = GetCounter_spec [OF inv get]
    have keeps: "mget (fst c) u = Some b \<Longrightarrow> mget (fst c') u = Some b" for u b
      using spec(3) get by (cases "u = user") (auto simp: GetCounter_def)
    have vals: "snd ` set (fst c') \<subseteq> insert (fresh (snd c)) (snd ` set (fst c))"
      using get by (auto simp: GetCounter_def LoadOrStore_def Let_def mput_absent split: option.splits)
    have "pc_ok c u pc \<Longrightarrow> pc_ok c' u pc" for u pc
      using keeps spec(6) vals by (cases pc) (auto dest!: subsetD)
    with assms(1) keeps spec(1) show ?thesis by (auto simp: gets_inv_def)
  qed
qed

text \<open>
  What one action does: the map grows by at most the caller's own storage, the next program counter is
  fine, and a storage waiting to be stored was fresh or is the one that waited.
\<close>

lemma get_action_spec:
  assumes "get_action user pc c = (pc', c')" and "wf_tc (fst c) (snd c)" and "pc_ok c user pc"
  shows "wf_tc (fst c') (snd c')" and "pc_ok c' user pc'"
    and "mget (fst c) u = Some a \<Longrightarrow> mget (fst c') u = Some a"
    and "fresh (snd c) \<le> fresh (snd c')"
    and "b \<in> snd ` set (fst c') \<Longrightarrow> b \<in> snd ` set (fst c) \<or> pc = GetStore b"
    and "pc' = GetStore b \<Longrightarrow> b = fresh (snd c) \<or> pc = GetStore b"
    and "pc = GetStore b \<Longrightarrow> \<exists>v. pc' = GetDone v"
  using assms
  by (cases pc; cases c;
      force simp: LoadOrStore_def Let_def wf_tc_def mput_absent wf_map_snoc mget_append split: option.splits)+

lemma gets_inv_act:
  assumes inv: "gets_inv c0 users c pcs" and i: "i < length users"
    and act: "get_action (users ! i) (pcs ! i) c = (pc, c')"
  shows "gets_inv c0 users c' (pcs[i := pc])"
proof -
  from inv have wf: "wf_tc (fst c) (snd c)" and ok: "\<And>j. j < length users \<Longrightarrow> pc_ok c (users ! j) (pcs ! j)"
    and len: "length pcs = length users"
    and old: "\<And>u a. mget (fst c0) u = Some a \<Longrightarrow> mget (fst c) u = Some a"
    and own: "\<And>j k s. j < length users \<Longrightarrow> k < length users \<Longrightarrow> pcs ! j = GetStore s \<Longrightarrow> pcs ! k = GetStore s \<Longrightarrow> j = k"
    by (auto simp: gets_inv_def)
  note spec = get_action_spec [OF act wf ok [OF i]]
  have low: "s < fresh (snd c)" if "j < length users" "pcs ! j = GetStore s" for j s
    using ok [OF that(1)] that(2) by simp
  have "pc_ok c' (users ! j) (pcs[i := pc] ! j)" if j: "j < length users" for j
  proof (cases "j = i")
    case True
    with spec(2) j len show ?thesis by simp
  next
    case False
    have "pc_ok c' (users ! j) (pcs ! j)"
    proof (cases "pcs ! j")
      case (GetStore s)
      then have "pcs ! i \<noteq> GetStore s" using own [OF j i] False by blast
      then show ?thesis using ok [OF j] GetStore spec(4) spec(5) [of s] by auto
    qed (use ok [OF j] spec(3) in auto)
    with False show ?thesis by simp
  qed
  moreover have "j = k" if jk: "j < length users" "k < length users"
    "pcs[i := pc] ! j = GetStore s" "pcs[i := pc] ! k = GetStore s" for j k s
  proof -
    have new: "n < length users \<Longrightarrow> n \<noteq> i \<Longrightarrow> pcs ! n = GetStore s \<Longrightarrow> pc \<noteq> GetStore s" for n
      using low [of n s] spec(6) [of s] own [OF _ i, of n s] by auto
    show ?thesis
      using jk i own [of j k s] new [of j] new [of k] len by (auto simp: nth_list_update split: if_splits)
  qed
  ultimately show ?thesis
    using spec(1,3) old len by (auto simp: gets_inv_def)
qed

lemma gets_run_inv:
  "gets_run c0 users c pcs \<Longrightarrow> wf_tc (fst c0) (snd c0) \<Longrightarrow> gets_inv c0 users c pcs"
proof (induction rule: gets_run.induct)
  case gets_begin
  then show ?case by (auto simp: gets_inv_def)
qed (auto intro: gets_inv_conn gets_inv_act)

text \<open>
  C6: However concurrent calls of \<open>GetCounter\<close> and connections interleave, every call that has
  returned for a user holds the one storage the map has for that user, so no two connections of a user
  ever count into different storages, the map keeps one storage for each user, and the counters that
  were there stay the same.
\<close>

theorem GetCounter_one_storage:
  assumes "wf_tc tc st" and "gets_run (tc, st) users (tc', st') pcs"
    and "i < length users" and "pcs ! i = GetDone a"
  shows "mget tc' (users ! i) = Some a \<and> wf_tc tc' st'
    \<and> (mget tc u = Some b \<longrightarrow> mget tc' u = Some b)
    \<and> (j < length users \<and> pcs ! j = GetDone a' \<longrightarrow> (a' = a \<longleftrightarrow> users ! j = users ! i))"
proof -
  from gets_run_inv [OF assms(2)] assms(1) have inv: "gets_inv (tc, st) users (tc', st') pcs" by simp
  then have held: "n < length users \<Longrightarrow> pcs ! n = GetDone a \<Longrightarrow> mget tc' (users ! n) = Some a" for n a
    by (fastforce simp: gets_inv_def dest!: spec [of _ n])
  have wf: "wf_tc tc' st'" using inv by (simp add: gets_inv_def)
  have "a' = a \<longleftrightarrow> users ! j = users ! i" if "j < length users \<and> pcs ! j = GetDone a'"
    using held [of j a'] held [OF assms(3,4)] that wf_tc_inj [OF wf, of "users ! j" a "users ! i"] by auto
  with held [OF assms(3,4)] wf inv show ?thesis by (auto simp: gets_inv_def)
qed

text \<open>Two calls for one user that both miss the map: the second to store gets the first one's storage.\<close>

theorem GetCounter_one_storage_witness:
  "\<exists>st'. gets_run (NewTrafficCounter, empty_store) [''7'', ''7''] ([(''7'', 1)], st') [GetDone 1, GetDone 1]
    \<and> mget [(''7'', 1)] ''7'' = Some (1 :: nat) \<and> wf_tc [(''7'', 1)] st'"
proof -
  let ?two = "[''7'', ''7'']"
  let ?put = "\<lambda>st. st\<lparr>cell := (cell st)(fresh st := zero_storage), fresh := Suc (fresh st)\<rparr>"
  let ?after = "?put (?put empty_store)"
  have "gets_run ([], empty_store) ?two ([], empty_store) [GetLoad, GetLoad]"
    using gets_begin [of "([], empty_store)" ?two] by simp
  from gets_act [OF this, of 0 "GetStore 0" "([], ?put empty_store)"]
  have "gets_run ([], empty_store) ?two ([], ?put empty_store) [GetStore 0, GetLoad]"
    by (simp add: Let_def empty_store_def)
  from gets_act [OF this, of 1 "GetStore 1" "([], ?after)"]
  have "gets_run ([], empty_store) ?two ([], ?after) [GetStore 0, GetStore 1]"
    by (simp add: Let_def empty_store_def)
  from gets_act [OF this, of 1 "GetDone 1" "([(''7'', 1)], ?after)"]
  have "gets_run ([], empty_store) ?two ([(''7'', 1)], ?after) [GetStore 0, GetDone 1]"
    by (simp add: Let_def LoadOrStore_def mput_absent)
  from gets_act [OF this, of 0 "GetDone 1" "([(''7'', 1)], ?after)"]
  have run: "gets_run ([], empty_store) ?two ([(''7'', 1)], ?after) [GetDone 1, GetDone 1]"
    by (simp add: Let_def LoadOrStore_def)
  have wf: "wf_tc [] empty_store" by (simp add: wf_tc_def)
  from GetCounter_one_storage [OF wf run, of 0 1] run show ?thesis
    by (auto simp: NewTrafficCounter_def)
qed

end
