(* ===== verification/Conn.thy ===== *)
theory Conn
  imports Traffic_Counter Rate_Limiter
begin

text \<open>
  The connection wrappers: \<open>ConnCounter\<close>, \<open>PacketConnCounter\<close> and the counting read waiters of
  \<open>counter/counter.go\<close>, \<open>RateLimitedConn\<close> and \<open>RateLimitedPacketConn\<close> of
  \<open>counter/ratelimit.go\<close>.

  A connection is the record of its methods over a state \<open>'w\<close> of the process (the wire, the
  counters, the limiters), which is how Go calls it: through its interface. A wrapper is a
  function from such records to such records. Byte slices are strings; a \<open>Read\<close> into a buffer of
  length \<open>k\<close> and a \<open>ReadBuffer\<close> return the number of bytes they delivered. The connection at the
  bottom belongs to sing-box and is a parameter. A counter is reached through \<open>add_up\<close> and
  \<open>add_down\<close> on the process state, a limiter through its \<open>Wait\<close> and \<open>Closed\<close> on it; a nil limiter
  is \<open>None\<close>.
\<close>

section \<open>Interfaces\<close>

record 'w conn =
  Read :: "int \<Rightarrow> 'w \<Rightarrow> (int \<times> error option) \<times> 'w"
  Write :: "string \<Rightarrow> 'w \<Rightarrow> (int \<times> error option) \<times> 'w"
  ReadBuffer :: "'w \<Rightarrow> (int \<times> error option) \<times> 'w"
  WriteBuffer :: "string \<Rightarrow> 'w \<Rightarrow> error option \<times> 'w"
  CloseConn :: "'w \<Rightarrow> error option \<times> 'w"

record 'w packet_conn =
  ReadPacket :: "'w \<Rightarrow> (int \<times> string \<times> error option) \<times> 'w"
  WritePacket :: "string \<Rightarrow> string \<Rightarrow> 'w \<Rightarrow> error option \<times> 'w"
  ClosePacketConn :: "'w \<Rightarrow> error option \<times> 'w"

text \<open>The storage a counting wrapper points to and its activity callback, nil or not.\<close>

record 'w counting =
  up_add :: "i64 \<Rightarrow> 'w \<Rightarrow> 'w"
  down_add :: "i64 \<Rightarrow> 'w \<Rightarrow> 'w"
  activity :: "(i64 \<Rightarrow> 'w \<Rightarrow> 'w) option"

text \<open>A limiter as a wrapper sees it.\<close>

record 'w limiting =
  wait_for :: "int \<Rightarrow> 'w \<Rightarrow> error option \<times> 'w"
  is_closed :: "'w \<Rightarrow> bool"

section \<open>ConnCounter\<close>

definition countUp :: "'w counting \<Rightarrow> i64 \<Rightarrow> 'w \<Rightarrow> 'w" where
  "countUp c n w =
     (if sint n \<le> 0 then w
      else up_add c n (case activity c of None \<Rightarrow> w | Some act \<Rightarrow> act n w))"

definition countDown :: "'w counting \<Rightarrow> i64 \<Rightarrow> 'w \<Rightarrow> 'w" where
  "countDown c n w =
     (if sint n \<le> 0 then w
      else down_add c n (case activity c of None \<Rightarrow> w | Some act \<Rightarrow> act n w))"

definition counter_Read :: "'w counting \<Rightarrow> 'w conn \<Rightarrow> int \<Rightarrow> 'w \<Rightarrow> (int \<times> error option) \<times> 'w" where
  "counter_Read c inner b w =
     (let ((n, err), w) = Read inner b w;
          w = (if 0 < n then countUp c (word_of_int n) w else w)
      in ((n, err), w))"

definition counter_Write :: "'w counting \<Rightarrow> 'w conn \<Rightarrow> string \<Rightarrow> 'w \<Rightarrow> (int \<times> error option) \<times> 'w" where
  "counter_Write c inner b w =
     (let ((n, err), w) = Write inner b w;
          w = (if 0 < n then countDown c (word_of_int n) w else w)
      in ((n, err), w))"

definition counter_ReadBuffer :: "'w counting \<Rightarrow> 'w conn \<Rightarrow> 'w \<Rightarrow> (int \<times> error option) \<times> 'w" where
  "counter_ReadBuffer c inner w =
     (let ((len, err), w) = ReadBuffer inner w;
          w = (if err = None \<and> 0 < len then countUp c (word_of_int len) w else w)
      in ((len, err), w))"

definition counter_WriteBuffer :: "'w counting \<Rightarrow> 'w conn \<Rightarrow> string \<Rightarrow> 'w \<Rightarrow> error option \<times> 'w" where
  "counter_WriteBuffer c inner buffer w =
     (let n = int (length buffer);
          (err, w) = WriteBuffer inner buffer w;
          w = (if err = None \<and> 0 < n then countDown c (word_of_int n) w else w)
      in (err, w))"

definition NewConnCounterWithActivity :: "'w conn \<Rightarrow> 'w counting \<Rightarrow> 'w conn" where
  "NewConnCounterWithActivity inner c =
     \<lparr>Read = counter_Read c inner, Write = counter_Write c inner,
      ReadBuffer = counter_ReadBuffer c inner, WriteBuffer = counter_WriteBuffer c inner,
      CloseConn = CloseConn inner\<rparr>"

definition NewConnCounter :: "'w conn \<Rightarrow> 'w counting \<Rightarrow> 'w conn" where
  "NewConnCounter inner c = NewConnCounterWithActivity inner (c\<lparr>activity := None\<rparr>)"

text \<open>
  The vectorised and copying paths: \<open>write_vec\<close> is the vectorised writer of the unwrapped
  connection, \<open>copy_op\<close> the \<open>io.Copy\<close> that moves the data, both of packages.
\<close>

definition counter_WriteVectorised ::
  "'w counting \<Rightarrow> (string list \<Rightarrow> 'w \<Rightarrow> error option \<times> 'w) \<Rightarrow> string list \<Rightarrow> 'w \<Rightarrow> error option \<times> 'w" where
  "counter_WriteVectorised c write_vec buffers w =
     (let dataLen = int (sum_list (map length buffers));
          (err, w) = write_vec buffers w;
          w = (if err = None \<and> 0 < dataLen then countDown c (word_of_int dataLen) w else w)
      in (err, w))"

definition counter_ReadFrom ::
  "'w counting \<Rightarrow> ('w \<Rightarrow> (i64 \<times> error option) \<times> 'w) \<Rightarrow> 'w \<Rightarrow> (i64 \<times> error option) \<times> 'w" where
  "counter_ReadFrom c copy_op w =
     (let ((n, err), w) = copy_op w;
          w = (if 0 < sint n then countDown c n w else w)
      in ((n, err), w))"

definition counter_WriteTo ::
  "'w counting \<Rightarrow> ('w \<Rightarrow> (i64 \<times> error option) \<times> 'w) \<Rightarrow> 'w \<Rightarrow> (i64 \<times> error option) \<times> 'w" where
  "counter_WriteTo c copy_op w =
     (let ((n, err), w) = copy_op w;
          w = (if 0 < sint n then countUp c n w else w)
      in ((n, err), w))"

text \<open>
  A counting read waiter: the inner waiter returns the length of a buffer, or nil, and an
  error. The vectorised one returns the lengths of its buffers.
\<close>

definition WaitReadBuffer ::
  "'w counting \<Rightarrow> ('w \<Rightarrow> (int option \<times> error option) \<times> 'w) \<Rightarrow> 'w \<Rightarrow> (int option \<times> error option) \<times> 'w" where
  "WaitReadBuffer c waiter w =
     (let ((buffer, err), w) = waiter w;
          w = (case buffer of
                 Some len \<Rightarrow> if err = None \<and> 0 < len then countUp c (word_of_int len) w else w
               | None \<Rightarrow> w)
      in ((buffer, err), w))"

definition WaitReadBuffers ::
  "'w counting \<Rightarrow> ('w \<Rightarrow> (int list \<times> error option) \<times> 'w) \<Rightarrow> 'w \<Rightarrow> (int list \<times> error option) \<times> 'w" where
  "WaitReadBuffers c waiter w =
     (let ((buffers, err), w) = waiter w;
          dataLen = sum_list buffers;
          w = (if err = None \<and> 0 < dataLen then countUp c (word_of_int dataLen) w else w)
      in ((buffers, err), w))"

text \<open>
  What sing-box's fast paths use instead of \<open>Read\<close> and \<open>Write\<close>: a read waiter, when the unwrapped
  connection has one (\<open>create\<close>), or the unwrapped reader and writer themselves (\<open>unwrap\<close>), with the
  functions to call with the number of bytes moved.
\<close>

definition CreateReadWaiter ::
  "'w counting \<Rightarrow> ('c \<Rightarrow> ('w \<Rightarrow> (int option \<times> error option) \<times> 'w) option) \<Rightarrow> 'c
   \<Rightarrow> ('w \<Rightarrow> (int option \<times> error option) \<times> 'w) option" where
  "CreateReadWaiter c create inner =
     (case create inner of None \<Rightarrow> None | Some readWaiter \<Rightarrow> Some (WaitReadBuffer c readWaiter))"

definition CreateVectorisedReadWaiter ::
  "'w counting \<Rightarrow> ('c \<Rightarrow> ('w \<Rightarrow> (int list \<times> error option) \<times> 'w) option) \<Rightarrow> 'c
   \<Rightarrow> ('w \<Rightarrow> (int list \<times> error option) \<times> 'w) option" where
  "CreateVectorisedReadWaiter c create inner =
     (case create inner of None \<Rightarrow> None | Some readWaiter \<Rightarrow> Some (WaitReadBuffers c readWaiter))"

definition UnwrapReader :: "'w counting \<Rightarrow> ('c \<Rightarrow> 'r) \<Rightarrow> 'c \<Rightarrow> 'r \<times> (i64 \<Rightarrow> 'w \<Rightarrow> 'w) list" where
  "UnwrapReader c unwrap inner = (unwrap inner, [countUp c])"

definition UnwrapWriter :: "'w counting \<Rightarrow> ('c \<Rightarrow> 'r) \<Rightarrow> 'c \<Rightarrow> 'r \<times> (i64 \<Rightarrow> 'w \<Rightarrow> 'w) list" where
  "UnwrapWriter c unwrap inner = (unwrap inner, [countDown c])"

section \<open>PacketConnCounter\<close>

definition packet_countUp :: "'w counting \<Rightarrow> i64 \<Rightarrow> 'w \<Rightarrow> 'w" where
  "packet_countUp p n w =
     (if sint n \<le> 0 then w
      else up_add p n (case activity p of None \<Rightarrow> w | Some act \<Rightarrow> act n w))"

definition packet_countDown :: "'w counting \<Rightarrow> i64 \<Rightarrow> 'w \<Rightarrow> 'w" where
  "packet_countDown p n w =
     (if sint n \<le> 0 then w
      else down_add p n (case activity p of None \<Rightarrow> w | Some act \<Rightarrow> act n w))"

definition WaitReadPacket ::
  "'w counting \<Rightarrow> ('w \<Rightarrow> (int option \<times> string \<times> error option) \<times> 'w) \<Rightarrow> 'w
   \<Rightarrow> (int option \<times> string \<times> error option) \<times> 'w" where
  "WaitReadPacket c waiter w =
     (let ((buffer, destination, err), w) = waiter w;
          w = (case buffer of
                 Some len \<Rightarrow> if err = None \<and> 0 < len then packet_countUp c (word_of_int len) w else w
               | None \<Rightarrow> w)
      in ((buffer, destination, err), w))"

definition packet_counter_ReadPacket ::
  "'w counting \<Rightarrow> 'w packet_conn \<Rightarrow> 'w \<Rightarrow> (int \<times> string \<times> error option) \<times> 'w" where
  "packet_counter_ReadPacket c inner w =
     (let ((len, dest, err), w) = ReadPacket inner w;
          w = (if err = None \<and> 0 < len then packet_countUp c (word_of_int len) w else w)
      in ((len, dest, err), w))"

definition packet_counter_WritePacket ::
  "'w counting \<Rightarrow> 'w packet_conn \<Rightarrow> string \<Rightarrow> string \<Rightarrow> 'w \<Rightarrow> error option \<times> 'w" where
  "packet_counter_WritePacket c inner buff dest w =
     (let n = int (length buff);
          (err, w) = WritePacket inner buff dest w;
          w = (if err = None \<and> 0 < n then packet_countDown c (word_of_int n) w else w)
      in (err, w))"

definition NewPacketConnCounterWithActivity :: "'w packet_conn \<Rightarrow> 'w counting \<Rightarrow> 'w packet_conn" where
  "NewPacketConnCounterWithActivity inner c =
     \<lparr>ReadPacket = packet_counter_ReadPacket c inner, WritePacket = packet_counter_WritePacket c inner,
      ClosePacketConn = ClosePacketConn inner\<rparr>"

definition NewPacketConnCounter :: "'w packet_conn \<Rightarrow> 'w counting \<Rightarrow> 'w packet_conn" where
  "NewPacketConnCounter inner c = NewPacketConnCounterWithActivity inner (c\<lparr>activity := None\<rparr>)"

definition packet_CreateReadWaiter ::
  "'w counting \<Rightarrow> ('c \<Rightarrow> ('w \<Rightarrow> (int option \<times> string \<times> error option) \<times> 'w) option) \<Rightarrow> 'c
   \<Rightarrow> ('w \<Rightarrow> (int option \<times> string \<times> error option) \<times> 'w) option" where
  "packet_CreateReadWaiter c create inner =
     (case create inner of None \<Rightarrow> None | Some readWaiter \<Rightarrow> Some (WaitReadPacket c readWaiter))"

definition UnwrapPacketReader :: "'w counting \<Rightarrow> ('c \<Rightarrow> 'r) \<Rightarrow> 'c \<Rightarrow> 'r \<times> (i64 \<Rightarrow> 'w \<Rightarrow> 'w) list" where
  "UnwrapPacketReader c unwrap inner = (unwrap inner, [packet_countUp c])"

definition UnwrapPacketWriter :: "'w counting \<Rightarrow> ('c \<Rightarrow> 'r) \<Rightarrow> 'c \<Rightarrow> 'r \<times> (i64 \<Rightarrow> 'w \<Rightarrow> 'w) list" where
  "UnwrapPacketWriter c unwrap inner = (unwrap inner, [packet_countDown c])"

section \<open>RateLimitedConn\<close>

definition limited_Read :: "'w limiting option \<Rightarrow> 'w conn \<Rightarrow> int \<Rightarrow> 'w \<Rightarrow> (int \<times> error option) \<times> 'w" where
  "limited_Read readLimiter inner b w =
     (let readBuf = (if readLimiter \<noteq> None \<and> maxReadChunk < b then maxReadChunk else b);
          ((n, err), w) = Read inner readBuf w
      in case readLimiter of
           None \<Rightarrow> ((n, err), w)
         | Some lim \<Rightarrow>
             if 0 < n then
               (let (waitErr, w) = wait_for lim n w
                in ((n, if waitErr \<noteq> None \<and> err = None then waitErr else err), w))
             else ((n, err), w))"

text \<open>The loop of \<open>Write\<close>: \<open>rest\<close> is \<open>b[total:]\<close>, \<open>tot\<close> is \<open>total\<close>.\<close>

function limited_Write_loop ::
  "'w limiting \<Rightarrow> 'w conn \<Rightarrow> int \<Rightarrow> string \<Rightarrow> 'w \<Rightarrow> (int \<times> error option) \<times> 'w" where
  "limited_Write_loop lim inner tot rest w =
     (if rest = [] then ((tot, None), w)
      else
        (let chunk = take (nat maxWriteChunk) rest
         in case wait_for lim (int (length chunk)) w of
              (Some err, w) \<Rightarrow> ((tot, Some err), w)
            | (None, w) \<Rightarrow>
                (case Write inner chunk w of
                   ((n, Some err), w) \<Rightarrow> ((tot + n, Some err), w)
                 | ((n, None), w) \<Rightarrow>
                     if n \<noteq> int (length chunk) then ((tot + n, Some ErrShortWrite), w)
                     else limited_Write_loop lim inner (tot + n) (drop (length chunk) rest) w)))"
  by pat_completeness auto
termination
  by (relation "measure (\<lambda>(lim, inner, tot, rest, w). length rest)")
    (auto simp: maxWriteChunk_def)

declare limited_Write_loop.simps [simp del]

definition limited_Write :: "'w limiting option \<Rightarrow> 'w conn \<Rightarrow> string \<Rightarrow> 'w \<Rightarrow> (int \<times> error option) \<times> 'w" where
  "limited_Write writeLimiter inner b w =
     (case writeLimiter of
        None \<Rightarrow> Write inner b w
      | Some lim \<Rightarrow> if b = [] then Write inner b w else limited_Write_loop lim inner 0 b w)"

definition limited_ReadBuffer :: "'w limiting option \<Rightarrow> 'w conn \<Rightarrow> 'w \<Rightarrow> (int \<times> error option) \<times> 'w" where
  "limited_ReadBuffer readLimiter inner w =
     (let ((len, err), w) = ReadBuffer inner w
      in case readLimiter of
           None \<Rightarrow> ((len, err), w)
         | Some lim \<Rightarrow>
             if err = None \<and> 0 < len then (let (err, w) = wait_for lim len w in ((len, err), w))
             else ((len, err), w))"

function limited_WriteBuffer_loop ::
  "'w limiting \<Rightarrow> 'w conn \<Rightarrow> string \<Rightarrow> 'w \<Rightarrow> error option \<times> 'w" where
  "limited_WriteBuffer_loop lim inner buffer w =
     (if nat maxWriteChunk < length buffer then
        (case wait_for lim maxWriteChunk w of
           (Some err, w) \<Rightarrow> (Some err, w)
         | (None, w) \<Rightarrow>
             (case Write inner (take (nat maxWriteChunk) buffer) w of
                ((_, Some err), w) \<Rightarrow> (Some err, w)
              | ((_, None), w) \<Rightarrow>
                  limited_WriteBuffer_loop lim inner (drop (nat maxWriteChunk) buffer) w))
      else if buffer \<noteq> [] then
        (case wait_for lim (int (length buffer)) w of
           (Some err, w) \<Rightarrow> (Some err, w)
         | (None, w) \<Rightarrow> WriteBuffer inner buffer w)
      else (None, w))"
  by pat_completeness auto
termination
  by (relation "measure (\<lambda>(lim, inner, buffer, w). length buffer)")
    (auto simp: maxWriteChunk_def)

declare limited_WriteBuffer_loop.simps [simp del]

definition limited_WriteBuffer :: "'w limiting option \<Rightarrow> 'w conn \<Rightarrow> string \<Rightarrow> 'w \<Rightarrow> error option \<times> 'w" where
  "limited_WriteBuffer writeLimiter inner buffer w =
     (case writeLimiter of
        None \<Rightarrow> WriteBuffer inner buffer w
      | Some lim \<Rightarrow>
          if buffer = [] then WriteBuffer inner buffer w
          else limited_WriteBuffer_loop lim inner buffer w)"

definition NewRateLimitedConn :: "'w conn \<Rightarrow> 'w limiting option \<Rightarrow> 'w limiting option \<Rightarrow> 'w conn" where
  "NewRateLimitedConn inner readLimiter writeLimiter =
     (if readLimiter = None \<and> writeLimiter = None then inner
      else \<lparr>Read = limited_Read readLimiter inner, Write = limited_Write writeLimiter inner,
            ReadBuffer = limited_ReadBuffer readLimiter inner,
            WriteBuffer = limited_WriteBuffer writeLimiter inner, CloseConn = CloseConn inner\<rparr>)"

section \<open>RateLimitedPacketConn\<close>

definition limited_ReadPacket ::
  "'w limiting option \<Rightarrow> 'w packet_conn \<Rightarrow> 'w \<Rightarrow> (int \<times> string \<times> error option) \<times> 'w" where
  "limited_ReadPacket readLimiter inner w =
     (let ((len, dest, err), w) = ReadPacket inner w
      in case readLimiter of
           None \<Rightarrow> ((len, dest, err), w)
         | Some lim \<Rightarrow>
             if err = None \<and> 0 < len \<and> is_closed lim w
             then ((len, dest, Some ErrLimiterClosed), w) else ((len, dest, err), w))"

definition limited_WritePacket ::
  "'w limiting option \<Rightarrow> 'w packet_conn \<Rightarrow> string \<Rightarrow> string \<Rightarrow> 'w \<Rightarrow> error option \<times> 'w" where
  "limited_WritePacket writeLimiter inner buff dest w =
     (case writeLimiter of
        None \<Rightarrow> WritePacket inner buff dest w
      | Some lim \<Rightarrow>
          if buff \<noteq> [] \<and> is_closed lim w then (Some ErrLimiterClosed, w)
          else WritePacket inner buff dest w)"

definition NewRateLimitedPacketConn ::
  "'w packet_conn \<Rightarrow> 'w limiting option \<Rightarrow> 'w limiting option \<Rightarrow> 'w packet_conn" where
  "NewRateLimitedPacketConn inner readLimiter writeLimiter =
     (if readLimiter = None \<and> writeLimiter = None then inner
      else \<lparr>ReadPacket = limited_ReadPacket readLimiter inner,
            WritePacket = limited_WritePacket writeLimiter inner, ClosePacketConn = ClosePacketConn inner\<rparr>)"

section \<open>What a writer promises\<close>

text \<open>
  \<open>io.Writer\<close>'s documented contract, with the bytes that reached the wire (\<open>sent\<close>) and a byte
  counter (\<open>cnt\<close>) that moves by \<open>f\<close> per byte written: \<open>n\<close> bytes, a prefix of the argument,
  are written, and an error is returned when that is not all of it. A slice is shorter than
  \<open>2^63\<close> bytes. A connection of sing-box
  meets it with \<open>f = 0\<close>.
\<close>

definition wrote ::
  "('w \<Rightarrow> string) \<Rightarrow> ('w \<Rightarrow> i64) \<Rightarrow> i64 \<Rightarrow> string \<Rightarrow> 'w \<Rightarrow> int \<Rightarrow> error option \<Rightarrow> 'w \<Rightarrow> bool" where
  "wrote sent cnt f b w n e w' \<longleftrightarrow>
     0 \<le> n \<and> n \<le> int (length b) \<and> sent w' = sent w @ take (nat n) b
     \<and> cnt w' = cnt w + f * word_of_int n \<and> (n \<noteq> int (length b) \<longrightarrow> e \<noteq> None)"

definition writer_spec :: "('w \<Rightarrow> string) \<Rightarrow> ('w \<Rightarrow> i64) \<Rightarrow> i64 \<Rightarrow> 'w conn \<Rightarrow> bool" where
  "writer_spec sent cnt f c \<longleftrightarrow>
     (\<forall>b w n e w'. int (length b) < 2 ^ 63 \<longrightarrow> Write c b w = ((n, e), w') \<longrightarrow>
        wrote sent cnt f b w n e w')"

definition counting_spec :: "('w \<Rightarrow> 'x) \<Rightarrow> ('w \<Rightarrow> i64) \<Rightarrow> 'w counting \<Rightarrow> bool" where
  "counting_spec sent cnt c \<longleftrightarrow>
     (\<forall>n w. sent (down_add c n w) = sent w \<and> cnt (down_add c n w) = cnt w + n)
     \<and> (\<forall>act n w. activity c = Some act \<longrightarrow> sent (act n w) = sent w \<and> cnt (act n w) = cnt w)"

definition waiting_spec :: "('w \<Rightarrow> 'x) \<Rightarrow> ('w \<Rightarrow> i64) \<Rightarrow> 'w limiting option \<Rightarrow> bool" where
  "waiting_spec sent cnt l \<longleftrightarrow>
     (\<forall>lim n w. l = Some lim \<longrightarrow> sent (snd (wait_for lim n w)) = sent w \<and> cnt (snd (wait_for lim n w)) = cnt w)"

lemma wrote_nothing: "sent w' = sent w \<Longrightarrow> cnt w' = cnt w \<Longrightarrow> b \<noteq> [] \<longrightarrow> e \<noteq> None \<Longrightarrow> wrote sent cnt f b w 0 e w'"
  by (auto simp: wrote_def)

lemma wrote_from: "sent w1 = sent w \<Longrightarrow> cnt w1 = cnt w \<Longrightarrow> wrote sent cnt f b w1 n e w' \<Longrightarrow> wrote sent cnt f b w n e w'"
  by (simp add: wrote_def)

lemma wrote_prefix: "wrote sent cnt f a w n e w' \<Longrightarrow> wrote sent cnt f (a @ b) w n (Some err) w'"
  by (auto simp: wrote_def)

lemma wrote_append:
  "wrote sent cnt f a w (int (length a)) e1 w1 \<Longrightarrow> wrote sent cnt f b w1 n e w' \<Longrightarrow>
   wrote sent cnt f (a @ b) w (int (length a) + n) e w'"
  by (auto simp: wrote_def nat_add_distrib algebra_simps)

lemma sint_of_int: "0 \<le> n \<Longrightarrow> n < 2 ^ 63 \<Longrightarrow> sint (word_of_int n :: i64) = n"
  by (simp add: sint_sbintrunc' signed_take_bit_int_eq_self)

lemma countDown_counts:
  assumes "counting_spec sent cnt c" and "0 \<le> n" and "n < 2 ^ 63"
  shows "sent (countDown c (word_of_int n) w) = sent w"
    and "cnt (countDown c (word_of_int n) w) = cnt w + word_of_int n"
  using assms by (auto simp: countDown_def counting_spec_def sint_of_int split: option.splits)

section \<open>The wrappers keep the contract\<close>

lemma counter_writer:
  assumes "writer_spec sent cnt 0 inner" and "counting_spec sent cnt c"
  shows "writer_spec sent cnt 1 (NewConnCounterWithActivity inner c)"
  unfolding writer_spec_def
proof (intro allI impI)
  fix b w n e w'
  assume len: "int (length b) < 2 ^ 63"
    and "Write (NewConnCounterWithActivity inner c) b w = ((n, e), w')"
  then obtain w1 where w1: "Write inner b w = ((n, e), w1)"
    and w': "w' = (if 0 < n then countDown c (word_of_int n) w1 else w1)"
    by (auto simp: NewConnCounterWithActivity_def counter_Write_def split: prod.splits)
  have base: "wrote sent cnt 0 b w n e w1" using assms(1) len w1 by (simp add: writer_spec_def)
  then show "wrote sent cnt 1 b w n e w'"
    using countDown_counts [OF assms(2), of n w1] len w' by (auto simp: wrote_def)
qed

lemma limited_Write_loop_Nil [simp]: "limited_Write_loop lim inner tot [] w = ((tot, None), w)"
  by (simp add: limited_Write_loop.simps [of lim inner tot "[]" w])

lemma limited_Write_loop_spec:
  assumes "writer_spec sent cnt f inner" and "waiting_spec sent cnt (Some lim)"
    and "limited_Write_loop lim inner tot rest w = ((n, e), w')" and "int (length rest) < 2 ^ 63"
  shows "wrote sent cnt f rest w (n - tot) e w'"
  using assms(3,4)
proof (induction "length rest" arbitrary: tot rest w rule: less_induct)
  case less
  let ?chunk = "take (nat maxWriteChunk) rest" and ?rest = "drop (length (take (nat maxWriteChunk) rest)) rest"
  have whole: "?chunk @ ?rest = rest" by (simp add: min_def)
  obtain we w1 where w1: "wait_for lim (int (length ?chunk)) w = (we, w1)" by fastforce
  have same: "sent w1 = sent w" "cnt w1 = cnt w"
    using assms(2) w1 unfolding waiting_spec_def by (metis snd_conv)+
  obtain n1 e1 w2 where w2: "Write inner ?chunk w1 = ((n1, e1), w2)" by (metis prod.exhaust)
  have "int (length ?chunk) < 2 ^ 63" using less.prems(2) by auto
  with assms(1) w2 same have chunk: "wrote sent cnt f ?chunk w n1 e1 w2"
    by (auto simp: writer_spec_def intro: wrote_from)
  note step = limited_Write_loop.simps [of lim inner tot rest w]
  consider "rest = []" | "rest \<noteq> []" "we \<noteq> None"
    | "rest \<noteq> []" "we = None" "e1 \<noteq> None \<or> n1 \<noteq> int (length ?chunk)"
    | "rest \<noteq> []" "we = None" "e1 = None" "n1 = int (length ?chunk)"
    by blast
  then show ?case
  proof cases
    case 1
    with less.prems show ?thesis by (auto intro: wrote_nothing)
  next
    case 2
    with less.prems w1 obtain y where "n = tot" "e = Some y" "w' = w1" by (auto simp: step Let_def)
    with same show ?thesis by (auto intro: wrote_nothing)
  next
    case 3
    with less.prems w1 w2 obtain err where "n - tot = n1" "e = Some err" "w' = w2"
      by (auto simp: step Let_def split: option.splits if_splits)
    with chunk show ?thesis using wrote_prefix [of sent cnt f ?chunk w n1 e1 w2 ?rest] whole by simp
  next
    case 4
    then have loop: "limited_Write_loop lim inner (tot + n1) ?rest w2 = ((n, e), w')"
      using less.prems(1) w1 w2 by (simp add: step Let_def)
    have "length ?rest < length rest" using 4(1) by (simp add: maxWriteChunk_def)
    with less.hyps loop less.prems(2) have "wrote sent cnt f ?rest w2 (n - (tot + n1)) e w'" by simp
    moreover have "wrote sent cnt f ?chunk w (int (length ?chunk)) e1 w2" using chunk 4(4) by simp
    ultimately have "wrote sent cnt f (?chunk @ ?rest) w (int (length ?chunk) + (n - (tot + n1))) e w'"
      by (rule wrote_append [rotated])
    with whole 4(4) show ?thesis by simp
  qed
qed

lemma limited_writer:
  assumes "writer_spec sent cnt f inner" and "waiting_spec sent cnt wl"
  shows "writer_spec sent cnt f (NewRateLimitedConn inner rl wl)"
  unfolding writer_spec_def
proof (intro allI impI)
  fix b w n e w'
  assume len: "int (length b) < 2 ^ 63" and wr: "Write (NewRateLimitedConn inner rl wl) b w = ((n, e), w')"
  show "wrote sent cnt f b w n e w'"
  proof (cases "wl = None \<or> b = []")
    case True
    with wr have "Write inner b w = ((n, e), w')"
      by (auto simp: NewRateLimitedConn_def limited_Write_def split: option.splits if_splits)
    with assms(1) len show ?thesis by (simp add: writer_spec_def)
  next
    case False
    then obtain lim where lim: "wl = Some lim" and "b \<noteq> []" by (cases wl) auto
    with wr have "limited_Write_loop lim inner 0 b w = ((n, e), w')"
      by (simp add: NewRateLimitedConn_def limited_Write_def)
    from limited_Write_loop_spec [OF assms(1) _ this len] assms(2) lim show ?thesis by simp
  qed
qed

text \<open>
  The same for readers: \<open>taken\<close> counts the bytes taken off the wire, \<open>f\<close> is what the byte counter moves
  per byte delivered.
\<close>

definition reader_spec :: "('w \<Rightarrow> int) \<Rightarrow> ('w \<Rightarrow> i64) \<Rightarrow> i64 \<Rightarrow> 'w conn \<Rightarrow> bool" where
  "reader_spec taken cnt f c \<longleftrightarrow>
     (\<forall>b w n e w'. 0 \<le> b \<longrightarrow> b < 2 ^ 63 \<longrightarrow> Read c b w = ((n, e), w') \<longrightarrow>
        0 \<le> n \<and> n \<le> b \<and> taken w' = taken w + n \<and> cnt w' = cnt w + f * word_of_int n)"

definition counting_up_spec :: "('w \<Rightarrow> 'x) \<Rightarrow> ('w \<Rightarrow> i64) \<Rightarrow> 'w counting \<Rightarrow> bool" where
  "counting_up_spec taken cnt c \<longleftrightarrow>
     (\<forall>n w. taken (up_add c n w) = taken w \<and> cnt (up_add c n w) = cnt w + n)
     \<and> (\<forall>act n w. activity c = Some act \<longrightarrow> taken (act n w) = taken w \<and> cnt (act n w) = cnt w)"

lemma countUp_counts:
  assumes "counting_up_spec taken cnt c" and "0 \<le> n" and "n < 2 ^ 63"
  shows "taken (countUp c (word_of_int n) w) = taken w"
    and "cnt (countUp c (word_of_int n) w) = cnt w + word_of_int n"
  using assms by (auto simp: countUp_def counting_up_spec_def sint_of_int split: option.splits)

lemma counter_reader:
  assumes "reader_spec taken cnt 0 inner" and "counting_up_spec taken cnt c"
  shows "reader_spec taken cnt 1 (NewConnCounterWithActivity inner c)"
  unfolding reader_spec_def
proof (intro allI impI)
  fix b w n e w'
  assume b: "0 \<le> b" "b < 2 ^ 63" and "Read (NewConnCounterWithActivity inner c) b w = ((n, e), w')"
  then obtain w1 where w1: "Read inner b w = ((n, e), w1)"
    and w': "w' = (if 0 < n then countUp c (word_of_int n) w1 else w1)"
    by (auto simp: NewConnCounterWithActivity_def counter_Read_def split: prod.splits)
  have "0 \<le> n \<and> n \<le> b \<and> taken w1 = taken w + n \<and> cnt w1 = cnt w"
    using assms(1) [unfolded reader_spec_def, rule_format, OF b w1] by simp
  moreover have "taken w' = taken w1 \<and> cnt w' = cnt w1 + word_of_int n"
  proof (cases "0 < n")
    case True
    with calculation b(2) w' countUp_counts [OF assms(2), of n w1] show ?thesis by simp
  next
    case False
    with calculation have "n = 0" by simp
    with w' show ?thesis by simp
  qed
  ultimately show "0 \<le> n \<and> n \<le> b \<and> taken w' = taken w + n \<and> cnt w' = cnt w + 1 * word_of_int n"
    by simp
qed

lemma limited_reader:
  assumes "reader_spec taken cnt f inner" and "waiting_spec taken cnt rl"
  shows "reader_spec taken cnt f (NewRateLimitedConn inner rl wl)"
  unfolding reader_spec_def
proof (intro allI impI)
  fix b w n e w'
  assume b: "0 \<le> b" "b < 2 ^ 63" and rd: "Read (NewRateLimitedConn inner rl wl) b w = ((n, e), w')"
  show "0 \<le> n \<and> n \<le> b \<and> taken w' = taken w + n \<and> cnt w' = cnt w + f * word_of_int n"
  proof (cases rl)
    case None
    with rd have "Read inner b w = ((n, e), w')"
      by (auto simp: NewRateLimitedConn_def limited_Read_def split: option.splits if_splits prod.splits)
    with assms(1) [unfolded reader_spec_def, rule_format, OF b] show ?thesis by blast
  next
    case (Some lim)
    let ?k = "if maxReadChunk < b then maxReadChunk else b"
    obtain n1 e1 w1 where w1: "Read inner ?k w = ((n1, e1), w1)" by (metis prod.exhaust)
    have "0 \<le> ?k" "?k < 2 ^ 63" "?k \<le> b" using b by (auto simp: maxReadChunk_def)
    with w1 have "0 \<le> n1 \<and> n1 \<le> ?k \<and> taken w1 = taken w + n1 \<and> cnt w1 = cnt w + f * word_of_int n1"
      using assms(1) [unfolded reader_spec_def, rule_format, of ?k] by blast
    moreover have "n = n1" "w' = w1 \<or> w' = snd (wait_for lim n1 w1)"
      using rd w1 Some by (auto simp: NewRateLimitedConn_def limited_Read_def split: if_splits prod.splits)
    ultimately show ?thesis
      using assms(2) Some \<open>?k \<le> b\<close> unfolding waiting_spec_def by auto
  qed
qed

text \<open>
  The fast paths count what \<open>Read\<close> and \<open>Write\<close> count: moving bytes over the unwrapped connection and
  calling the count functions with their number is a \<open>Read\<close> (a \<open>Write\<close>) of the counting connection.
\<close>

definition call_counts :: "(i64 \<Rightarrow> 'w \<Rightarrow> 'w) list \<Rightarrow> i64 \<Rightarrow> 'w \<Rightarrow> 'w" where
  "call_counts fs n w = fold (\<lambda>f. f n) fs w"

lemma unwrapped_reads_count:
  assumes "UnwrapReader c unwrap inner = (reader, counts)" and "unwrap inner = inner"
    and "Read reader b w = ((n, e), w1)" and "0 \<le> n" and "n < 2 ^ 63"
  shows "Read (NewConnCounterWithActivity inner c) b w = ((n, e), call_counts counts (word_of_int n) w1)"
  using assms
  by (auto simp: UnwrapReader_def NewConnCounterWithActivity_def counter_Read_def call_counts_def countUp_def)

lemma unwrapped_writes_count:
  assumes "UnwrapWriter c unwrap inner = (writer, counts)" and "unwrap inner = inner"
    and "Write writer b w = ((n, e), w1)" and "0 \<le> n" and "n < 2 ^ 63"
  shows "Write (NewConnCounterWithActivity inner c) b w = ((n, e), call_counts counts (word_of_int n) w1)"
  using assms
  by (auto simp: UnwrapWriter_def NewConnCounterWithActivity_def counter_Write_def call_counts_def countDown_def)

section \<open>What a limited write pays\<close>

text \<open>
  \<open>paid\<close> is what a limiter's bucket has handed out: a granted \<open>Wait\<close> charges its argument, a
  refused one at most that, and the wire charges nothing.
\<close>

definition paying_spec :: "('w \<Rightarrow> int) \<Rightarrow> 'w conn \<Rightarrow> 'w limiting \<Rightarrow> bool" where
  "paying_spec paid inner lim \<longleftrightarrow>
     (\<forall>b w n e w'. Write inner b w = ((n, e), w') \<longrightarrow> 0 \<le> n \<and> n \<le> int (length b) \<and> paid w' = paid w)
     \<and> (\<forall>k w e w'. 0 \<le> k \<and> wait_for lim k w = (e, w') \<longrightarrow>
          paid w \<le> paid w' \<and> paid w' \<le> paid w + k \<and> (e = None \<longrightarrow> paid w' = paid w + k))"

definition paid_for :: "('w \<Rightarrow> int) \<Rightarrow> 'w \<Rightarrow> int \<Rightarrow> error option \<Rightarrow> 'w \<Rightarrow> bool" where
  "paid_for paid w n e w' \<longleftrightarrow>
     n \<le> paid w' - paid w \<and> paid w' - paid w \<le> n + maxWriteChunk
     \<and> (e = None \<longrightarrow> paid w' - paid w = n)"

lemma paying_write:
  assumes "paying_spec paid inner lim" and "Write inner b w = ((n, e), w')"
  shows "0 \<le> n \<and> n \<le> int (length b) \<and> paid w' = paid w"
  using assms unfolding paying_spec_def by blast

lemma paying_wait:
  assumes "paying_spec paid inner lim" and "0 \<le> k" and "wait_for lim k w = (e, w')"
  shows "paid w \<le> paid w' \<and> paid w' \<le> paid w + k \<and> (e = None \<longrightarrow> paid w' = paid w + k)"
  using assms unfolding paying_spec_def by blast

lemma limited_Write_loop_pays:
  assumes "paying_spec paid inner lim" and "limited_Write_loop lim inner tot rest w = ((n, e), w')"
  shows "paid_for paid w (n - tot) e w'"
  using assms(2)
proof (induction "length rest" arbitrary: tot rest w rule: less_induct)
  case less
  let ?chunk = "take (nat maxWriteChunk) rest" and ?rest = "drop (length (take (nat maxWriteChunk) rest)) rest"
  have chunk: "int (length ?chunk) \<le> maxWriteChunk" by (simp add: maxWriteChunk_def)
  obtain we w1 where w1: "wait_for lim (int (length ?chunk)) w = (we, w1)" by fastforce
  obtain n1 e1 w2 where w2: "Write inner ?chunk w1 = ((n1, e1), w2)" by (metis prod.exhaust)
  have wait: "paid w \<le> paid w1" "paid w1 \<le> paid w + int (length ?chunk)"
    "we = None \<Longrightarrow> paid w1 = paid w + int (length ?chunk)"
    and wrt: "0 \<le> n1" "n1 \<le> int (length ?chunk)" "paid w2 = paid w1"
    using paying_wait [OF assms(1) _ w1] paying_write [OF assms(1) w2] by auto
  note step = limited_Write_loop.simps [of lim inner tot rest w]
  consider "rest = []" | "rest \<noteq> []" "we \<noteq> None"
    | "rest \<noteq> []" "we = None" "e1 \<noteq> None \<or> n1 \<noteq> int (length ?chunk)"
    | "rest \<noteq> []" "we = None" "e1 = None" "n1 = int (length ?chunk)"
    by blast
  then show ?case
  proof cases
    case 1
    with less.prems show ?thesis by (auto simp: paid_for_def maxWriteChunk_def)
  next
    case 2
    with less.prems w1 wait(1,2) chunk show ?thesis by (auto simp: step Let_def paid_for_def)
  next
    case 3
    with less.prems w1 w2 have "n - tot = n1" "e \<noteq> None" "w' = w2"
      by (auto simp: step Let_def split: option.splits if_splits)
    with wait(3) wrt chunk 3(2) show ?thesis by (auto simp: paid_for_def)
  next
    case 4
    then have loop: "limited_Write_loop lim inner (tot + n1) ?rest w2 = ((n, e), w')"
      using less.prems(1) w1 w2 by (simp add: step Let_def)
    have "length ?rest < length rest" using 4(1) by (simp add: maxWriteChunk_def)
    from less.hyps [OF this loop] wait(3) wrt(3) 4 show ?thesis by (auto simp: paid_for_def)
  qed
qed

section \<open>Properties\<close>

text \<open>
  C10: A limited connection never writes a byte its limiter has not charged: after a \<open>Write\<close> of a
  \<open>RateLimitedConn\<close> the limiter has charged at least the bytes written and at most one 64 KiB
  chunk more, and exactly the bytes written when nil is returned.
\<close>

theorem limited_Write_pays:
  assumes "paying_spec paid inner lim" and "b \<noteq> []"
    and "Write (NewRateLimitedConn inner rl (Some lim)) b w = ((n, e), w')"
  shows "n \<le> paid w' - paid w \<and> paid w' - paid w \<le> n + maxWriteChunk
    \<and> (e = None \<longrightarrow> paid w' - paid w = n)"
proof -
  have "limited_Write_loop lim inner 0 b w = ((n, e), w')"
    using assms(2,3) by (simp add: NewRateLimitedConn_def limited_Write_def)
  from limited_Write_loop_pays [OF assms(1) this] show ?thesis by (simp add: paid_for_def)
qed

text \<open>A wire that takes everything, and a limiter that grants every request: bytes and tokens.\<close>

definition plain_conn :: "(string \<times> int) conn" where
  "plain_conn =
     \<lparr>Read = (\<lambda>b w. ((0, None), w)), Write = (\<lambda>b w. ((int (length b), None), (fst w @ b, snd w))),
      ReadBuffer = (\<lambda>w. ((0, None), w)), WriteBuffer = (\<lambda>b w. (None, (fst w @ b, snd w))),
      CloseConn = (\<lambda>w. (None, w))\<rparr>"

definition granting :: "(string \<times> int) limiting" where
  "granting = \<lparr>wait_for = (\<lambda>k w. (None, (fst w, snd w + k))), is_closed = (\<lambda>w. False)\<rparr>"

lemma granting_pays: "paying_spec snd plain_conn granting"
  by (auto simp: paying_spec_def plain_conn_def granting_def)

theorem limited_Write_pays_witness:
  "Write (NewRateLimitedConn plain_conn None (Some granting)) ''hello'' ([], 0) = ((5, None), (''hello'', 5))
   \<and> (5::int) \<le> snd (''hello'', 5::int) - snd ([] :: string, 0::int)"
proof -
  have w: "Write (NewRateLimitedConn plain_conn None (Some granting)) ''hello'' ([], 0)
      = ((5, None), (''hello'', 5))"
    by (simp add: NewRateLimitedConn_def limited_Write_def plain_conn_def granting_def maxWriteChunk_def
        limited_Write_loop.simps [where rest = "''hello''"])
  from limited_Write_pays [OF granting_pays _ w] w show ?thesis by simp
qed

text \<open>
  C14: Packets are not rate limited: while its limiters are open, a \<open>RateLimitedPacketConn\<close> is the
  connection it wraps, so no packet is delayed, dropped or charged to a bucket, whatever its size
  and the configured rate; closing a limiter is all that stops them.
\<close>

theorem open_limiters_let_packets_pass:
  assumes "\<And>lim w. lim \<in> set_option rl \<union> set_option wl \<Longrightarrow> \<not> is_closed lim w"
  shows "NewRateLimitedPacketConn inner rl wl = (inner :: 'w packet_conn)"
proof -
  have "limited_ReadPacket rl inner = ReadPacket inner" "limited_WritePacket wl inner = WritePacket inner"
    using assms by (auto simp: limited_ReadPacket_def limited_WritePacket_def fun_eq_iff
        split: option.splits prod.splits)
  then show ?thesis by (simp add: NewRateLimitedPacketConn_def)
qed

definition plain_packets :: "(string \<times> int) packet_conn" where
  "plain_packets =
     \<lparr>ReadPacket = (\<lambda>w. ((3, ''peer:53'', None), w)),
      WritePacket = (\<lambda>b dest w. (None, (fst w @ b, snd w))), ClosePacketConn = (\<lambda>w. (None, w))\<rparr>"

theorem open_limiters_let_packets_pass_witness:
  "NewRateLimitedPacketConn plain_packets (Some granting) (Some granting) = plain_packets"
  by (rule open_limiters_let_packets_pass) (auto simp: granting_def)

end
