(* ===== verification/Routed_Connection.thy ===== *)
theory Routed_Connection
  imports Hook Conn
begin

text \<open>
  How a connection of the core becomes one that is tracked, counted and limited:
  \<open>Hook.RoutedConnection\<close> and \<open>RoutedPacketConnection\<close> of \<open>cmd/star1ight-agent/main.go\<close> with
  \<open>prepareSession\<close> and \<open>sourceFromContext\<close>, and \<open>trackedConn\<close>, \<open>trackedPacketConn\<close> of
  \<open>session_tracker.go\<close>.

  The state is the process as a goroutine sees it: the hook, the variables of the prepared
  sessions, and the rest \<open>'n\<close> with the wire. A call of a connection is one step of it. \<open>activate\<close>
  and \<open>closePending\<close> are the two functions of \<open>Prepare\<close> as one goroutine runs them: they are runs
  of the threads of \<open>Session_Prepare\<close>, which has the interleavings.
\<close>

section \<open>Sessions\<close>

definition activate :: "i64 \<Rightarrow> prepared \<times> session_tracker \<Rightarrow> prepared \<times> session_tracker" where
  "activate bytes pt =
     (case pt of (p, t) \<Rightarrow>
        if sint bytes \<le> 0 then (p, t)
        else if p_active p \<or> p_closed p then (p, t)
        else
          (let p = p\<lparr>p_seen := p_seen p + bytes\<rparr>
           in if p_seen p <s sessionActivationBytes then (p, t)
              else if p_active p \<or> p_closed p then (p, t)
              else (let (release, t) = Open (p_inbound p) (p_user p) (p_source p) t
                    in (p\<lparr>p_release := release, p_active := True\<rparr>, t))))"

definition closePending :: "prepared \<times> session_tracker \<Rightarrow> prepared \<times> session_tracker" where
  "closePending pt =
     (case pt of (p, t) \<Rightarrow>
        if p_closed p then (p, t)
        else
          (let releaseActive = p_release p
           in (p\<lparr>p_closed := True, p_release := None\<rparr>,
               case releaseActive of None \<Rightarrow> t | Some o1 \<Rightarrow> snd (run_opened o1 t))))"

text \<open>A thread that runs alone for at most so many actions; ten are enough for either call.\<close>

fun run_alone :: "nat \<Rightarrow> pc \<times> prepared \<times> session_tracker \<Rightarrow> pc \<times> prepared \<times> session_tracker" where
  "run_alone 0 s = s"
| "run_alone (Suc k) (pc, p, t) =
     (case thread_step pc p t of None \<Rightarrow> (pc, p, t) | Some s \<Rightarrow> run_alone k s)"

lemma run_alone_Finished [simp]: "run_alone k (Finished, p, t) = (Finished, p, t)"
  by (cases k) simp_all

lemma activate_runs: "\<not> p_mu p \<Longrightarrow> run_alone 10 (ActBytes n, p, t) = (Finished, activate n (p, t))"
  by (simp add: numeral_eq_Suc activate_def Let_def split: prod.split)

lemma closePending_runs: "\<not> p_mu p \<Longrightarrow> run_alone 10 (CloseSwap, p, t) = (Finished, closePending (p, t))"
  by (simp add: numeral_eq_Suc closePending_def Let_def split: option.split)

section \<open>The process\<close>

record inbound_context =
  ctx_User :: string
  ctx_Inbound :: string
  ctx_Source :: "string option"

record ('l, 'n) process =
  pr_hook :: "'l hook"
  pr_sessions :: "prepared list"
  pr_net :: 'n

text \<open>\<open>fallback\<close> is the remote address of the connection, \<open>None\<close> when nil.\<close>

definition sourceFromContext :: "inbound_context \<Rightarrow> string option \<Rightarrow> string" where
  "sourceFromContext m fallback =
     (case ctx_Source m of
        Some source \<Rightarrow> source
      | None \<Rightarrow> (case fallback of Some addr \<Rightarrow> addr | None \<Rightarrow> []))"

text \<open>The two functions are named by the index of the session's variables, \<open>None\<close> when they do nothing.\<close>

definition prepareSession :: "inbound_context \<Rightarrow> string \<Rightarrow> ('l, 'n) process \<Rightarrow> nat option \<times> ('l, 'n) process" where
  "prepareSession m source s =
     (let h = pr_hook s
      in case sessionTracker h of
           None \<Rightarrow> (None, s)
         | Some t \<Rightarrow>
             (let user = ResolveUser h (ctx_User m)
              in case Prepare (sourceInboundTag (sourceTraffic h) (sourceClassifier h) (ctx_Inbound m) source) user source of
                   None \<Rightarrow> (None, s)
                 | Some p \<Rightarrow> (Some (length (pr_sessions s)), s\<lparr>pr_sessions := pr_sessions s @ [p]\<rparr>)))"

definition on_session ::
  "(prepared \<times> session_tracker \<Rightarrow> prepared \<times> session_tracker) \<Rightarrow> nat option \<Rightarrow> ('l, 'n) process \<Rightarrow> ('l, 'n) process" where
  "on_session f i s =
     (case (i, sessionTracker (pr_hook s)) of
        (Some i, Some t) \<Rightarrow>
          (let (p, t) = f (pr_sessions s ! i, t)
           in s\<lparr>pr_sessions := (pr_sessions s)[i := p], pr_hook := (pr_hook s)\<lparr>sessionTracker := Some t\<rparr>\<rparr>)
      | _ \<Rightarrow> s)"

definition session_activate :: "nat option \<Rightarrow> i64 \<Rightarrow> ('l, 'n) process \<Rightarrow> ('l, 'n) process" where
  "session_activate i bytes = on_session (activate bytes) i"

definition session_release :: "nat option \<Rightarrow> ('l, 'n) process \<Rightarrow> ('l, 'n) process" where
  "session_release = on_session closePending"

text \<open>The storage \<open>a\<close> with the activity callback, and the limiter \<open>k\<close>, as the wrappers use them.\<close>

definition storage_counting :: "nat \<Rightarrow> nat option \<Rightarrow> ('l, 'n) process counting" where
  "storage_counting a i =
     \<lparr>up_add = (\<lambda>n s. s\<lparr>pr_hook := (pr_hook s)\<lparr>storages := add_up n a (storages (pr_hook s))\<rparr>\<rparr>),
      down_add = (\<lambda>n s. s\<lparr>pr_hook := (pr_hook s)\<lparr>storages := add_down n a (storages (pr_hook s))\<rparr>\<rparr>),
      activity = Some (session_activate i)\<rparr>"

definition limiter_waiting ::
  "('l, 't) xrate \<Rightarrow> 't others \<Rightarrow> nat \<Rightarrow> ('l, 'n) process limiting" where
  "limiter_waiting X env k =
     \<lparr>wait_for = (\<lambda>n s.
        let st = limiter_cells (pr_hook s);
            (err, l) = Wait X env n (Some (lim st k))
        in (err, s\<lparr>pr_hook := (pr_hook s)\<lparr>limiter_cells := st\<lparr>lim := (lim st)(k := (case l of Some l \<Rightarrow> l | None \<Rightarrow> lim st k))\<rparr>\<rparr>\<rparr>)),
      is_closed = (\<lambda>s. Closed (Some (lim (limiter_cells (pr_hook s)) k)))\<rparr>"

section \<open>Tracked connections\<close>

text \<open>\<open>release\<close> runs after the close; the other methods are those of the connection inside.\<close>

definition trackedConn :: "'w conn \<Rightarrow> ('w \<Rightarrow> 'w) \<Rightarrow> 'w conn" where
  "trackedConn inner release =
     inner\<lparr>CloseConn := (\<lambda>w. let (err, w) = CloseConn inner w in (err, release w))\<rparr>"

definition trackedPacketConn :: "'w packet_conn \<Rightarrow> ('w \<Rightarrow> 'w) \<Rightarrow> 'w packet_conn" where
  "trackedPacketConn inner release =
     inner\<lparr>ClosePacketConn := (\<lambda>w. let (err, w) = ClosePacketConn inner w in (err, release w))\<rparr>"

section \<open>Routing\<close>

definition RoutedConnection ::
  "('l, 't) xrate \<Rightarrow> 't others \<Rightarrow> bool
   \<Rightarrow> ('l, 'n) process conn \<Rightarrow> string option \<Rightarrow> inbound_context \<Rightarrow> ('l, 'n) process
   \<Rightarrow> ('l, 'n) process conn \<times> ('l, 'n) process" where
  "RoutedConnection X env enabled conn remoteAddr m s =
     (if ctx_User m = [] then (conn, s)
      else
        (let source = sourceFromContext m remoteAddr;
             inboundTag = sourceInboundTag (sourceTraffic (pr_hook s)) (sourceClassifier (pr_hook s)) (ctx_Inbound m) source;
             (session, s) = prepareSession m source s;
             conn = trackedConn conn (session_release session);
             (nodeRead, nodeWrite, userRead, userWrite) = directionalLimiters enabled (pr_hook s) (ctx_User m);
             (a, h) = Hook_GetCounter inboundTag (ResolveUser (pr_hook s) (ctx_User m)) (pr_hook s);
             s = s\<lparr>pr_hook := h\<rparr>;
             conn = NewConnCounterWithActivity conn (storage_counting a session);
             conn = NewRateLimitedConn conn (map_option (limiter_waiting X env) nodeRead) (map_option (limiter_waiting X env) nodeWrite);
             conn = NewRateLimitedConn conn (map_option (limiter_waiting X env) userRead) (map_option (limiter_waiting X env) userWrite)
         in (conn, s)))"

definition RoutedPacketConnection ::
  "('l, 't) xrate \<Rightarrow> 't others \<Rightarrow> bool
   \<Rightarrow> ('l, 'n) process packet_conn \<Rightarrow> inbound_context \<Rightarrow> ('l, 'n) process
   \<Rightarrow> ('l, 'n) process packet_conn \<times> ('l, 'n) process" where
  "RoutedPacketConnection X env enabled conn m s =
     (if ctx_User m = [] then (conn, s)
      else
        (let source = sourceFromContext m None;
             inboundTag = sourceInboundTag (sourceTraffic (pr_hook s)) (sourceClassifier (pr_hook s)) (ctx_Inbound m) source;
             (session, s) = prepareSession m source s;
             conn = trackedPacketConn conn (session_release session);
             (nodeRead, nodeWrite, userRead, userWrite) = directionalLimiters enabled (pr_hook s) (ctx_User m);
             (a, h) = Hook_GetCounter inboundTag (ResolveUser (pr_hook s) (ctx_User m)) (pr_hook s);
             s = s\<lparr>pr_hook := h\<rparr>;
             conn = NewPacketConnCounterWithActivity conn (storage_counting a session);
             conn = NewRateLimitedPacketConn conn (map_option (limiter_waiting X env) nodeRead) (map_option (limiter_waiting X env) nodeWrite);
             conn = NewRateLimitedPacketConn conn (map_option (limiter_waiting X env) userRead) (map_option (limiter_waiting X env) userWrite)
         in (conn, s)))"

section \<open>What the wrappers touch\<close>

definition up_of :: "nat \<Rightarrow> ('l, 'n) process \<Rightarrow> i64" where
  "up_of a s = UpCounter (cell (storages (pr_hook s)) a)"

definition down_of :: "nat \<Rightarrow> ('l, 'n) process \<Rightarrow> i64" where
  "down_of a s = DownCounter (cell (storages (pr_hook s)) a)"

text \<open>The callbacks and the limiters leave the wire and the storages alone.\<close>

lemma on_session_frame [simp]:
  "pr_net (on_session f i s) = pr_net s" "storages (pr_hook (on_session f i s)) = storages (pr_hook s)"
  by (auto simp: on_session_def Let_def split: option.split prod.split)

lemma storage_counts:
  "counting_spec (\<lambda>s. sent (pr_net s)) (down_of a) (storage_counting a i)"
  "counting_up_spec (\<lambda>s. taken (pr_net s)) (up_of a) (storage_counting a i)"
  by (auto simp: counting_spec_def counting_up_spec_def storage_counting_def session_activate_def
      up_of_def down_of_def add_up_def add_down_def)

lemma limiter_waits:
  "waiting_spec (\<lambda>s. sent (pr_net s)) (down_of a) (map_option (limiter_waiting X env) k)"
  "waiting_spec (\<lambda>s. taken (pr_net s)) (up_of a) (map_option (limiter_waiting X env) k)"
  by (auto simp: waiting_spec_def limiter_waiting_def up_of_def down_of_def Let_def split: prod.split)

lemma tracked_specs:
  "writer_spec sent cnt f (trackedConn c release) = writer_spec sent cnt f c"
  "reader_spec taken cnt f (trackedConn c release) = reader_spec taken cnt f c"
  by (simp_all add: writer_spec_def reader_spec_def trackedConn_def)

lemma Hook_GetCounter_entry:
  assumes "Hook_GetCounter tag user h = (a, h')" and "tag \<noteq> []"
  shows "mget (tc_of h' tag) user = Some a"
proof -
  obtain h1 where h1: "Hook.tc tag h = (tag, h1)"
    using assms(2) by (cases "mget (byInbound h) tag") (auto simp: tc_def)
  obtain a' v st where g: "GetCounter user (mget_or NewTrafficCounter (byInbound h1) tag) (storages h1) = (a', v, st)"
    by (metis prod.exhaust)
  with assms h1 have "a' = a" and h': "h' = h1\<lparr>byInbound := mput tag v (byInbound h1), storages := st\<rparr>"
    by (simp_all add: Hook_GetCounter_def)
  moreover have "mget v user = Some a'"
    using g by (auto simp: GetCounter_def LoadOrStore_def Let_def mget_mput split: option.splits)
  ultimately show ?thesis by (simp add: tc_of_def mget_or_mput)
qed

lemma sourceInboundTag_not_Nil [simp]: "sourceInboundTag b c inbound source \<noteq> []"
  by (auto simp: sourceInboundTag_def Let_def)

lemma close_limited [simp]: "CloseConn (NewRateLimitedConn c rl wl) = CloseConn c"
  by (simp add: NewRateLimitedConn_def)

lemma close_counted [simp]: "CloseConn (NewConnCounterWithActivity c k) = CloseConn c"
  by (simp add: NewConnCounterWithActivity_def)

lemma close_tracked [simp]:
  "CloseConn (trackedConn c release) = (\<lambda>w. let (err, w) = CloseConn c w in (err, release w))"
  by (simp add: trackedConn_def)

lemma prepareSession_hook [simp]: "prepareSession m source s = (i, s1) \<Longrightarrow> pr_hook s1 = pr_hook s"
  by (auto simp: prepareSession_def Let_def split: option.splits)

lemma RoutedConnection_parts:
  assumes "RoutedConnection X env enabled conn remote m s = (conn', s')" and "ctx_User m \<noteq> []"
  obtains a i nr nw ur uw where
    "mget (tc_of (pr_hook s') (sourceInboundTag (sourceTraffic (pr_hook s)) (sourceClassifier (pr_hook s)) (ctx_Inbound m)
        (sourceFromContext m remote))) (ResolveUser (pr_hook s) (ctx_User m)) = Some a"
    "prepareSession m (sourceFromContext m remote) s = (i, s'\<lparr>pr_hook := pr_hook s\<rparr>)"
    "conn' = NewRateLimitedConn (NewRateLimitedConn
        (NewConnCounterWithActivity (trackedConn conn (session_release i)) (storage_counting a i))
        (map_option (limiter_waiting X env) nr) (map_option (limiter_waiting X env) nw))
        (map_option (limiter_waiting X env) ur) (map_option (limiter_waiting X env) uw)"
proof -
  let ?source = "sourceFromContext m remote"
  let ?tag = "sourceInboundTag (sourceTraffic (pr_hook s)) (sourceClassifier (pr_hook s)) (ctx_Inbound m) ?source"
  obtain i s1 where i: "prepareSession m ?source s = (i, s1)" by fastforce
  obtain nr nw ur uw where l: "directionalLimiters enabled (pr_hook s1) (ctx_User m) = (nr, nw, ur, uw)" by (metis prod.exhaust)
  obtain a h where g: "Hook_GetCounter ?tag (ResolveUser (pr_hook s1) (ctx_User m)) (pr_hook s1) = (a, h)" by fastforce
  have hook: "pr_hook s1 = pr_hook s" using i by simp
  have "s' = s1\<lparr>pr_hook := h\<rparr>" "conn' = NewRateLimitedConn (NewRateLimitedConn
        (NewConnCounterWithActivity (trackedConn conn (session_release i)) (storage_counting a i))
        (map_option (limiter_waiting X env) nr) (map_option (limiter_waiting X env) nw))
        (map_option (limiter_waiting X env) ur) (map_option (limiter_waiting X env) uw)"
    using assms i l g by (simp_all add: RoutedConnection_def Let_def)
  moreover have "s1 = s1\<lparr>pr_hook := pr_hook s\<rparr>" using hook by (metis process.surjective process.update_convs(1))
  ultimately show ?thesis
    using that i Hook_GetCounter_entry [OF g] hook by simp
qed

section \<open>Properties\<close>

text \<open>
  C32: A routed connection is counted byte for byte. The connection the hook returns for a named user
  keeps the contract of \<open>io.Writer\<close> and \<open>io.Reader\<close> on the wire, and every byte that goes over it, in
  whatever chunks the limiters cut it and however they or the session's activation behave, moves the
  storage of that user under the connection's (source) inbound tag: written bytes its download,
  read bytes its upload. Closing it closes the connection inside and then releases the session.
\<close>

theorem routed_connection_counts:
  assumes "\<And>a. writer_spec (\<lambda>s. sent (pr_net s)) (down_of a) 0 conn"
    and "\<And>a. reader_spec (\<lambda>s. taken (pr_net s)) (up_of a) 0 conn"
    and "RoutedConnection X env enabled conn remote m s = (conn', s')" and "ctx_User m \<noteq> []"
  shows "\<exists>a i. mget (tc_of (pr_hook s') (sourceInboundTag (sourceTraffic (pr_hook s)) (sourceClassifier (pr_hook s)) (ctx_Inbound m)
        (sourceFromContext m remote))) (ResolveUser (pr_hook s) (ctx_User m)) = Some a
    \<and> writer_spec (\<lambda>s. sent (pr_net s)) (down_of a) 1 conn'
    \<and> reader_spec (\<lambda>s. taken (pr_net s)) (up_of a) 1 conn'
    \<and> fst (prepareSession m (sourceFromContext m remote) s) = i
    \<and> CloseConn conn' = (\<lambda>s. let (err, s) = CloseConn conn s in (err, session_release i s))"
proof -
  obtain a i nr nw ur uw where a: "mget (tc_of (pr_hook s') (sourceInboundTag (sourceTraffic (pr_hook s))
        (sourceClassifier (pr_hook s)) (ctx_Inbound m) (sourceFromContext m remote))) (ResolveUser (pr_hook s) (ctx_User m)) = Some a"
    and i: "prepareSession m (sourceFromContext m remote) s = (i, s'\<lparr>pr_hook := pr_hook s\<rparr>)"
    and c: "conn' = NewRateLimitedConn (NewRateLimitedConn
        (NewConnCounterWithActivity (trackedConn conn (session_release i)) (storage_counting a i))
        (map_option (limiter_waiting X env) nr) (map_option (limiter_waiting X env) nw))
        (map_option (limiter_waiting X env) ur) (map_option (limiter_waiting X env) uw)"
    by (rule RoutedConnection_parts [OF assms(3,4)])
  have "writer_spec (\<lambda>s. sent (pr_net s)) (down_of a) 1 conn'"
    unfolding c using assms(1) [of a] storage_counts(1)
    by (intro limited_writer limiter_waits counter_writer) (simp_all add: tracked_specs)
  moreover have "reader_spec (\<lambda>s. taken (pr_net s)) (up_of a) 1 conn'"
    unfolding c using assms(2) [of a] storage_counts(2)
    by (intro limited_reader limiter_waits counter_reader) (simp_all add: tracked_specs)
  ultimately show ?thesis using a i by (intro exI [of _ a] exI [of _ i]) (simp add: c)
qed

text \<open>A wire that records what is written and delivers zeros.\<close>

definition wire_conn :: "('l, string \<times> int) process conn" where
  "wire_conn =
     \<lparr>Read = (\<lambda>b s. ((max 0 b, None), s\<lparr>pr_net := (fst (pr_net s), snd (pr_net s) + max 0 b)\<rparr>)),
      Write = (\<lambda>b s. ((int (length b), None), s\<lparr>pr_net := (fst (pr_net s) @ b, snd (pr_net s))\<rparr>)),
      ReadBuffer = (\<lambda>s. ((0, None), s)),
      WriteBuffer = (\<lambda>b s. (None, s\<lparr>pr_net := (fst (pr_net s) @ b, snd (pr_net s))\<rparr>)),
      CloseConn = (\<lambda>s. (None, s))\<rparr>"

lemma wire_specs:
  "writer_spec (\<lambda>s. fst (pr_net s)) (down_of a) 0 wire_conn"
  "reader_spec (\<lambda>s. snd (pr_net s)) (up_of a) 0 wire_conn"
  by (auto simp: writer_spec_def reader_spec_def wrote_def wire_conn_def down_of_def up_of_def)

text \<open>A hook with a node limit of 8 Mbit/s.\<close>

definition limited_process :: "(int \<times> int, string \<times> int) process" where
  "limited_process =
     (let ms = NewUserManager counting_xrate () 8 empty_limiters
      in \<lparr>pr_hook = \<lparr>byInbound = [], storages = empty_store, hook_users = Some (fst ms), limiter_cells = snd ms,
           sessionTracker = Some (NewSessionTracker None), sourceClassifier = None, sourceTraffic = False\<rparr>,
          pr_sessions = [], pr_net = ([], 0)\<rparr>)"

definition alice_context :: inbound_context where
  "alice_context = \<lparr>ctx_User = ''alice'', ctx_Inbound = ''vless-in'', ctx_Source = Some ''10.0.0.7:4000''\<rparr>"

definition alice_route ::
  "(int \<times> int, string \<times> int) process conn \<times> (int \<times> int, string \<times> int) process" where
  "alice_route = RoutedConnection counting_xrate quiet True wire_conn None alice_context limited_process"

theorem routed_connection_counts_witness:
  "\<exists>a. mget (tc_of (pr_hook (snd alice_route)) ''vless-in'') ''alice'' = Some a
     \<and> (case Write (fst alice_route) ''hello'' (snd alice_route) of
          ((n, e), s) \<Rightarrow> (n, e) = (5, None) \<and> fst (pr_net s) = ''hello'' \<and> down_of a s = down_of a (snd alice_route) + 5)"
proof -
  obtain c s where r: "alice_route = (c, s)" by fastforce
  have tag: "sourceInboundTag (sourceTraffic (pr_hook limited_process)) (sourceClassifier (pr_hook limited_process))
      (ctx_Inbound alice_context) (sourceFromContext alice_context None) = ''vless-in''"
    "ResolveUser (pr_hook limited_process) (ctx_User alice_context) = ''alice''" "ctx_User alice_context \<noteq> []"
    by code_simp+
  have w: "fst (Write (fst alice_route) ''hello'' (snd alice_route)) = (5, None) \<and> fst (pr_net (snd alice_route)) = []"
    by code_simp
  from routed_connection_counts [OF wire_specs r [unfolded alice_route_def] tag(3)] tag
  obtain a where "mget (tc_of (pr_hook s) ''vless-in'') ''alice'' = Some a"
    and spec: "writer_spec (\<lambda>s. fst (pr_net s)) (down_of a) 1 c"
    by auto
  moreover obtain s1 where wr: "Write c ''hello'' s = ((5, None), s1)" using w r by (metis fst_conv prod.exhaust snd_conv)
  moreover have "wrote (\<lambda>s. fst (pr_net s)) (down_of a) 1 ''hello'' s 5 None s1"
    using spec [unfolded writer_spec_def, rule_format, OF _ wr] by simp
  moreover have "fst (pr_net s) = []" using w r by (metis snd_conv)
  ultimately have "mget (tc_of (pr_hook s) ''vless-in'') ''alice'' = Some a
      \<and> (case Write c ''hello'' s of
           ((n, e), s') \<Rightarrow> (n, e) = (5, None) \<and> fst (pr_net s') = ''hello'' \<and> down_of a s' = down_of a s + 5)"
    by (simp add: wrote_def)
  then show ?thesis unfolding r by auto
qed

end
