(* ===== verification/Unwrapping.thy ===== *)
theory Unwrapping
  imports Routed_Connection
begin

text \<open>
  What a wrapped connection exposes of the connection inside: the accessors \<open>Upstream\<close>,
  \<open>UpstreamReader\<close>, \<open>UpstreamWriter\<close>, \<open>ReaderReplaceable\<close> and \<open>WriterReplaceable\<close> of \<open>trackedConn\<close>,
  \<open>trackedPacketConn\<close> (\<open>session_tracker.go\<close>), of the counting connections (\<open>counter/counter.go\<close>) and of
  the limited ones (\<open>counter/ratelimit.go\<close>). sing-box's copy loops use them to take off wrappers and
  to read and write the connection inside; the theory shows that no limiter is ever taken off and that
  the counting functions they collect count what the counters taken off would have counted.
\<close>

section \<open>Wrappers as layers\<close>

text \<open>
  The wrappers of a connection, outermost first, down to the connection of the core. The adapter
  \<open>bufio.NewExtendedConn\<close> puts around a plain connection has the methods of that connection.
\<close>

datatype ('c, 'w) layers =
    Inner 'c
  | Tracked "'w \<Rightarrow> 'w" "('c, 'w) layers"
  | Counted "'w counting" "('c, 'w) layers"
  | Limited "'w limiting option" "'w limiting option" "('c, 'w) layers"

primrec methods :: "('w conn, 'w) layers \<Rightarrow> 'w conn" where
  "methods (Inner c) = c"
| "methods (Tracked release c) = trackedConn (methods c) release"
| "methods (Counted k c) = NewConnCounterWithActivity (methods c) k"
| "methods (Limited rl wl c) = NewRateLimitedConn (methods c) rl wl"

primrec packet_methods :: "('w packet_conn, 'w) layers \<Rightarrow> 'w packet_conn" where
  "packet_methods (Inner c) = c"
| "packet_methods (Tracked release c) = trackedPacketConn (packet_methods c) release"
| "packet_methods (Counted k c) = NewPacketConnCounterWithActivity (packet_methods c) k"
| "packet_methods (Limited rl wl c) = NewRateLimitedPacketConn (packet_methods c) rl wl"

lemma all_layers_iff:
  "(\<forall>l. P l) \<longleftrightarrow> (\<forall>c. P (Inner c)) \<and> (\<forall>r l. P (Tracked r l)) \<and> (\<forall>k l. P (Counted k l)) \<and> (\<forall>rl wl l. P (Limited rl wl l))"
  by (metis layers.exhaust)

section \<open>Accessors\<close>

text \<open>What a type answers to each accessor, \<open>None\<close> when it has no such method.\<close>

record 'l accessors =
  Upstream :: "'l option"
  UpstreamReader :: "'l option"
  UpstreamWriter :: "'l option"
  ReaderReplaceable :: "bool option"
  WriterReplaceable :: "bool option"

definition trackedConn_accessors :: "'l \<Rightarrow> 'l accessors" where
  "trackedConn_accessors c =
     \<lparr>Upstream = Some c, UpstreamReader = Some c, UpstreamWriter = Some c,
      ReaderReplaceable = Some True, WriterReplaceable = Some True\<rparr>"

definition trackedPacketConn_accessors :: "'l \<Rightarrow> 'l accessors" where
  "trackedPacketConn_accessors c =
     \<lparr>Upstream = Some c, UpstreamReader = Some c, UpstreamWriter = Some c,
      ReaderReplaceable = Some True, WriterReplaceable = Some True\<rparr>"

definition ConnCounter_accessors :: "'l \<Rightarrow> 'l accessors" where
  "ConnCounter_accessors c =
     \<lparr>Upstream = Some c, UpstreamReader = Some c, UpstreamWriter = Some c,
      ReaderReplaceable = None, WriterReplaceable = None\<rparr>"

definition PacketConnCounter_accessors :: "'l \<Rightarrow> 'l accessors" where
  "PacketConnCounter_accessors c =
     \<lparr>Upstream = Some c, UpstreamReader = Some c, UpstreamWriter = Some c,
      ReaderReplaceable = None, WriterReplaceable = None\<rparr>"

definition RateLimitedConn_accessors :: "'l \<Rightarrow> 'l accessors" where
  "RateLimitedConn_accessors c =
     \<lparr>Upstream = Some c, UpstreamReader = None, UpstreamWriter = None,
      ReaderReplaceable = None, WriterReplaceable = None\<rparr>"

definition RateLimitedPacketConn_accessors :: "'l \<Rightarrow> 'l accessors" where
  "RateLimitedPacketConn_accessors c =
     \<lparr>Upstream = Some c, UpstreamReader = None, UpstreamWriter = None,
      ReaderReplaceable = None, WriterReplaceable = None\<rparr>"

text \<open>The connection of the core is opaque here.\<close>

fun exposed :: "('w conn, 'w) layers \<Rightarrow> ('w conn, 'w) layers accessors" where
  "exposed (Inner c) =
     \<lparr>Upstream = None, UpstreamReader = None, UpstreamWriter = None, ReaderReplaceable = None, WriterReplaceable = None\<rparr>"
| "exposed (Tracked release c) = trackedConn_accessors c"
| "exposed (Counted k c) = ConnCounter_accessors c"
| "exposed (Limited rl wl c) = RateLimitedConn_accessors c"

fun packet_exposed :: "('w packet_conn, 'w) layers \<Rightarrow> ('w packet_conn, 'w) layers accessors" where
  "packet_exposed (Inner c) =
     \<lparr>Upstream = None, UpstreamReader = None, UpstreamWriter = None, ReaderReplaceable = None, WriterReplaceable = None\<rparr>"
| "packet_exposed (Tracked release c) = trackedPacketConn_accessors c"
| "packet_exposed (Counted k c) = PacketConnCounter_accessors c"
| "packet_exposed (Limited rl wl c) = RateLimitedPacketConn_accessors c"

section \<open>Unwrapping\<close>

text \<open>
  What \<open>sing\<close> documents of \<open>N.UnwrapReader\<close> (with \<open>ReaderReplaceable\<close> and \<open>UpstreamReader\<close> for
  \<open>repl\<close> and \<open>up\<close>) and \<open>N.UnwrapWriter\<close>: a value is replaced by its upstream while it says that it
  is replaceable; the core's own connection may have wrappers of its own, under which lies the
  same stream (\<open>same\<close>).
\<close>

definition unwraps ::
  "(('c, 'w) layers \<Rightarrow> bool option) \<Rightarrow> (('c, 'w) layers \<Rightarrow> ('c, 'w) layers option) \<Rightarrow> ('c \<Rightarrow> 'c \<Rightarrow> bool)
   \<Rightarrow> (('c, 'w) layers \<Rightarrow> ('c, 'w) layers) \<Rightarrow> bool" where
  "unwraps repl up same unwrap \<longleftrightarrow>
     (\<forall>c. \<exists>c'. unwrap (Inner c) = Inner c' \<and> same c c')
     \<and> (\<forall>l. (\<forall>c. l \<noteq> Inner c) \<longrightarrow>
          unwrap l = (if repl l = Some True then (case up l of Some u \<Rightarrow> unwrap u | None \<Rightarrow> l) else l))"

text \<open>
  \<open>N.UnwrapCountReader\<close> and \<open>N.UnwrapCountWriter\<close> go on through the counters, whose \<open>UnwrapReader\<close>
  and \<open>UnwrapWriter\<close> (\<open>peel\<close>) return what is inside and the functions to call with the bytes moved.
\<close>

definition unwraps_counting ::
  "(('c, 'w) layers \<Rightarrow> ('c, 'w) layers) \<Rightarrow> ('w counting \<Rightarrow> ('c, 'w) layers \<Rightarrow> ('c, 'w) layers \<times> (i64 \<Rightarrow> 'w \<Rightarrow> 'w) list)
   \<Rightarrow> (('c, 'w) layers \<Rightarrow> ('c, 'w) layers \<times> (i64 \<Rightarrow> 'w \<Rightarrow> 'w) list) \<Rightarrow> bool" where
  "unwraps_counting unwrap peel unwrap_count \<longleftrightarrow>
     (\<forall>l. unwrap_count l =
        (case unwrap l of
           Counted k c \<Rightarrow> (let (u, fs) = peel k c; (r, gs) = unwrap_count u in (r, fs @ gs))
         | u \<Rightarrow> (u, [])))"

text \<open>The limiters of the layers, and how often a byte is counted on its way through them.\<close>

primrec limits_in :: "('c, 'w) layers \<Rightarrow> ('w limiting option \<times> 'w limiting option) list" where
  "limits_in (Inner c) = []"
| "limits_in (Tracked release c) = limits_in c"
| "limits_in (Counted k c) = limits_in c"
| "limits_in (Limited rl wl c) = (rl, wl) # limits_in c"

primrec counters_in :: "('c, 'w) layers \<Rightarrow> nat" where
  "counters_in (Inner c) = 0"
| "counters_in (Tracked release c) = counters_in c"
| "counters_in (Counted k c) = Suc (counters_in c)"
| "counters_in (Limited rl wl c) = counters_in c"

text \<open>Reading (writing) through what is left, and calling the functions with the bytes moved.\<close>

definition counted_by :: "'w conn \<Rightarrow> (i64 \<Rightarrow> 'w \<Rightarrow> 'w) list \<Rightarrow> (i64 \<Rightarrow> 'w \<Rightarrow> 'w) list \<Rightarrow> 'w conn" where
  "counted_by c rs ws =
     c\<lparr>Read := (\<lambda>b w. let ((n, e), w) = Read c b w in ((n, e), call_counts rs (word_of_int n) w)),
       Write := (\<lambda>b w. let ((n, e), w) = Write c b w in ((n, e), call_counts ws (word_of_int n) w))\<rparr>"

lemma unwraps_simps:
  assumes "unwraps repl up same unwrap"
  shows "\<exists>c'. unwrap (Inner c) = Inner c' \<and> same c c'"
    and "repl (Tracked r l) = Some True \<Longrightarrow> up (Tracked r l) = Some u \<Longrightarrow> unwrap (Tracked r l) = unwrap u"
    and "repl (Counted k l) = None \<Longrightarrow> unwrap (Counted k l) = Counted k l"
    and "repl (Limited rl wl l) = None \<Longrightarrow> unwrap (Limited rl wl l) = Limited rl wl l"
  using assms unfolding unwraps_def by auto

text \<open>The accessors of both kinds of layers: a tracked connection gives way, a counter and a limiter do not.\<close>

definition gives_way ::
  "(('c, 'w) layers \<Rightarrow> bool option) \<Rightarrow> (('c, 'w) layers \<Rightarrow> ('c, 'w) layers option) \<Rightarrow> bool" where
  "gives_way repl up \<longleftrightarrow>
     (\<forall>r l. repl (Tracked r l) = Some True \<and> up (Tracked r l) = Some l)
     \<and> (\<forall>k l. repl (Counted k l) = None) \<and> (\<forall>rl wl l. repl (Limited rl wl l) = None)"

lemma accessors_give_way:
  "gives_way (\<lambda>l. ReaderReplaceable (exposed l)) (\<lambda>l. UpstreamReader (exposed l))"
  "gives_way (\<lambda>l. WriterReplaceable (exposed l)) (\<lambda>l. UpstreamWriter (exposed l))"
  "gives_way (\<lambda>l. ReaderReplaceable (packet_exposed l)) (\<lambda>l. UpstreamReader (packet_exposed l))"
  "gives_way (\<lambda>l. WriterReplaceable (packet_exposed l)) (\<lambda>l. UpstreamWriter (packet_exposed l))"
  by (simp_all add: gives_way_def trackedConn_accessors_def trackedPacketConn_accessors_def ConnCounter_accessors_def
      PacketConnCounter_accessors_def RateLimitedConn_accessors_def RateLimitedPacketConn_accessors_def)

lemma unwrap_cases:
  assumes "unwraps repl up same unwrap" and "gives_way repl up"
  shows "\<exists>c'. unwrap (Inner c) = Inner c' \<and> same c c'" and "unwrap (Tracked r l) = unwrap l"
    and "unwrap (Counted k l) = Counted k l" and "unwrap (Limited rl wl l) = Limited rl wl l"
proof -
  from assms(2) have way: "repl (Tracked r l) = Some True" "up (Tracked r l) = Some l"
    "repl (Counted k l) = None" "repl (Limited rl wl l) = None"
    unfolding gives_way_def by blast+
  note laws = unwraps_simps [OF assms(1)]
  show "\<exists>c'. unwrap (Inner c) = Inner c' \<and> same c c'" by (rule laws(1))
  show "unwrap (Tracked r l) = unwrap l" by (rule laws(2) [OF way(1,2)])
  show "unwrap (Counted k l) = Counted k l" by (rule laws(3) [OF way(3)])
  show "unwrap (Limited rl wl l) = Limited rl wl l" by (rule laws(4) [OF way(4)])
qed

lemma unwrap_shape:
  assumes "unwraps repl up same unwrap" and "gives_way repl up"
  shows "limits_in (unwrap l) = limits_in l \<and> counters_in (unwrap l) = counters_in l \<and> size (unwrap l) \<le> size l"
proof (induction l)
  case (Inner c)
  then show ?case using unwrap_cases(1) [OF assms, of c] by auto
qed (simp_all add: unwrap_cases(2-) [OF assms])

text \<open>One law for \<open>unwrap_count\<close>: what holds of a layer is kept by unwrapping and by peeling a counter.\<close>

lemma unwrap_count_rule:
  assumes "unwraps_counting unwrap (\<lambda>k c. (unwrap c, [tally k])) unwrap_count"
    and small: "\<And>l. size (unwrap l) \<le> size l"
    and stop: "\<And>l. P l (unwrap l) []"
    and peel: "\<And>l k c r gs. unwrap l = Counted k c \<Longrightarrow> P (unwrap c) r gs \<Longrightarrow> P l r (tally k # gs)"
  shows "P l (fst (unwrap_count l)) (snd (unwrap_count l))"
proof (induction "size l" arbitrary: l rule: less_induct)
  case less
  have law: "unwrap_count l = (case unwrap l of
      Counted k c \<Rightarrow> (let (r, gs) = unwrap_count (unwrap c) in (r, tally k # gs)) | u \<Rightarrow> (u, []))"
    using assms(1) unfolding unwraps_counting_def by (simp add: Let_def split: layers.splits)
  show ?case
  proof (cases "unwrap l")
    case (Counted k c)
    have "size (unwrap c) < size l" using small [of l] small [of c] Counted by simp
    from peel [OF Counted less.hyps [OF this]] Counted show ?thesis
      by (cases "unwrap_count (unwrap c)") (simp add: law)
  qed (use stop [of l] in \<open>simp_all add: law\<close>)
qed

lemma unwrap_count_limiters:
  assumes "unwraps repl up same unwrap" and "gives_way repl up"
    and "unwraps_counting unwrap (\<lambda>k c. (unwrap c, [tally k])) unwrap_count"
  shows "limits_in (fst (unwrap_count l)) = limits_in l"
proof (rule unwrap_count_rule [where P = "\<lambda>l r gs. limits_in r = limits_in l", OF assms(3)])
  note shape = unwrap_shape [OF assms(1,2)]
  show "size (unwrap l) \<le> size l" "limits_in (unwrap l) = limits_in l" for l using shape by auto
  show "limits_in r = limits_in l" if "unwrap l = Counted k c" "limits_in r = limits_in (unwrap c)" for l k c r
    using that shape [of l] shape [of c] by simp
qed

section \<open>Counting without the counters\<close>

text \<open>The layers the hook builds count a byte once: under a counter is no other.\<close>

primrec reads_fine :: "('w \<Rightarrow> int) \<Rightarrow> ('w \<Rightarrow> i64) \<Rightarrow> ('w conn, 'w) layers \<Rightarrow> bool" where
  "reads_fine taken cnt (Inner c) = reader_spec taken cnt 0 c"
| "reads_fine taken cnt (Tracked release c) = reads_fine taken cnt c"
| "reads_fine taken cnt (Counted k c) = (counting_up_spec taken cnt k \<and> counters_in c = 0 \<and> reads_fine taken cnt c)"
| "reads_fine taken cnt (Limited rl wl c) = (waiting_spec taken cnt rl \<and> reads_fine taken cnt c)"

primrec writes_fine :: "('w \<Rightarrow> string) \<Rightarrow> ('w \<Rightarrow> i64) \<Rightarrow> ('w conn, 'w) layers \<Rightarrow> bool" where
  "writes_fine sent cnt (Inner c) = writer_spec sent cnt 0 c"
| "writes_fine sent cnt (Tracked release c) = writes_fine sent cnt c"
| "writes_fine sent cnt (Counted k c) = (counting_spec sent cnt k \<and> counters_in c = 0 \<and> writes_fine sent cnt c)"
| "writes_fine sent cnt (Limited rl wl c) = (waiting_spec sent cnt wl \<and> writes_fine sent cnt c)"

lemma layers_read: "reads_fine taken cnt l \<Longrightarrow> reader_spec taken cnt (of_nat (counters_in l)) (methods l)"
  by (induction l) (auto simp: tracked_specs counter_reader limited_reader)

lemma layers_write: "writes_fine sent cnt l \<Longrightarrow> writer_spec sent cnt (of_nat (counters_in l)) (methods l)"
  by (induction l) (auto simp: tracked_specs counter_writer limited_writer)

text \<open>Under the wrappers of the core's connection lies the same stream.\<close>

definition same_stream :: "'w conn \<Rightarrow> 'w conn \<Rightarrow> bool" where
  "same_stream c c' \<longleftrightarrow>
     (\<forall>taken cnt. reader_spec taken cnt 0 c \<longrightarrow> reader_spec taken cnt 0 c')
     \<and> (\<forall>sent cnt. writer_spec sent cnt 0 c \<longrightarrow> writer_spec sent cnt 0 c')"

lemma unwrap_fine:
  assumes "unwraps repl up same_stream unwrap" and "gives_way repl up"
  shows "reads_fine taken cnt l \<Longrightarrow> reads_fine taken cnt (unwrap l)"
    and "writes_fine sent cnt l \<Longrightarrow> writes_fine sent cnt (unwrap l)"
proof -
  note rest = unwrap_cases(2-) [OF assms]
  show "reads_fine taken cnt (unwrap l)" if "reads_fine taken cnt l"
    using that
  proof (induction l)
    case (Inner c)
    then show ?case using unwrap_cases(1) [OF assms, of c] by (auto simp: same_stream_def)
  qed (simp_all add: rest)
  show "writes_fine sent cnt (unwrap l)" if "writes_fine sent cnt l"
    using that
  proof (induction l)
    case (Inner c)
    then show ?case using unwrap_cases(1) [OF assms, of c] by (auto simp: same_stream_def)
  qed (simp_all add: rest)
qed

text \<open>A function that counts: it moves the counter by its argument and leaves the stream alone.\<close>

definition tallies :: "('w \<Rightarrow> 'x) \<Rightarrow> ('w \<Rightarrow> i64) \<Rightarrow> (i64 \<Rightarrow> 'w \<Rightarrow> 'w) \<Rightarrow> bool" where
  "tallies wire cnt f \<longleftrightarrow>
     (\<forall>n w. 0 \<le> n \<longrightarrow> n < 2 ^ 63 \<longrightarrow>
        wire (f (word_of_int n) w) = wire w \<and> cnt (f (word_of_int n) w) = cnt w + word_of_int n)"

lemma call_counts_tally:
  assumes "0 \<le> n" and "n < 2 ^ 63"
  shows "\<forall>f \<in> set fs. tallies wire cnt f \<Longrightarrow>
    wire (call_counts fs (word_of_int n) w) = wire w
    \<and> cnt (call_counts fs (word_of_int n) w) = cnt w + of_nat (length fs) * word_of_int n"
proof (induction fs arbitrary: w)
  case (Cons f fs)
  then have f: "wire (f (word_of_int n) w) = wire w" "cnt (f (word_of_int n) w) = cnt w + word_of_int n"
    using assms by (auto simp: tallies_def)
  from Cons.IH [of "f (word_of_int n) w"] Cons.prems f show ?case
    by (simp add: call_counts_def algebra_simps)
qed (simp add: call_counts_def)

lemma unwrap_count_fine:
  assumes u: "unwraps repl up same_stream unwrap" "gives_way repl up"
    and c: "unwraps_counting unwrap (\<lambda>k c. (unwrap c, [tally k])) unwrap_count"
    and fine: "\<And>l. fine l \<Longrightarrow> fine (unwrap l)"
    and under: "\<And>k c. fine (Counted k c) \<Longrightarrow> fine c \<and> tallies wire cnt (tally k)"
  shows "fine l \<longrightarrow> fine (fst (unwrap_count l)) \<and> (\<forall>f \<in> set (snd (unwrap_count l)). tallies wire cnt f)
    \<and> length (snd (unwrap_count l)) + counters_in (fst (unwrap_count l)) = counters_in l"
proof (rule unwrap_count_rule [where P = "\<lambda>l r gs. fine l \<longrightarrow> fine r \<and> (\<forall>f \<in> set gs. tallies wire cnt f)
    \<and> length gs + counters_in r = counters_in l", OF c])
  note shape = unwrap_shape [OF u]
  show "size (unwrap l) \<le> size l" for l using shape by auto
  show "fine l \<longrightarrow> fine (unwrap l) \<and> (\<forall>f \<in> set []. tallies wire cnt f) \<and> length [] + counters_in (unwrap l) = counters_in l" for l
    using shape fine by simp
  fix l k c r and gs :: "(i64 \<Rightarrow> 'b \<Rightarrow> 'b) list"
  assume l: "unwrap l = Counted k c"
    and IH: "fine (unwrap c) \<longrightarrow> fine r \<and> (\<forall>f \<in> set gs. tallies wire cnt f) \<and> length gs + counters_in r = counters_in (unwrap c)"
  show "fine l \<longrightarrow> fine r \<and> (\<forall>f \<in> set (tally k # gs). tallies wire cnt f) \<and> length (tally k # gs) + counters_in r = counters_in l"
  proof
    assume "fine l"
    from fine [OF this] l under have "fine c \<and> tallies wire cnt (tally k)" by simp
    with IH fine [of c] shape [of l] shape [of c] l
    show "fine r \<and> (\<forall>f \<in> set (tally k # gs). tallies wire cnt f) \<and> length (tally k # gs) + counters_in r = counters_in l"
      by simp
  qed
qed

lemma counting_tallies:
  "counting_up_spec taken cnt k \<Longrightarrow> tallies taken cnt (countUp k)"
  "counting_spec sent cnt k \<Longrightarrow> tallies sent cnt (countDown k)"
  by (simp_all add: tallies_def countUp_counts countDown_counts)

lemma counted_by_reads:
  assumes "reader_spec taken cnt f c" and "\<forall>g \<in> set rs. tallies taken cnt g"
  shows "reader_spec taken cnt (of_nat (length rs) + f) (counted_by c rs ws)"
  unfolding reader_spec_def
proof (intro allI impI)
  fix b w n e w' assume b: "0 \<le> b" "b < 2 ^ 63" and rd: "Read (counted_by c rs ws) b w = ((n, e), w')"
  then obtain w1 where w1: "Read c b w = ((n, e), w1)" and w': "w' = call_counts rs (word_of_int n) w1"
    by (auto simp: counted_by_def split: prod.splits)
  have n: "0 \<le> n \<and> n \<le> b \<and> taken w1 = taken w + n \<and> cnt w1 = cnt w + f * word_of_int n"
    using assms(1) [unfolded reader_spec_def, rule_format, OF b w1] .
  with b have "0 \<le> n" "n < 2 ^ 63" by simp_all
  from call_counts_tally [OF this assms(2)] n w'
  show "0 \<le> n \<and> n \<le> b \<and> taken w' = taken w + n \<and> cnt w' = cnt w + (of_nat (length rs) + f) * word_of_int n"
    by (simp add: algebra_simps)
qed

lemma counted_by_writes:
  assumes "writer_spec sent cnt f c" and "\<forall>g \<in> set ws. tallies sent cnt g"
  shows "writer_spec sent cnt (of_nat (length ws) + f) (counted_by c rs ws)"
  unfolding writer_spec_def
proof (intro allI impI)
  fix b w n e w' assume b: "int (length b) < 2 ^ 63" and wr: "Write (counted_by c rs ws) b w = ((n, e), w')"
  then obtain w1 where w1: "Write c b w = ((n, e), w1)" and w': "w' = call_counts ws (word_of_int n) w1"
    by (auto simp: counted_by_def split: prod.splits)
  have n: "wrote sent cnt f b w n e w1"
    using assms(1) [unfolded writer_spec_def, rule_format, OF b w1] .
  with b have "0 \<le> n" "n < 2 ^ 63" by (simp_all add: wrote_def)
  from call_counts_tally [OF this assms(2)] n w'
  show "wrote sent cnt (of_nat (length ws) + f) b w n e w'"
    by (simp add: wrote_def algebra_simps)
qed

section \<open>The layers of a routed connection\<close>

text \<open>\<open>NewRateLimitedConn\<close> without limiters adds no layer.\<close>

definition limited_layer ::
  "('c, 'w) layers \<Rightarrow> 'w limiting option \<Rightarrow> 'w limiting option \<Rightarrow> ('c, 'w) layers" where
  "limited_layer c rl wl = (if rl = None \<and> wl = None then c else Limited rl wl c)"

definition routed_layers ::
  "('l, 't) xrate \<Rightarrow> 't others \<Rightarrow> bool
   \<Rightarrow> ('l, 'n) process conn \<Rightarrow> string option \<Rightarrow> inbound_context \<Rightarrow> ('l, 'n) process
   \<Rightarrow> (('l, 'n) process conn, ('l, 'n) process) layers" where
  "routed_layers X env enabled conn remoteAddr m s =
     (if ctx_User m = [] then Inner conn
      else
        (let source = sourceFromContext m remoteAddr;
             inboundTag = sourceInboundTag (sourceTraffic (pr_hook s)) (sourceClassifier (pr_hook s)) (ctx_Inbound m) source;
             (session, s) = prepareSession m source s;
             conn = Tracked (session_release session) (Inner conn);
             (nodeRead, nodeWrite, userRead, userWrite) = directionalLimiters enabled (pr_hook s) (ctx_User m);
             (a, h) = Hook_GetCounter inboundTag (ResolveUser (pr_hook s) (ctx_User m)) (pr_hook s);
             conn = Counted (storage_counting a session) conn;
             conn = limited_layer conn (map_option (limiter_waiting X env) nodeRead) (map_option (limiter_waiting X env) nodeWrite);
             conn = limited_layer conn (map_option (limiter_waiting X env) userRead) (map_option (limiter_waiting X env) userWrite)
         in conn))"

lemma limited_layer_simps [simp]:
  "methods (limited_layer l rl wl) = NewRateLimitedConn (methods l) rl wl"
  "counters_in (limited_layer c rl wl) = counters_in c"
  "limits_in (limited_layer c rl wl) = (if rl = None \<and> wl = None then [] else [(rl, wl)]) @ limits_in c"
  "reads_fine taken cnt (limited_layer l rl wl) \<longleftrightarrow> (rl = None \<and> wl = None \<or> waiting_spec taken cnt rl) \<and> reads_fine taken cnt l"
  "writes_fine sent cnt (limited_layer l rl wl) \<longleftrightarrow> (rl = None \<and> wl = None \<or> waiting_spec sent cnt wl) \<and> writes_fine sent cnt l"
  by (auto simp: limited_layer_def NewRateLimitedConn_def)

lemma routed_layers_methods:
  "methods (routed_layers X env enabled conn remote m s) = fst (RoutedConnection X env enabled conn remote m s)"
  by (simp add: routed_layers_def RoutedConnection_def Let_def split: prod.split)

lemma routed_layers_fine:
  assumes "\<And>a. writer_spec (\<lambda>s. sent (pr_net s)) (down_of a) 0 conn"
    and "\<And>a. reader_spec (\<lambda>s. taken (pr_net s)) (up_of a) 0 conn"
    and "RoutedConnection X env enabled conn remote m s = (conn', s')" and "ctx_User m \<noteq> []"
  obtains a where
    "mget (tc_of (pr_hook s') (sourceInboundTag (sourceTraffic (pr_hook s)) (sourceClassifier (pr_hook s)) (ctx_Inbound m)
        (sourceFromContext m remote))) (ResolveUser (pr_hook s) (ctx_User m)) = Some a"
    "reads_fine (\<lambda>s. taken (pr_net s)) (up_of a) (routed_layers X env enabled conn remote m s)"
    "writes_fine (\<lambda>s. sent (pr_net s)) (down_of a) (routed_layers X env enabled conn remote m s)"
    "counters_in (routed_layers X env enabled conn remote m s) = 1"
proof -
  let ?tag = "sourceInboundTag (sourceTraffic (pr_hook s)) (sourceClassifier (pr_hook s)) (ctx_Inbound m) (sourceFromContext m remote)"
  let ?layers = "routed_layers X env enabled conn remote m s"
  obtain i s1 where i: "prepareSession m (sourceFromContext m remote) s = (i, s1)" by fastforce
  have hook: "pr_hook s1 = pr_hook s" using i by simp
  obtain nr nw ur uw where l: "directionalLimiters enabled (pr_hook s1) (ctx_User m) = (nr, nw, ur, uw)" by (metis prod.exhaust)
  obtain a h where g: "Hook_GetCounter ?tag (ResolveUser (pr_hook s1) (ctx_User m)) (pr_hook s1) = (a, h)" by fastforce
  have s': "pr_hook s' = h"
    using assms(3,4) i l g by (auto simp: RoutedConnection_def Let_def)
  have layers: "?layers = limited_layer (limited_layer
      (Counted (storage_counting a i) (Tracked (session_release i) (Inner conn)))
      (map_option (limiter_waiting X env) nr) (map_option (limiter_waiting X env) nw))
      (map_option (limiter_waiting X env) ur) (map_option (limiter_waiting X env) uw)"
    using assms(4) i l g by (simp add: routed_layers_def Let_def)
  show ?thesis
    by (rule that [of a])
      (simp_all add: layers s' Hook_GetCounter_entry [OF g, unfolded hook] storage_counts limiter_waits assms(1,2))
qed

section \<open>Properties\<close>

text \<open>
  C33: Taking wrappers off a routed connection bypasses nothing. Whatever the core's copy loops take
  off by \<open>N.UnwrapCountReader\<close> and \<open>N.UnwrapCountWriter\<close>, every limiter of the node and of the user is
  still in what they read and write, and the functions they are given in exchange for the counters they
  took off count every byte moved for the user, exactly once.
\<close>

theorem unwrapping_bypasses_nothing:
  assumes "\<And>a. writer_spec (\<lambda>s. sent (pr_net s)) (down_of a) 0 conn"
    and "\<And>a. reader_spec (\<lambda>s. taken (pr_net s)) (up_of a) 0 conn"
    and "unwraps (\<lambda>l. ReaderReplaceable (exposed l)) (\<lambda>l. UpstreamReader (exposed l)) same_stream unwrap_r"
    and "unwraps (\<lambda>l. WriterReplaceable (exposed l)) (\<lambda>l. UpstreamWriter (exposed l)) same_stream unwrap_w"
    and "unwraps_counting unwrap_r (\<lambda>k. UnwrapReader k unwrap_r) count_r"
    and "unwraps_counting unwrap_w (\<lambda>k. UnwrapWriter k unwrap_w) count_w"
    and "RoutedConnection X env enabled conn remote m s = (conn', s')" and "ctx_User m \<noteq> []"
    and "l = routed_layers X env enabled conn remote m s" and "count_r l = (r, rs)" and "count_w l = (w, ws)"
  shows "methods l = conn' \<and> limits_in r = limits_in l \<and> limits_in w = limits_in l
    \<and> (\<exists>a. mget (tc_of (pr_hook s') (sourceInboundTag (sourceTraffic (pr_hook s)) (sourceClassifier (pr_hook s)) (ctx_Inbound m)
           (sourceFromContext m remote))) (ResolveUser (pr_hook s) (ctx_User m)) = Some a
        \<and> reader_spec (\<lambda>s. taken (pr_net s)) (up_of a) 1 (counted_by (methods r) rs [])
        \<and> writer_spec (\<lambda>s. sent (pr_net s)) (down_of a) 1 (counted_by (methods w) [] ws))"
proof -
  note ur = assms(3) accessors_give_way(1) and uw = assms(4) accessors_give_way(2)
  have cr: "unwraps_counting unwrap_r (\<lambda>k c. (unwrap_r c, [countUp k])) count_r"
    and cw: "unwraps_counting unwrap_w (\<lambda>k c. (unwrap_w c, [countDown k])) count_w"
    using assms(5,6) by (simp_all add: UnwrapReader_def [abs_def] UnwrapWriter_def [abs_def])
  obtain a where a: "mget (tc_of (pr_hook s') (sourceInboundTag (sourceTraffic (pr_hook s)) (sourceClassifier (pr_hook s))
      (ctx_Inbound m) (sourceFromContext m remote))) (ResolveUser (pr_hook s) (ctx_User m)) = Some a"
    and fine: "reads_fine (\<lambda>s. taken (pr_net s)) (up_of a) l" "writes_fine (\<lambda>s. sent (pr_net s)) (down_of a) l"
    and one: "counters_in l = 1"
    unfolding assms(9) by (rule routed_layers_fine [OF assms(1,2,7,8)])
  have "reads_fine (\<lambda>s. taken (pr_net s)) (up_of a) r \<and> (\<forall>f \<in> set rs. tallies (\<lambda>s. taken (pr_net s)) (up_of a) f)
      \<and> length rs + counters_in r = 1"
    using unwrap_count_fine [OF ur cr, of "reads_fine (\<lambda>s. taken (pr_net s)) (up_of a)" "\<lambda>s. taken (pr_net s)" "up_of a" l]
      unwrap_fine(1) [OF ur] fine(1) one assms(10) by (simp add: counting_tallies(1))
  moreover from this have "of_nat (length rs) + of_nat (counters_in r) = (1 :: i64)" by (metis of_nat_1 of_nat_add)
  ultimately have rd: "reader_spec (\<lambda>s. taken (pr_net s)) (up_of a) 1 (counted_by (methods r) rs [])"
    using counted_by_reads [OF layers_read] by metis
  have "writes_fine (\<lambda>s. sent (pr_net s)) (down_of a) w \<and> (\<forall>f \<in> set ws. tallies (\<lambda>s. sent (pr_net s)) (down_of a) f)
      \<and> length ws + counters_in w = 1"
    using unwrap_count_fine [OF uw cw, of "writes_fine (\<lambda>s. sent (pr_net s)) (down_of a)" "\<lambda>s. sent (pr_net s)" "down_of a" l]
      unwrap_fine(2) [OF uw] fine(2) one assms(11) by (simp add: counting_tallies(2))
  moreover from this have "of_nat (length ws) + of_nat (counters_in w) = (1 :: i64)" by (metis of_nat_1 of_nat_add)
  ultimately have "writer_spec (\<lambda>s. sent (pr_net s)) (down_of a) 1 (counted_by (methods w) [] ws)"
    using counted_by_writes [OF layers_write] by metis
  with a rd show ?thesis
    using unwrap_count_limiters [OF ur cr, of l] unwrap_count_limiters [OF uw cw, of l] assms(7,9-11)
    by (auto simp: routed_layers_methods)
qed

text \<open>An instance of the two: the core's connection has no wrappers of its own.\<close>

primrec take_off :: "('c, 'w) layers \<Rightarrow> ('c, 'w) layers" where
  "take_off (Inner c) = Inner c"
| "take_off (Tracked release c) = take_off c"
| "take_off (Counted k c) = Counted k c"
| "take_off (Limited rl wl c) = Limited rl wl c"

primrec take_off_counting ::
  "('w counting \<Rightarrow> i64 \<Rightarrow> 'w \<Rightarrow> 'w) \<Rightarrow> ('c, 'w) layers \<Rightarrow> ('c, 'w) layers \<times> (i64 \<Rightarrow> 'w \<Rightarrow> 'w) list" where
  "take_off_counting tally (Inner c) = (Inner c, [])"
| "take_off_counting tally (Tracked release c) = take_off_counting tally c"
| "take_off_counting tally (Counted k c) = (let (r, fs) = take_off_counting tally c in (r, tally k # fs))"
| "take_off_counting tally (Limited rl wl c) = (Limited rl wl c, [])"

lemma take_off_unwraps:
  "unwraps (\<lambda>l. ReaderReplaceable (exposed l)) (\<lambda>l. UpstreamReader (exposed l)) same_stream take_off"
  "unwraps (\<lambda>l. WriterReplaceable (exposed l)) (\<lambda>l. UpstreamWriter (exposed l)) same_stream take_off"
  by (auto simp: unwraps_def same_stream_def all_layers_iff trackedConn_accessors_def ConnCounter_accessors_def
      RateLimitedConn_accessors_def)

lemma take_off_counts:
  "unwraps_counting take_off (\<lambda>k c. (take_off c, [tally k])) (take_off_counting tally)"
proof -
  have same: "take_off_counting tally (take_off l) = take_off_counting tally l" for l
    by (induction l) simp_all
  have "take_off_counting tally l = (case take_off l of
      Counted k c \<Rightarrow> (let (u, fs) = (take_off c, [tally k]); (r, gs) = take_off_counting tally u in (r, fs @ gs))
    | u \<Rightarrow> (u, []))" for l
    by (induction l) (simp_all add: same)
  then show ?thesis unfolding unwraps_counting_def by blast
qed

definition alice_layers :: "((int \<times> int, string \<times> int) process conn, (int \<times> int, string \<times> int) process) layers" where
  "alice_layers = routed_layers counting_xrate quiet True wire_conn None alice_context limited_process"

text \<open>The node's limiter stays in what the core reads.\<close>

theorem unwrapping_bypasses_nothing_witness:
  "limits_in (fst (take_off_counting countUp alice_layers)) = limits_in alice_layers
   \<and> length (limits_in alice_layers) = 1
   \<and> (\<exists>a. mget (tc_of (pr_hook (snd alice_route)) ''vless-in'') ''alice'' = Some a
        \<and> reader_spec (\<lambda>s. snd (pr_net s)) (up_of a) 1
            (counted_by (methods (fst (take_off_counting countUp alice_layers))) (snd (take_off_counting countUp alice_layers)) []))"
proof -
  have tag: "sourceInboundTag (sourceTraffic (pr_hook limited_process)) (sourceClassifier (pr_hook limited_process))
      (ctx_Inbound alice_context) (sourceFromContext alice_context None) = ''vless-in''"
    "ResolveUser (pr_hook limited_process) (ctx_User alice_context) = ''alice''" "ctx_User alice_context \<noteq> []"
    by code_simp+
  have laws: "unwraps_counting take_off (\<lambda>k. UnwrapReader k take_off) (take_off_counting countUp)"
    "unwraps_counting take_off (\<lambda>k. UnwrapWriter k take_off) (take_off_counting countDown)"
    using take_off_counts [of countUp] take_off_counts [of countDown]
    by (simp_all add: UnwrapReader_def [abs_def] UnwrapWriter_def [abs_def])
  have "length (limits_in alice_layers) = 1" by code_simp
  moreover obtain c s where r: "alice_route = (c, s)" by fastforce
  moreover from unwrapping_bypasses_nothing [OF wire_specs take_off_unwraps laws r [unfolded alice_route_def] tag(3)
      alice_layers_def prod.collapse [symmetric] prod.collapse [symmetric], unfolded tag(1,2)]
  have "limits_in (fst (take_off_counting countUp alice_layers)) = limits_in alice_layers
      \<and> (\<exists>a. mget (tc_of (pr_hook s) ''vless-in'') ''alice'' = Some a
        \<and> reader_spec (\<lambda>s. snd (pr_net s)) (up_of a) 1
            (counted_by (methods (fst (take_off_counting countUp alice_layers))) (snd (take_off_counting countUp alice_layers)) []))"
    by blast
  ultimately show ?thesis unfolding r snd_conv by blast
qed

end
