(* ===== verification/Custom_Routing.thy ===== *)
theory Custom_Routing
  imports Node_Config Go_Text
begin

text \<open>
  The routing part of the configuration generator in \<open>cmd/star1ight-agent/xboard_config.go\<close>: the
  custom outbounds, the structured route rules and their merge over several nodes.

  A \<open>map[string]any\<close> is a map of \<open>json\<close> values, \<open>None\<close> where the code tests it for nil: a Go value
  put into it is the JSON the encoder makes of it. An entry of \<open>CustomRoutes\<close> may be nil too
  (the panel sent \<open>null\<close>): indexing it finds nothing, and it is encoded as \<open>null\<close>.
\<close>

section \<open>Helpers\<close>

fun firstNonEmpty :: "string list \<Rightarrow> string" where
  "firstNonEmpty [] = []"
| "firstNonEmpty (v # vs) = (if v \<noteq> [] then v else firstNonEmpty vs)"

definition cloneAnyMap :: "(string, json) gomap \<Rightarrow> (string, json) gomap option" where
  "cloneAnyMap src = (if length src = 0 then None else Some (fold (\<lambda>(k, v) out. mput k v out) src []))"

definition JStrings :: "string list \<Rightarrow> json" where
  "JStrings ss = JArray (map JString ss)"

definition port_json :: "nat \<Rightarrow> json" where
  "port_json n = JNum (show_nat n)"

definition appendNonEmptyStringSlice :: "string \<Rightarrow> string list \<Rightarrow> (string, json) gomap \<Rightarrow> (string, json) gomap" where
  "appendNonEmptyStringSlice key values dst =
     (if length values = 0 then dst
      else
        (let out = fold (\<lambda>value out. let value = TrimSpace value in if value = [] then out else out @ [value]) values []
         in if length out = 0 then dst else mput key (JStrings out) dst))"

text \<open>The loop of \<open>appendPorts\<close>: the numeric and the string ports so far.\<close>

definition appendPorts_step :: "string \<Rightarrow> nat list \<times> string list \<Rightarrow> nat list \<times> string list" where
  "appendPorts_step value acc =
     (case acc of (numericPorts, stringPorts) \<Rightarrow>
        let value = TrimSpace value
        in if value = [] then (numericPorts, stringPorts)
           else if Contains value ''-'' \<or> Contains value '':'' then (numericPorts, stringPorts @ [value])
           else
             (case ParseUint 16 value of
                None \<Rightarrow> (numericPorts, stringPorts @ [value])
              | Some port \<Rightarrow> (numericPorts @ [port], stringPorts)))"

definition appendPorts :: "string \<Rightarrow> string list \<Rightarrow> (string, json) gomap \<Rightarrow> (string, json) gomap" where
  "appendPorts key values dst =
     (if length values = 0 then dst
      else
        (case fold appendPorts_step values ([], []) of
           (numericPorts, stringPorts) \<Rightarrow>
             if length stringPorts = 0 then
               (if length numericPorts = 1 then mput key (port_json (numericPorts ! 0)) dst
                else if 1 < length numericPorts then mput key (JArray (map port_json numericPorts)) dst
                else dst)
             else if length numericPorts = 0 then
               (if length stringPorts = 1 then mput key (JString (stringPorts ! 0)) dst
                else mput key (JStrings stringPorts) dst)
             else mput key (JArray (map port_json numericPorts @ map JString stringPorts)) dst))"

section \<open>Outbounds\<close>

definition normalizeOutboundProtocol :: "string \<Rightarrow> string" where
  "normalizeOutboundProtocol v =
     (let p = ToLower (TrimSpace v)
      in if p \<in> {''hy2'', ''hysteria'', ''hysteria2''} then ''hysteria2'' else p)"

definition customOutboundToSingBox :: "outbound_config \<Rightarrow> error + (string, json) gomap \<times> string" where
  "customOutboundToSingBox cfg =
     (let tag = TrimSpace (ob_Tag cfg)
      in if tag = [] then Inl (Errorf ''custom_outbounds.tag is required'' [])
         else
           (let protocol = normalizeOutboundProtocol (ob_Protocol cfg)
            in if protocol = [] then Inl (Errorf ''custom_outbound %q protocol is required'' [tag])
               else
                 (case cloneAnyMap (ob_Settings cfg) of
                    None \<Rightarrow> Inl (Errorf ''custom_outbound %q settings are required'' [tag])
                  | Some settings \<Rightarrow>
                      (let settings = mput ''type'' (JString protocol) settings;
                           settings = mput ''tag'' (JString tag) settings;
                           proxyTag = TrimSpace (ob_ProxyTag cfg);
                           settings = (if proxyTag \<noteq> [] then mput ''detour'' (JString proxyTag) settings else settings)
                       in Inr (settings, tag)))))"

section \<open>Route rules\<close>

definition rule_match_map :: "route_match \<Rightarrow> (string, json) gomap" where
  "rule_match_map m =
     (let dst = [];
          dst = appendNonEmptyStringSlice ''domain'' (Domains m) dst;
          dst = appendNonEmptyStringSlice ''domain_suffix'' (DomainSuffixes m) dst;
          dst = appendNonEmptyStringSlice ''ip_cidr'' (IPCIDRs m) dst;
          dst = appendNonEmptyStringSlice ''source_ip_cidr'' (SourceCIDRs m) dst;
          dst = appendNonEmptyStringSlice ''network'' (Networks m) dst;
          dst = appendPorts ''port'' (Ports m) dst
      in appendPorts ''source_port'' (SourcePorts m) dst)"

definition customRouteRuleToSingBox ::
  "custom_route_rule \<Rightarrow> (string, unit) gomap option \<Rightarrow> error + (string, json) gomap option" where
  "customRouteRuleToSingBox rule availableTags =
     (let match = rule_match_map (rule_Match rule)
      in if length match = 0 then Inr None
         else
           (let actionType = ToLower (TrimSpace (act_Type (rule_Action rule)))
            in if actionType \<in> {'''', ''route''} then
                 (let target = TrimSpace (act_Target (rule_Action rule))
                  in if target = [] then Inl (Errorf ''custom route %q route action requires target'' [rule_Name rule])
                     else
                       (case availableTags of
                          None \<Rightarrow> Inr (Some (mput ''outbound'' (JString target) match))
                        | Some tags \<Rightarrow>
                            if mget tags (ToLower target) = None
                            then Inl (Errorf ''custom route %q references unknown outbound %q'' [rule_Name rule, target])
                            else Inr (Some (mput ''outbound'' (JString target) match))))
               else if actionType = ''direct'' then Inr (Some (mput ''outbound'' (JString ''direct'') match))
               else if actionType = ''block'' then Inr (Some (mput ''outbound'' (JString ''block'') match))
               else Inl (Errorf ''custom route %q action %q is not supported'' [rule_Name rule, act_Type (rule_Action rule)])))"

fun build_rules :: "custom_route_rule list \<Rightarrow> (string, unit) gomap option \<Rightarrow> json list \<Rightarrow> error + json list" where
  "build_rules [] tags out = Inr out"
| "build_rules (rule # rules) tags out =
     (if rule_Disabled rule then build_rules rules tags out
      else
        (case customRouteRuleToSingBox rule tags of
           Inl err \<Rightarrow> Inl err
         | Inr None \<Rightarrow> build_rules rules tags out
         | Inr (Some built) \<Rightarrow> build_rules rules tags (out @ [JObject built])))"

definition buildStructuredRouteRules ::
  "custom_route_rule list \<Rightarrow> (string, unit) gomap option \<Rightarrow> error + json list" where
  "buildStructuredRouteRules rules availableTags =
     (if length rules = 0 then Inr [] else build_rules rules availableTags [])"

section \<open>Merging\<close>

text \<open>The local variables of \<open>mergeCustomRouting\<close>.\<close>

record merge_state =
  mg_outbounds :: "json list"
  mg_rules :: "json list"
  mg_options :: "(string, json) gomap option"
  mg_dns :: "(string, json) gomap option"
  mg_seen :: "(string, unit) gomap"

definition merge_start :: merge_state where
  "merge_start = \<lparr>mg_outbounds = [], mg_rules = [], mg_options = None, mg_dns = None,
     mg_seen = [(''direct'', ()), (''block'', ())]\<rparr>"

text \<open>The loop over the outbounds of one configuration.\<close>

fun merge_outbounds :: "outbound_config list \<Rightarrow> merge_state \<Rightarrow> error + merge_state" where
  "merge_outbounds [] m = Inr m"
| "merge_outbounds (raw # raws) m =
     (case customOutboundToSingBox raw of
        Inl err \<Rightarrow> Inl err
      | Inr (built, tag) \<Rightarrow>
          (let key = ToLower (TrimSpace tag)
           in if mget (mg_seen m) key \<noteq> None then merge_outbounds raws m
              else merge_outbounds raws
                (m\<lparr>mg_seen := mput key () (mg_seen m), mg_outbounds := mg_outbounds m @ [JObject built]\<rparr>)))"

fun merge_configs :: "node_config list \<Rightarrow> merge_state \<Rightarrow> error + merge_state" where
  "merge_configs [] m = Inr m"
| "merge_configs (cfg # cfgs) m =
     (let m = (if mg_dns m = None \<and> 0 < length (CustomDNS cfg) then m\<lparr>mg_dns := cloneAnyMap (CustomDNS cfg)\<rparr> else m);
          m = (if mg_options m = None \<and> 0 < length (RouteOptions cfg)
               then m\<lparr>mg_options := cloneAnyMap (RouteOptions cfg)\<rparr> else m)
      in case merge_outbounds (CustomOutbounds cfg) m of
           Inl err \<Rightarrow> Inl err
         | Inr m \<Rightarrow> merge_configs cfgs m)"

text \<open>The type assertion \<open>raw[key].(map[string]any)\<close>.\<close>

definition as_object :: "(string, json) gomap option \<Rightarrow> string \<Rightarrow> (string, json) gomap option" where
  "as_object raw key =
     (case raw of
        None \<Rightarrow> None
      | Some raw \<Rightarrow> (case mget raw key of Some (JObject m) \<Rightarrow> Some m | _ \<Rightarrow> None))"

definition raw_json :: "(string, json) gomap option \<Rightarrow> json" where
  "raw_json raw = (case raw of None \<Rightarrow> JNull | Some m \<Rightarrow> JObject m)"

definition merge_raw :: "(string, json) gomap option \<Rightarrow> merge_state \<Rightarrow> merge_state" where
  "merge_raw raw m =
     (case (as_object raw ''dns'', mg_dns m) of
        (Some maybeDNS, None) \<Rightarrow> m\<lparr>mg_dns := cloneAnyMap maybeDNS\<rparr>
      | _ \<Rightarrow>
          (case (as_object raw ''route_options'', mg_options m) of
             (Some maybeOptions, None) \<Rightarrow> m\<lparr>mg_options := cloneAnyMap maybeOptions\<rparr>
           | _ \<Rightarrow> m\<lparr>mg_rules := mg_rules m @ [raw_json raw]\<rparr>))"

fun merge_rules :: "node_config list \<Rightarrow> merge_state \<Rightarrow> error + merge_state" where
  "merge_rules [] m = Inr m"
| "merge_rules (cfg # cfgs) m =
     (case buildStructuredRouteRules (CustomRouteRules cfg) (Some (mg_seen m)) of
        Inl err \<Rightarrow> Inl err
      | Inr builtRules \<Rightarrow>
          merge_rules cfgs (fold merge_raw (CustomRoutes cfg) (m\<lparr>mg_rules := mg_rules m @ builtRules\<rparr>)))"

type_synonym routing =
  "json list \<times> (string, json) gomap option \<times> (string, json) gomap option"

text \<open>The end of \<open>mergeCustomRouting\<close>: the outbounds, the route object and the DNS object.\<close>

definition merged :: "merge_state \<Rightarrow> routing" where
  "merged m =
     (let options = (case mg_options m of None \<Rightarrow> [] | Some o' \<Rightarrow> o')
      in if length (mg_rules m) = 0 \<and> length options = 0 then (mg_outbounds m, None, mg_dns m)
         else
           (let route = (case cloneAnyMap options of None \<Rightarrow> [] | Some route \<Rightarrow> route);
                route = (if 0 < length (mg_rules m) then mput ''rules'' (JArray (mg_rules m)) route else route);
                route = (if mget route ''final'' = None then mput ''final'' (JString ''direct'') route else route)
            in (mg_outbounds m, Some route, mg_dns m)))"

definition mergeCustomRouting :: "node_config list \<Rightarrow> error + routing" where
  "mergeCustomRouting configs =
     (case merge_configs configs merge_start of
        Inl err \<Rightarrow> Inl err
      | Inr m \<Rightarrow> (case merge_rules configs m of Inl err \<Rightarrow> Inl err | Inr m \<Rightarrow> Inr (merged m)))"

definition buildCustomRouting :: "node_config \<Rightarrow> error + routing" where
  "buildCustomRouting cfg = mergeCustomRouting [cfg]"

section \<open>Outbounds that are built\<close>

definition obj :: "json \<Rightarrow> (string, json) gomap" where
  "obj j = (case j of JObject m \<Rightarrow> m | _ \<Rightarrow> [])"

definition string_field :: "string \<Rightarrow> json \<Rightarrow> string" where
  "string_field k j = (case mget (obj j) k of Some (JString s) \<Rightarrow> s | _ \<Rightarrow> [])"

text \<open>An object with a type and a tag.\<close>

definition tagged :: "json \<Rightarrow> bool" where
  "tagged j \<longleftrightarrow> string_field ''type'' j \<noteq> [] \<and> string_field ''tag'' j \<noteq> []"

definition tag_key :: "json \<Rightarrow> string" where
  "tag_key j = ToLower (string_field ''tag'' j)"

lemma customOutboundToSingBox_ok:
  assumes "customOutboundToSingBox cfg = Inr (built, tag)"
  shows "tagged (JObject built)" "string_field ''tag'' (JObject built) = tag" "TrimSpace tag = tag"
proof -
  from assms obtain settings where "TrimSpace (ob_Tag cfg) \<noteq> []" "normalizeOutboundProtocol (ob_Protocol cfg) \<noteq> []"
    and "tag = TrimSpace (ob_Tag cfg)"
    and b: "built = (if TrimSpace (ob_ProxyTag cfg) \<noteq> []
        then mput ''detour'' (JString (TrimSpace (ob_ProxyTag cfg)))
          (mput ''tag'' (JString tag) (mput ''type'' (JString (normalizeOutboundProtocol (ob_Protocol cfg))) settings))
        else mput ''tag'' (JString tag) (mput ''type'' (JString (normalizeOutboundProtocol (ob_Protocol cfg))) settings))"
    by (auto simp: customOutboundToSingBox_def Let_def split: if_splits option.splits)
  then show "tagged (JObject built)" "string_field ''tag'' (JObject built) = tag" "TrimSpace tag = tag"
    by (simp_all add: tagged_def string_field_def obj_def mget_mput)
qed

text \<open>The tags seen are those of the built-in outbounds and of the custom ones, each once.\<close>

definition builtin_tags :: "string list" where
  "builtin_tags = [''direct'', ''block'']"

definition seen_inv :: "merge_state \<Rightarrow> bool" where
  "seen_inv m \<longleftrightarrow>
     (\<forall>k. mget (mg_seen m) k \<noteq> None \<longleftrightarrow> k \<in> set (builtin_tags @ map tag_key (mg_outbounds m)))
     \<and> distinct (builtin_tags @ map tag_key (mg_outbounds m)) \<and> (\<forall>ob \<in> set (mg_outbounds m). tagged ob)"

lemma seen_inv_start: "seen_inv merge_start"
  by (simp add: seen_inv_def merge_start_def builtin_tags_def mget_def)

lemma merge_outbounds_keeps: "merge_outbounds raws m = Inr m' \<Longrightarrow> seen_inv m \<Longrightarrow> seen_inv m'"
proof (induction raws arbitrary: m)
  case (Cons raw raws)
  then obtain built tag where c: "customOutboundToSingBox raw = Inr (built, tag)"
    by (auto split: sum.splits)
  note ok = customOutboundToSingBox_ok [OF c]
  let ?m = "m\<lparr>mg_seen := mput (ToLower tag) () (mg_seen m), mg_outbounds := mg_outbounds m @ [JObject built]\<rparr>"
  have "seen_inv ?m" if "mget (mg_seen m) (ToLower tag) = None"
  proof -
    have key: "tag_key (JObject built) = ToLower tag" by (simp add: tag_key_def ok(2))
    with Cons.prems(2) that have "ToLower tag \<notin> set (builtin_tags @ map tag_key (mg_outbounds m))"
      by (metis seen_inv_def)
    with Cons.prems(2) key ok(1) show ?thesis
      unfolding seen_inv_def by (auto simp: mget_mput)
  qed
  with Cons.prems Cons.IH c ok(3) show ?case
    by (cases "mget (mg_seen m) (ToLower tag)") (simp_all add: Let_def)
qed simp

lemma merge_configs_keeps: "merge_configs cfgs m = Inr m' \<Longrightarrow> seen_inv m \<Longrightarrow> seen_inv m'"
proof (induction cfgs arbitrary: m)
  case (Cons cfg cfgs)
  let ?m = "let m = (if mg_dns m = None \<and> 0 < length (CustomDNS cfg) then m\<lparr>mg_dns := cloneAnyMap (CustomDNS cfg)\<rparr> else m)
      in if mg_options m = None \<and> 0 < length (RouteOptions cfg) then m\<lparr>mg_options := cloneAnyMap (RouteOptions cfg)\<rparr> else m"
  from Cons.prems(1) obtain m1 where m1: "merge_outbounds (CustomOutbounds cfg) ?m = Inr m1"
    and rest: "merge_configs cfgs m1 = Inr m'"
    by (auto simp: Let_def split: sum.splits)
  have "seen_inv ?m" using Cons.prems(2) by (auto simp: Let_def seen_inv_def)
  with merge_outbounds_keeps [OF m1] Cons.IH [OF rest] show ?case by blast
qed simp

section \<open>Rules that are built\<close>

lemma customRouteRuleToSingBox_target:
  assumes "customRouteRuleToSingBox rule (Some tags) = Inr res" and "rule_match_map (rule_Match rule) \<noteq> []"
    and "\<forall>t \<in> set builtin_tags. mget tags t \<noteq> None"
  shows "\<exists>t. res = Some (mput ''outbound'' (JString t) (rule_match_map (rule_Match rule))) \<and> mget tags (ToLower t) \<noteq> None"
proof -
  have low: "ToLower ''direct'' = ''direct''" "ToLower ''block'' = ''block''" by code_simp+
  show ?thesis
    using assms low
    by (auto simp: customRouteRuleToSingBox_def Let_def builtin_tags_def split: if_splits option.splits)
qed

text \<open>The object a rule with a match becomes, sent to \<open>t\<close>.\<close>

definition rule_to :: "string \<Rightarrow> custom_route_rule \<Rightarrow> json" where
  "rule_to t rule = JObject (mput ''outbound'' (JString t) (rule_match_map (rule_Match rule)))"

definition live_rule :: "custom_route_rule \<Rightarrow> bool" where
  "live_rule rule \<longleftrightarrow> \<not> rule_Disabled rule \<and> rule_match_map (rule_Match rule) \<noteq> []"

lemma build_rules_covers:
  assumes "build_rules rules (Some tags) out = Inr out'" and "\<forall>t \<in> set builtin_tags. mget tags t \<noteq> None"
  shows "set out \<subseteq> set out'
    \<and> (\<forall>rule \<in> set rules. live_rule rule \<longrightarrow> (\<exists>t. rule_to t rule \<in> set out' \<and> mget tags (ToLower t) \<noteq> None))"
  using assms(1)
proof (induction rules arbitrary: out)
  case (Cons rule rules)
  show ?case
  proof (cases "rule_Disabled rule")
    case True
    with Cons show ?thesis by (auto simp: live_rule_def)
  next
    case False
    with Cons.prems obtain res where res: "customRouteRuleToSingBox rule (Some tags) = Inr res"
      by (auto split: sum.splits)
    show ?thesis
    proof (cases res)
      case None
      with res have "\<not> live_rule rule"
        using customRouteRuleToSingBox_target [OF res _ assms(2)] by (auto simp: live_rule_def)
      with None False res Cons show ?thesis by auto
    next
      case (Some built)
      with Cons.prems False res have rest: "build_rules rules (Some tags) (out @ [JObject built]) = Inr out'" by simp
      note IH = Cons.IH [OF rest]
      have "\<exists>t. rule_to t rule \<in> set out' \<and> mget tags (ToLower t) \<noteq> None" if "live_rule rule"
        using customRouteRuleToSingBox_target [OF res _ assms(2)] that Some IH
        by (auto simp: live_rule_def rule_to_def)
      with IH show ?thesis by auto
    qed
  qed
qed simp

lemma buildStructuredRouteRules_covers:
  assumes "buildStructuredRouteRules rules (Some tags) = Inr out" and "\<forall>t \<in> set builtin_tags. mget tags t \<noteq> None"
    and "rule \<in> set rules" and "live_rule rule"
  shows "\<exists>t. rule_to t rule \<in> set out \<and> mget tags (ToLower t) \<noteq> None"
  using assms build_rules_covers [of rules tags "[]" out]
  by (auto simp: buildStructuredRouteRules_def split: if_splits)

lemma merge_raw_keeps:
  "mg_seen (merge_raw raw m) = mg_seen m" "mg_outbounds (merge_raw raw m) = mg_outbounds m"
  "set (mg_rules m) \<subseteq> set (mg_rules (merge_raw raw m))"
  by (auto simp: merge_raw_def split: option.split)

lemma fold_merge_raw_keeps:
  "mg_seen (fold merge_raw raws m) = mg_seen m" "mg_outbounds (fold merge_raw raws m) = mg_outbounds m"
  "set (mg_rules m) \<subseteq> set (mg_rules (fold merge_raw raws m))"
  using merge_raw_keeps by (induction raws arbitrary: m) (simp_all, blast)

lemma merge_rules_keeps:
  assumes "merge_rules cfgs m = Inr m'"
  shows "mg_seen m' = mg_seen m" "mg_outbounds m' = mg_outbounds m" "set (mg_rules m) \<subseteq> set (mg_rules m')"
proof -
  have "mg_seen m' = mg_seen m \<and> mg_outbounds m' = mg_outbounds m \<and> set (mg_rules m) \<subseteq> set (mg_rules m')"
    using assms
  proof (induction cfgs arbitrary: m)
    case (Cons cfg cfgs)
    then obtain built where
      rest: "merge_rules cfgs (fold merge_raw (CustomRoutes cfg) (m\<lparr>mg_rules := mg_rules m @ built\<rparr>)) = Inr m'"
      by (auto split: sum.splits)
    from Cons.IH [OF rest] fold_merge_raw_keeps [where raws = "CustomRoutes cfg" and m = "m\<lparr>mg_rules := mg_rules m @ built\<rparr>"]
    show ?case by auto
  qed simp
  then show "mg_seen m' = mg_seen m" "mg_outbounds m' = mg_outbounds m" "set (mg_rules m) \<subseteq> set (mg_rules m')"
    by blast+
qed

lemma merge_rules_covers:
  assumes "merge_rules cfgs m = Inr m'" and "\<forall>t \<in> set builtin_tags. mget (mg_seen m) t \<noteq> None"
    and "cfg \<in> set cfgs" and "rule \<in> set (CustomRouteRules cfg)" and "live_rule rule"
  shows "\<exists>t. rule_to t rule \<in> set (mg_rules m') \<and> mget (mg_seen m) (ToLower t) \<noteq> None"
  using assms(1-3)
proof (induction cfgs arbitrary: m)
  case (Cons c cfgs)
  from Cons.prems(1) obtain built where b: "buildStructuredRouteRules (CustomRouteRules c) (Some (mg_seen m)) = Inr built"
    and rest: "merge_rules cfgs (fold merge_raw (CustomRoutes c) (m\<lparr>mg_rules := mg_rules m @ built\<rparr>)) = Inr m'"
    by (auto split: sum.splits)
  note keep = fold_merge_raw_keeps [where raws = "CustomRoutes c" and m = "m\<lparr>mg_rules := mg_rules m @ built\<rparr>"]
  show ?case
  proof (cases "cfg = c")
    case True
    then obtain t where "rule_to t rule \<in> set built" "mget (mg_seen m) (ToLower t) \<noteq> None"
      using buildStructuredRouteRules_covers [OF b Cons.prems(2)] assms(4,5) by blast
    then show ?thesis using keep(3) merge_rules_keeps(3) [OF rest] by auto
  next
    case False
    with Cons.prems Cons.IH [OF rest] keep(1) show ?thesis by simp
  qed
qed simp

lemma mergeCustomRouting_parts:
  assumes "mergeCustomRouting cfgs = Inr (outs, route, dns)"
  obtains m1 m where "merge_configs cfgs merge_start = Inr m1" "merge_rules cfgs m1 = Inr m" "merged m = (outs, route, dns)"
    "seen_inv m1" "mg_seen m = mg_seen m1" "outs = mg_outbounds m1"
proof -
  from assms obtain m1 m where 1: "merge_configs cfgs merge_start = Inr m1" "merge_rules cfgs m1 = Inr m"
    and 2: "merged m = (outs, route, dns)"
    by (auto simp: mergeCustomRouting_def split: sum.splits)
  have "outs = mg_outbounds m" using 2 by (auto simp: merged_def Let_def split: if_splits)
  with that [OF 1 2 merge_configs_keeps [OF 1(1) seen_inv_start]] merge_rules_keeps [OF 1(2)] show ?thesis by simp
qed

lemma merged_final: "merged m = (outs, Some route, dns) \<Longrightarrow> mget route ''final'' \<noteq> None"
  by (auto simp: merged_def Let_def mget_mput split: if_splits)

lemma merged_rules:
  assumes "merged m = (outs, route, dns)" and "mg_rules m \<noteq> []"
  shows "\<exists>r. route = Some r \<and> mget r ''rules'' = Some (JArray (mg_rules m))"
  using assms by (auto simp: merged_def Let_def mget_mput)

text \<open>The custom outbounds are tagged and no two of them share a tag, with each other or with a built-in one.\<close>

lemma mergeCustomRouting_tags:
  assumes "mergeCustomRouting cfgs = Inr (outs, route, dns)"
  shows "\<forall>ob \<in> set outs. tagged ob" "distinct (builtin_tags @ map tag_key outs)"
  using mergeCustomRouting_parts [OF assms] by (metis seen_inv_def)+

lemma mergeCustomRouting_final:
  "mergeCustomRouting cfgs = Inr (outs, Some route, dns) \<Longrightarrow> mget route ''final'' \<noteq> None"
  by (elim mergeCustomRouting_parts) (rule merged_final)

section \<open>Ports\<close>

text \<open>What the code means by a list of ports: the numbers first, a single entry unwrapped.\<close>

definition ports_entry :: "string list \<Rightarrow> json option" where
  "ports_entry values =
     (let vs = filter (\<lambda>v. v \<noteq> []) (map TrimSpace values);
          (numbers, others) = partition (\<lambda>v. ParseUint 16 v \<noteq> None) vs
      in case map (\<lambda>v. port_json (the (ParseUint 16 v))) numbers @ map JString others of
           [] \<Rightarrow> None
         | [j] \<Rightarrow> Some j
         | js \<Rightarrow> Some (JArray js))"

lemma Contains_char: "Contains v [c] \<longleftrightarrow> c \<in> set v"
  by (induction v) (auto simp: HasPrefix_def)

lemma ranges_are_not_numbers:
  assumes "Contains v ''-'' \<or> Contains v '':''"
  shows "ParseUint 16 v = None"
proof -
  have "\<not> is_digit CHR ''-''" "\<not> is_digit CHR '':''" by code_simp+
  with assms have "\<not> list_all is_digit v"
    unfolding Contains_char list_all_iff by blast
  then show ?thesis by (simp add: ParseUint_def parse_digits_def)
qed

lemma fold_appendPorts_step:
  "fold appendPorts_step values (ns, ss)
   = (let vs = filter (\<lambda>v. v \<noteq> []) (map TrimSpace values)
      in (ns @ map (\<lambda>v. the (ParseUint 16 v)) (filter (\<lambda>v. ParseUint 16 v \<noteq> None) vs),
          ss @ filter (\<lambda>v. ParseUint 16 v = None) vs))"
proof (induction "values" arbitrary: ns ss)
  case (Cons v vs)
  then show ?case
    using ranges_are_not_numbers [of "TrimSpace v"]
    by (cases "ParseUint 16 (TrimSpace v)") (auto simp: appendPorts_step_def Let_def)
qed simp

lemma appendPorts_entry:
  "appendPorts key values dst = (case ports_entry values of None \<Rightarrow> dst | Some j \<Rightarrow> mput key j dst)"
proof -
  define vs where "vs = filter (\<lambda>v. v \<noteq> []) (map TrimSpace values)"
  define ns where "ns = map (\<lambda>v. the (ParseUint 16 v)) (filter (\<lambda>v. ParseUint 16 v \<noteq> None) vs)"
  define ss where "ss = filter (\<lambda>v. ParseUint 16 v = None) vs"
  have entry: "ports_entry values = (case map port_json ns @ map JString ss of [] \<Rightarrow> None | [j] \<Rightarrow> Some j | js \<Rightarrow> Some (JArray js))"
    by (simp add: ports_entry_def Let_def ns_def ss_def vs_def o_def)
  have "fold appendPorts_step values ([], []) = (ns, ss)"
    by (simp add: fold_appendPorts_step Let_def ns_def ss_def vs_def)
  moreover have "values = [] \<Longrightarrow> ns = [] \<and> ss = []" by (simp add: ns_def ss_def vs_def)
  ultimately show ?thesis
    unfolding entry appendPorts_def
    by (cases ns; cases ss; cases "tl ns"; cases "tl ss") (auto simp: JStrings_def)
qed

section \<open>Properties\<close>

text \<open>
  C37: Every live structured rule of every node is emitted, and its outbound is one of the emitted tags
  up to letter case: merging nodes never drops a rule and never routes to an outbound that does not
  exist in some casing.
\<close>

theorem custom_rules_reach_an_outbound:
  assumes "mergeCustomRouting cfgs = Inr (outs, route, dns)" and "cfg \<in> set cfgs"
    and "rule \<in> set (CustomRouteRules cfg)" and "live_rule rule"
  shows "\<exists>r rs t. route = Some r \<and> mget r ''rules'' = Some (JArray rs) \<and> rule_to t rule \<in> set rs
    \<and> ToLower t \<in> set (builtin_tags @ map tag_key outs)"
proof -
  from assms(1) obtain m1 m where m: "merge_rules cfgs m1 = Inr m" "merged m = (outs, route, dns)"
    and seen: "seen_inv m1" and outs: "outs = mg_outbounds m1"
    by (elim mergeCustomRouting_parts)
  from seen outs have "mget (mg_seen m1) k \<noteq> None \<longleftrightarrow> k \<in> set (builtin_tags @ map tag_key outs)" for k
    by (simp only: seen_inv_def)
  with merge_rules_covers [OF m(1) _ assms(2-4)] obtain t where t: "rule_to t rule \<in> set (mg_rules m)"
      "ToLower t \<in> set (builtin_tags @ map tag_key outs)"
    by auto
  then have "mg_rules m \<noteq> []" by auto
  with merged_rules [OF m(2)] t show ?thesis by blast
qed

text \<open>
  C38: \<open>appendPorts\<close> is its reference: the entry holds the trimmed ports that are 16-bit numbers as
  numbers, then the others as strings, each in order; one port stands alone and no port leaves the
  match as it was. In particular the test for ranges changes nothing.
\<close>

theorem appendPorts_is_ports_entry:
  "mget (appendPorts key values dst) k
   = (if k = key \<and> ports_entry values \<noteq> None then ports_entry values else mget dst k)"
  by (simp add: appendPorts_entry mget_mput split: option.split)

text \<open>A node with one outbound and a rule that names it in another case.\<close>

definition shouting_node :: node_config where
  "shouting_node = zero_config
     \<lparr>Protocol := ''vless'',
      CustomOutbounds := [\<lparr>ob_Tag = '' Proxy '', ob_Protocol = ''HY2'', ob_Settings = [(''server'', JString ''h'')], ob_ProxyTag = []\<rparr>],
      CustomRouteRules :=
        [\<lparr>rule_Name = ''r'', rule_Disabled = False,
          rule_Match = \<lparr>Domains = [''a.example''], DomainSuffixes = [], IPCIDRs = [], Ports = ['' 443'', ''1000-2000''],
             Networks = [], SourceCIDRs = [], SourcePorts = []\<rparr>,
          rule_Action = \<lparr>act_Type = ''Route'', act_Target = ''PROXY''\<rparr>\<rparr>]\<rparr>"

lemma shouting_routing:
  "buildCustomRouting shouting_node =
     Inr ([JObject [(''server'', JString ''h''), (''type'', JString ''hysteria2''), (''tag'', JString ''Proxy'')]],
       Some [(''rules'', JArray [JObject [(''domain'', JArray [JString ''a.example'']),
           (''port'', JArray [JNum ''443'', JString ''1000-2000'']), (''outbound'', JString ''PROXY'')]]),
         (''final'', JString ''direct'')], None)"
  by code_simp

theorem custom_rules_reach_an_outbound_witness:
  "\<exists>outs r rs t. mergeCustomRouting [shouting_node] = Inr (outs, Some r, None) \<and> mget r ''rules'' = Some (JArray rs)
     \<and> rule_to t (hd (CustomRouteRules shouting_node)) \<in> set rs \<and> ToLower t \<in> set (builtin_tags @ map tag_key outs)"
proof -
  have "live_rule (hd (CustomRouteRules shouting_node))" by code_simp
  moreover have "hd (CustomRouteRules shouting_node) \<in> set (CustomRouteRules shouting_node)"
    by (simp add: shouting_node_def)
  ultimately show ?thesis
    using custom_rules_reach_an_outbound [OF shouting_routing [unfolded buildCustomRouting_def], of shouting_node]
      shouting_routing [unfolded buildCustomRouting_def]
    by auto
qed

text \<open>The rule is emitted with its own spelling, which is not the tag of any outbound.\<close>

lemma target_keeps_its_case:
  "\<exists>outs r rs. buildCustomRouting shouting_node = Inr (outs, Some r, None) \<and> mget r ''rules'' = Some (JArray rs)
     \<and> (\<forall>j \<in> set rs. string_field ''outbound'' j \<notin> set (builtin_tags @ map (string_field ''tag'') outs))"
  by (simp add: shouting_routing string_field_def obj_def builtin_tags_def)

end
