(* ===== verification/Xboard_Config.thy ===== *)
theory Xboard_Config
  imports Custom_Routing Client
begin

text \<open>
  The configuration generator of \<open>cmd/star1ight-agent/xboard_config.go\<close>: the inbound of each
  protocol, the self-signed certificate, the sing-box document and \<open>generateXboardConfig\<close>.

  The operating system, the random source, the clock and the libraries that make certificates and
  encode JSON are the record \<open>host\<close> over the outside world \<open>'w\<close>, with files \<open>'f\<close>, keys \<open>'k\<close> and
  times \<open>'t\<close>.
\<close>

section \<open>Addresses\<close>

text \<open>\<open>net.ParseIP\<close>: an address without a zone.\<close>

definition ParseIP :: "string \<Rightarrow> addr option" where
  "ParseIP s = (case ParseAddr s of Some a \<Rightarrow> if hasZone a then None else Some a | None \<Rightarrow> None)"

section \<open>The host\<close>

record 't certificate =
  SerialNumber :: nat
  CommonName :: string
  NotBefore :: 't
  NotAfter :: 't
  KeyUsage :: "string list"
  ExtKeyUsage :: "string list"
  IPAddresses :: "addr list"
  DNSNames :: "string list"

record ('f, 'k, 't, 'w) host =
  Stat :: "string \<Rightarrow> 'w \<Rightarrow> error option"
  MkdirAll :: "string \<Rightarrow> 'w \<Rightarrow> (error + unit) \<times> 'w"
  WriteFile :: "string \<Rightarrow> string \<Rightarrow> 'w \<Rightarrow> (error + unit) \<times> 'w"
  OpenFile :: "string \<Rightarrow> 'w \<Rightarrow> (error + 'f) \<times> 'w"
  CloseFile :: "'f \<Rightarrow> 'w \<Rightarrow> (error + unit) \<times> 'w"
  pem_Encode :: "'f \<Rightarrow> string \<Rightarrow> string \<Rightarrow> 'w \<Rightarrow> (error + unit) \<times> 'w"
  GenerateKey :: "nat \<Rightarrow> 'w \<Rightarrow> (error + 'k) \<times> 'w"
  rand_Int :: "nat \<Rightarrow> 'w \<Rightarrow> (error + nat) \<times> 'w"
  Now :: "'w \<Rightarrow> 't"
  time_Add :: "int \<Rightarrow> 't \<Rightarrow> 't"
  time_AddDate :: "int \<Rightarrow> int \<Rightarrow> int \<Rightarrow> 't \<Rightarrow> 't"
  CreateCertificate :: "'t certificate \<Rightarrow> 'k \<Rightarrow> 'w \<Rightarrow> (error + string) \<times> 'w"
  MarshalPKCS1PrivateKey :: "'k \<Rightarrow> string"
  MarshalIndent :: "json \<Rightarrow> error + string"

text \<open>The early return of \<open>if err != nil { return err }\<close>.\<close>

definition or_return :: "(error + 'a) \<times> 'w \<Rightarrow> ('a \<Rightarrow> 'w \<Rightarrow> (error + 'b) \<times> 'w) \<Rightarrow> (error + 'b) \<times> 'w" where
  "or_return r k = (case r of (Inl err, w) \<Rightarrow> (Inl err, w) | (Inr x, w) \<Rightarrow> k x w)"

section \<open>Options\<close>

record xboard_options =
  PanelURL :: string
  PanelToken :: string
  PanelNodeID :: string
  PanelNodeType :: string
  NodeMode :: string
  VLESSNodeID :: string
  HY2NodeID :: string
  Out :: string
  NodeTypeOutPath :: string
  CertPath :: string
  KeyPath :: string

definition normalizeNodeMode :: "string \<Rightarrow> string" where
  "normalizeNodeMode v =
     (let m = ToLower (TrimSpace v)
      in if m \<in> {''vless'', ''vless-reality'', ''reality''} then ''vless''
         else if m \<in> {''hy2'', ''hysteria'', ''hysteria2''} then ''hy2''
         else if m \<in> {''ss'', ''shadowsocks'', ''ss2022''} then ''ss''
         else if m \<in> {''both'', ''dual'', ''all''} then ''both''
         else m)"

definition defaultListen :: "string \<Rightarrow> string" where
  "defaultListen listen = (if listen = [] then ''::'' else listen)"

definition normalizeInboundNetworks :: "string \<Rightarrow> string list" where
  "normalizeInboundNetworks raw =
     (if raw = [] then []
      else
        (let fields = FieldsFunc (\<lambda>r. r = CHR '','' \<or> r = CHR 0x0A \<or> r = CHR 0x09 \<or> r = CHR '' '') raw
         in fold (\<lambda>field out.
                let field = ToLower (TrimSpace field)
                in if field = [] then out
                   else if field = ''tcp'' \<or> field = ''udp'' then out @ [field] else out)
              fields []))"

section \<open>The certificate\<close>

definition certificate_template :: "('f, 'k, 't, 'w) host \<Rightarrow> nat \<Rightarrow> 't \<Rightarrow> string \<Rightarrow> 't certificate" where
  "certificate_template S serial now serverName =
     (let tpl =
        \<lparr>SerialNumber = serial, CommonName = serverName, NotBefore = time_Add S (- 3600000000000) now,
         NotAfter = time_AddDate S 10 0 0 now,
         KeyUsage = [''KeyEncipherment'', ''DigitalSignature''], ExtKeyUsage = [''ServerAuth''],
         IPAddresses = [], DNSNames = []\<rparr>
      in case ParseIP serverName of
           Some ip \<Rightarrow> tpl\<lparr>IPAddresses := [ip]\<rparr>
         | None \<Rightarrow> tpl\<lparr>DNSNames := [serverName]\<rparr>)"

text \<open>A PEM file: opened, encoded and closed; it is closed when the encoding fails, too.\<close>

definition write_pem :: "('f, 'k, 't, 'w) host \<Rightarrow> string \<Rightarrow> string \<Rightarrow> string \<Rightarrow> 'w \<Rightarrow> (error + unit) \<times> 'w" where
  "write_pem S path kind bytes w =
     or_return (OpenFile S path w) (\<lambda>file w.
       case pem_Encode S file kind bytes w of
         (Inl err, w) \<Rightarrow> (Inl err, snd (CloseFile S file w))
       | (Inr _, w) \<Rightarrow> CloseFile S file w)"

definition ensureSelfSignedCert ::
  "('f, 'k, 't, 'w) host \<Rightarrow> string \<Rightarrow> string \<Rightarrow> string \<Rightarrow> 'w \<Rightarrow> (error + unit) \<times> 'w" where
  "ensureSelfSignedCert S certPath keyPath serverName w =
     (if certPath = [] \<or> keyPath = [] then (Inl (Errorf ''cert/key path is empty'' []), w)
      else if Stat S certPath w = None \<and> Stat S keyPath w = None then (Inr (), w)
      else
        or_return (MkdirAll S (filepath_Dir certPath) w) (\<lambda>_ w.
        or_return (MkdirAll S (filepath_Dir keyPath) w) (\<lambda>_ w.
        or_return (GenerateKey S 2048 w) (\<lambda>key w.
        or_return (rand_Int S (2 ^ 128) w) (\<lambda>serial w.
        or_return (CreateCertificate S (certificate_template S serial (Now S w) serverName) key w) (\<lambda>der w.
        or_return (write_pem S certPath ''CERTIFICATE'' der w) (\<lambda>_ w.
        write_pem S keyPath ''RSA PRIVATE KEY'' (MarshalPKCS1PrivateKey S key) w)))))))"

section \<open>Inbounds\<close>

definition vlessInboundFromNodeConfig :: "node_config \<Rightarrow> string \<Rightarrow> error + (string, json) gomap" where
  "vlessInboundFromNodeConfig cfg listen =
     (if sint (ServerPort cfg) \<le> 0 then Inl (Errorf ''vless server_port is missing'' [])
      else if tls_PrivateKey (TLSSettings cfg) = [] then Inl (Errorf ''vless reality private_key is missing'' [])
      else
        (let serverName = firstNonEmpty [tls_ServerName (TLSSettings cfg), ''www.microsoft.com''];
             handshakePort =
               (if tls_ServerPort (TLSSettings cfg) \<noteq> [] then
                  (case Atoi (tls_ServerPort (TLSSettings cfg)) of
                     Some p \<Rightarrow> if 0 < sint p then p else 443
                   | None \<Rightarrow> 443)
                else 443);
             shortID = tls_ShortID (TLSSettings cfg);
             shortIDs = (if shortID \<noteq> [] then [shortID] else [])
         in Inr
             [(''type'', JString ''vless''), (''tag'', JString ''vless-in''), (''listen'', JString listen),
              (''listen_port'', JNum (Itoa (ServerPort cfg))), (''users'', JArray []),
              (''tls'', JObject
                 [(''enabled'', JBool True), (''server_name'', JString serverName),
                  (''reality'', JObject
                     [(''enabled'', JBool True),
                      (''handshake'', JObject [(''server'', JString serverName), (''server_port'', JNum (Itoa handshakePort))]),
                      (''private_key'', JString (tls_PrivateKey (TLSSettings cfg))),
                      (''short_id'', JStrings shortIDs)])])]))"

definition hy2InboundFromNodeConfig ::
  "('f, 'k, 't, 'w) host \<Rightarrow> node_config \<Rightarrow> xboard_options \<Rightarrow> string \<Rightarrow> 'w \<Rightarrow> (error + (string, json) gomap) \<times> 'w" where
  "hy2InboundFromNodeConfig S cfg opts listen w =
     (if sint (ServerPort cfg) \<le> 0 then (Inl (Errorf ''hysteria2 server_port is missing'' []), w)
      else
        (let outDir = filepath_Dir (Out opts);
             certPath = (if CertPath opts = [] then filepath_Join [outDir, ''cert.pem''] else CertPath opts);
             keyPath = (if KeyPath opts = [] then filepath_Join [outDir, ''key.pem''] else KeyPath opts);
             serverName = firstNonEmpty [ServerName cfg, tls_ServerName (TLSSettings cfg), ''bing.com'']
         in or_return (ensureSelfSignedCert S certPath keyPath serverName w) (\<lambda>_ w.
              let m =
                [(''type'', JString ''hysteria2''), (''tag'', JString ''hy2-in''), (''listen'', JString listen),
                 (''listen_port'', JNum (Itoa (ServerPort cfg))), (''users'', JArray []),
                 (''tls'', JObject
                    [(''enabled'', JBool True), (''server_name'', JString serverName),
                     (''certificate_path'', JString certPath), (''key_path'', JString keyPath)])];
                  m = (if 0 < sint (UpMbps cfg) then mput ''up_mbps'' (JNum (Itoa (UpMbps cfg))) m else m);
                  m = (if 0 < sint (DownMbps cfg) then mput ''down_mbps'' (JNum (Itoa (DownMbps cfg))) m else m);
                  m = (if Obfs cfg \<noteq> [] \<and> ObfsPassword cfg \<noteq> []
                       then mput ''obfs'' (JObject [(''type'', JString (Obfs cfg)), (''password'', JString (ObfsPassword cfg))]) m
                       else m)
              in (Inr m, w))))"

definition shadowsocksInboundFromNodeConfig :: "node_config \<Rightarrow> string \<Rightarrow> error + (string, json) gomap" where
  "shadowsocksInboundFromNodeConfig cfg listen =
     (if sint (ServerPort cfg) \<le> 0 then Inl (Errorf ''shadowsocks server_port is missing'' [])
      else if TrimSpace (Cipher cfg) = [] then Inl (Errorf ''shadowsocks cipher is missing'' [])
      else if TrimSpace (ServerKey cfg) = [] then Inl (Errorf ''shadowsocks server_key is missing'' [])
      else
        (let m =
           [(''type'', JString ''shadowsocks''), (''tag'', JString ''ss-in''), (''listen'', JString listen),
            (''listen_port'', JNum (Itoa (ServerPort cfg))), (''method'', JString (Cipher cfg)),
            (''password'', JString (ServerKey cfg)), (''managed'', JBool True)];
             networks = normalizeInboundNetworks (Network cfg)
         in Inr (if 0 < length networks then mput ''network'' (JStrings networks) m else m)))"

definition inboundFromNodeConfig ::
  "('f, 'k, 't, 'w) host \<Rightarrow> node_config \<Rightarrow> xboard_options \<Rightarrow> string \<Rightarrow> 'w \<Rightarrow> (error + (string, json) gomap) \<times> 'w" where
  "inboundFromNodeConfig S cfg opts listen w =
     (let protocol = ToLower (Protocol cfg)
      in if protocol = ''vless'' then (vlessInboundFromNodeConfig cfg listen, w)
         else if protocol \<in> {''hysteria'', ''hysteria2''} then
           (if Version cfg \<noteq> 0 \<and> Version cfg \<noteq> 2
            then (Inl (Errorf ''unsupported hysteria version %d'' [Itoa (Version cfg)]), w)
            else hy2InboundFromNodeConfig S cfg opts listen w)
         else if protocol = ''shadowsocks'' then (shadowsocksInboundFromNodeConfig cfg listen, w)
         else (Inl (Errorf ''unsupported node protocol %q'' [Protocol cfg]), w))"

section \<open>The document\<close>

definition singbox_root ::
  "json list \<Rightarrow> json list \<Rightarrow> (string, json) gomap option \<Rightarrow> (string, json) gomap option \<Rightarrow> (string, json) gomap" where
  "singbox_root inbounds customOutbounds routeConfig dnsConfig =
     (let outbounds =
        [JObject [(''type'', JString ''direct''), (''tag'', JString ''direct'')],
         JObject [(''type'', JString ''block''), (''tag'', JString ''block'')]] @ customOutbounds;
          route =
            (case routeConfig of
               None \<Rightarrow> [(''final'', JString ''direct'')]
             | Some route \<Rightarrow> if mget route ''final'' = None then mput ''final'' (JString ''direct'') route else route);
          root =
            [(''log'', JObject [(''level'', JString ''warn''), (''timestamp'', JBool True)]),
             (''inbounds'', JArray inbounds), (''outbounds'', JArray outbounds), (''route'', JObject route)]
      in case dnsConfig of
           None \<Rightarrow> root
         | Some dns \<Rightarrow> if 0 < length dns then mput ''dns'' (JObject dns) root else root)"

definition buildSingBoxConfigFromInbounds ::
  "('f, 'k, 't, 'w) host \<Rightarrow> json list \<Rightarrow> routing \<Rightarrow> error + string" where
  "buildSingBoxConfigFromInbounds S inbounds routing =
     (case routing of (customOutbounds, routeConfig, dnsConfig) \<Rightarrow>
        MarshalIndent S (JObject (singbox_root inbounds customOutbounds routeConfig dnsConfig)))"

definition buildSingBoxConfigFromNode ::
  "('f, 'k, 't, 'w) host \<Rightarrow> node_config \<Rightarrow> xboard_options \<Rightarrow> 'w \<Rightarrow> (error + string) \<times> 'w" where
  "buildSingBoxConfigFromNode S cfg opts w =
     or_return (inboundFromNodeConfig S cfg opts (defaultListen (ListenIP cfg)) w) (\<lambda>inbound w.
       case buildCustomRouting cfg of
         Inl err \<Rightarrow> (Inl err, w)
       | Inr routing \<Rightarrow> (buildSingBoxConfigFromInbounds S [JObject inbound] routing, w))"

text \<open>The modes with one node: fetch it, build its inbound and its routing.\<close>

definition one_node ::
  "('f, 'k, 't, 'w) host \<Rightarrow> 'w http \<Rightarrow> xboard_options \<Rightarrow> string \<Rightarrow> string \<Rightarrow> 'w \<Rightarrow> (error + json list \<times> routing) \<times> 'w" where
  "one_node S H opts i nodeType w =
     or_return (FetchNodeConfig H (NewClient (PanelURL opts) (PanelToken opts) i nodeType) w) (\<lambda>cfg w.
     or_return (inboundFromNodeConfig S cfg opts (defaultListen (ListenIP cfg)) w) (\<lambda>inbound w.
       case buildCustomRouting cfg of
         Inl err \<Rightarrow> (Inl err, w)
       | Inr routing \<Rightarrow> (Inr ([JObject inbound], routing), w)))"

definition wrap_error :: "string \<Rightarrow> (error + 'a) \<times> 'w \<Rightarrow> (error + 'a) \<times> 'w" where
  "wrap_error msg r = (case r of (Inl err, w) \<Rightarrow> (Inl (Wrap msg err), w) | (Inr x, w) \<Rightarrow> (Inr x, w))"

definition two_nodes ::
  "('f, 'k, 't, 'w) host \<Rightarrow> 'w http \<Rightarrow> xboard_options \<Rightarrow> string \<Rightarrow> string \<Rightarrow> 'w \<Rightarrow> (error + json list \<times> routing) \<times> 'w" where
  "two_nodes S H opts vlessID hy2ID w =
     or_return (wrap_error ''fetch vless node config''
       (FetchNodeConfig H (NewClient (PanelURL opts) (PanelToken opts) vlessID ''vless'') w)) (\<lambda>vlessCfg w.
     or_return (wrap_error ''fetch hy2 node config''
       (FetchNodeConfig H (NewClient (PanelURL opts) (PanelToken opts) hy2ID ''hysteria'') w)) (\<lambda>hy2Cfg w.
     or_return (inboundFromNodeConfig S vlessCfg opts (defaultListen (ListenIP vlessCfg)) w) (\<lambda>vlessInbound w.
     or_return (inboundFromNodeConfig S hy2Cfg opts (defaultListen (ListenIP hy2Cfg)) w) (\<lambda>hy2Inbound w.
       case mergeCustomRouting [vlessCfg, hy2Cfg] of
         Inl err \<Rightarrow> (Inl err, w)
       | Inr routing \<Rightarrow> (Inr ([JObject vlessInbound, JObject hy2Inbound], routing), w)))))"

definition selected_mode :: "xboard_options \<Rightarrow> string" where
  "selected_mode opts =
     (let mode = normalizeNodeMode (NodeMode opts);
          mode = (if mode = [] \<or> mode = ''auto'' then normalizeNodeMode (PanelNodeType opts) else mode)
      in if mode = [] \<or> mode = ''auto'' then ''vless'' else mode)"

definition mode_parts ::
  "('f, 'k, 't, 'w) host \<Rightarrow> 'w http \<Rightarrow> xboard_options \<Rightarrow> string \<Rightarrow> 'w \<Rightarrow> (error + json list \<times> routing) \<times> 'w" where
  "mode_parts S H opts mode w =
     (if mode = ''vless'' then
        (let i = firstNonEmpty [VLESSNodeID opts, PanelNodeID opts]
         in if i = [] then (Inl (Errorf ''vless mode requires --panel-node-id or --vless-node-id'' []), w)
            else one_node S H opts i ''vless'' w)
      else if mode = ''hy2'' then
        (let i = firstNonEmpty [HY2NodeID opts, PanelNodeID opts]
         in if i = [] then (Inl (Errorf ''hy2 mode requires --panel-node-id or --hy2-node-id'' []), w)
            else one_node S H opts i ''hysteria'' w)
      else if mode = ''both'' then
        (let vlessID = firstNonEmpty [VLESSNodeID opts, PanelNodeID opts];
             hy2ID = HY2NodeID opts
         in if vlessID = [] \<or> hy2ID = []
            then (Inl (Errorf ''both mode requires --vless-node-id and --hy2-node-id'' []), w)
            else two_nodes S H opts vlessID hy2ID w)
      else if mode = ''ss'' then
        (let i = firstNonEmpty [PanelNodeID opts]
         in if i = [] then (Inl (Errorf ''ss mode requires --panel-node-id'' []), w)
            else one_node S H opts i ''shadowsocks'' w)
      else (Inl (Errorf ''--node-mode must be vless, hy2, ss, or both'' []), w))"

definition generateXboardConfig ::
  "('f, 'k, 't, 'w) host \<Rightarrow> 'w http \<Rightarrow> xboard_options \<Rightarrow> 'w \<Rightarrow> (error + string) \<times> 'w" where
  "generateXboardConfig S H opts w =
     (let mode = selected_mode opts
      in or_return (mode_parts S H opts mode w) (\<lambda>(inbounds, routing) w.
         or_return (buildSingBoxConfigFromInbounds S inbounds routing, w) (\<lambda>data w.
         or_return (MkdirAll S (filepath_Dir (Out opts)) w) (\<lambda>_ w.
         or_return (WriteFile S (Out opts) data w) (\<lambda>_ w.
           if NodeTypeOutPath opts \<noteq> [] then
             or_return (MkdirAll S (filepath_Dir (NodeTypeOutPath opts)) w) (\<lambda>_ w.
             or_return (WriteFile S (NodeTypeOutPath opts) (mode @ [CHR 0x0A]) w) (\<lambda>_ w. (Inr mode, w)))
           else (Inr mode, w))))))"

text \<open>The exit code of the command; \<open>parsed\<close> is what the flags leave in the options, None when they do not parse.\<close>

definition runXboardGenerateConfig ::
  "('f, 'k, 't, 'w) host \<Rightarrow> 'w http \<Rightarrow> xboard_options option \<Rightarrow> 'w \<Rightarrow> int \<times> 'w" where
  "runXboardGenerateConfig S H parsed w =
     (case parsed of
        None \<Rightarrow> (2, w)
      | Some opts \<Rightarrow>
          if PanelURL opts = [] \<or> PanelToken opts = [] \<or> Out opts = [] then (2, w)
          else
            (let opts = (if NodeMode opts = [] \<and> PanelNodeType opts \<noteq> []
                         then opts\<lparr>NodeMode := normalizeNodeMode (PanelNodeType opts)\<rparr> else opts);
                 opts = (if NodeMode opts = [] then opts\<lparr>NodeMode := ''vless''\<rparr> else opts)
             in case generateXboardConfig S H opts w of
                  (Inl err, w) \<Rightarrow> (1, w)
                | (Inr mode, w) \<Rightarrow> (0, w)))"

section \<open>Well-formed documents\<close>

text \<open>An inbound the agent knows, by its type and tag, that listens somewhere.\<close>

definition inbound_ok :: "json \<Rightarrow> bool" where
  "inbound_ok j \<longleftrightarrow>
     (string_field ''type'' j, string_field ''tag'' j)
       \<in> {(''vless'', ''vless-in''), (''hysteria2'', ''hy2-in''), (''shadowsocks'', ''ss-in'')}
     \<and> string_field ''listen'' j \<noteq> []
     \<and> (case mget (obj j) ''listen_port'' of
           Some (JNum n) \<Rightarrow> (case Atoi n of Some p \<Rightarrow> 0 < sint p | None \<Rightarrow> False)
         | _ \<Rightarrow> False)"

definition well_formed_config :: "(string, json) gomap \<Rightarrow> bool" where
  "well_formed_config root =
     (case (mget root ''inbounds'', mget root ''outbounds'', mget root ''route'') of
        (Some (JArray inbounds), Some (JArray outbounds), Some (JObject route)) \<Rightarrow>
          inbounds \<noteq> [] \<and> list_all inbound_ok inbounds
          \<and> list_all tagged outbounds \<and> distinct (map tag_key outbounds)
          \<and> set builtin_tags \<subseteq> set (map tag_key outbounds)
          \<and> mget route ''final'' \<noteq> None
      | _ \<Rightarrow> False)"

lemma or_return_Inr:
  "or_return r k = (Inr y, w') \<longleftrightarrow> (\<exists>x w. r = (Inr x, w) \<and> k x w = (Inr y, w'))"
  by (cases r) (auto simp: or_return_def split: sum.split)

lemma case_return_Inr:
  "(case r of Inl err \<Rightarrow> (Inl err, w) | Inr x \<Rightarrow> (Inr (f x), w)) = (Inr y, w') \<longleftrightarrow> (\<exists>x. r = Inr x \<and> y = f x \<and> w' = w)"
  by (auto split: sum.split)

lemmas inbound_fields = inbound_ok_def string_field_def obj_def mget_mput

lemma vless_inbound_ok:
  "vlessInboundFromNodeConfig cfg listen = Inr m \<Longrightarrow> listen \<noteq> [] \<Longrightarrow> inbound_ok (JObject m)"
  by (auto simp: vlessInboundFromNodeConfig_def Let_def inbound_fields split: if_splits)

lemma shadowsocks_inbound_ok:
  "shadowsocksInboundFromNodeConfig cfg listen = Inr m \<Longrightarrow> listen \<noteq> [] \<Longrightarrow> inbound_ok (JObject m)"
  by (auto simp: shadowsocksInboundFromNodeConfig_def Let_def inbound_fields split: if_splits)

lemma hy2_inbound_ok:
  "hy2InboundFromNodeConfig S cfg opts listen w = (Inr m, w') \<Longrightarrow> listen \<noteq> [] \<Longrightarrow> inbound_ok (JObject m)"
  unfolding hy2InboundFromNodeConfig_def Let_def
  by (cases "sint (ServerPort cfg) \<le> 0"; cases "Obfs cfg \<noteq> [] \<and> ObfsPassword cfg \<noteq> []"; cases "0 < sint (DownMbps cfg)";
      cases "0 < sint (UpMbps cfg)") (auto simp: or_return_Inr inbound_fields)

lemma inbound_built_ok:
  assumes "inboundFromNodeConfig S cfg opts (defaultListen l) w = (Inr m, w')"
  shows "inbound_ok (JObject m)"
proof -
  have "defaultListen l \<noteq> []" by (simp add: defaultListen_def)
  with assms show ?thesis
    using vless_inbound_ok shadowsocks_inbound_ok hy2_inbound_ok
    by (auto simp: inboundFromNodeConfig_def Let_def split: if_splits)
qed

lemma merged_config_ok:
  assumes "mergeCustomRouting cfgs = Inr (outs, route, dns)" and "inbounds \<noteq> []" and "list_all inbound_ok inbounds"
  shows "well_formed_config (singbox_root inbounds outs route dns)"
proof -
  note tags = mergeCustomRouting_tags [OF assms(1)]
  have builtin: "tag_key (JObject [(''type'', JString t), (''tag'', JString t)]) = t"
    "tagged (JObject [(''type'', JString t), (''tag'', JString t)])" if "t \<in> set builtin_tags" for t
  proof -
    have "ToLower ''direct'' = ''direct''" "ToLower ''block'' = ''block''" by code_simp+
    with that show "tag_key (JObject [(''type'', JString t), (''tag'', JString t)]) = t"
      "tagged (JObject [(''type'', JString t), (''tag'', JString t)])"
      by (auto simp: tag_key_def tagged_def string_field_def obj_def builtin_tags_def)
  qed
  then have "tag_key (JObject [(''type'', JString ''direct''), (''tag'', JString ''direct'')]) = ''direct''"
    "tag_key (JObject [(''type'', JString ''block''), (''tag'', JString ''block'')]) = ''block''"
    "tagged (JObject [(''type'', JString ''direct''), (''tag'', JString ''direct'')])"
    "tagged (JObject [(''type'', JString ''block''), (''tag'', JString ''block'')])"
    by (simp_all add: builtin_tags_def)
  then show ?thesis
    using assms(2,3) tags mergeCustomRouting_final
    by (auto simp: well_formed_config_def singbox_root_def Let_def builtin_tags_def list_all_iff mget_mput
        split: option.split)
qed

lemma mode_parts_ok:
  assumes "mode_parts S H opts mode w = (Inr (inbounds, outs, route, dns), w')"
  shows "well_formed_config (singbox_root inbounds outs route dns)" "mode \<in> {''vless'', ''hy2'', ''ss'', ''both''}"
proof -
  have one: "well_formed_config (singbox_root inbounds outs route dns)"
    if one: "one_node S H opts i ty w = (Inr (inbounds, outs, route, dns), w')" for i ty
  proof -
    from one obtain cfg w1 m w2 where "inboundFromNodeConfig S cfg opts (defaultListen (ListenIP cfg)) w1 = (Inr m, w2)"
      and "mergeCustomRouting [cfg] = Inr (outs, route, dns)" and "inbounds = [JObject m]"
      by (auto simp: one_node_def or_return_Inr case_return_Inr buildCustomRouting_def)
    with inbound_built_ok show ?thesis by (intro merged_config_ok) auto
  qed
  have two: "well_formed_config (singbox_root inbounds outs route dns)"
    if two: "two_nodes S H opts i j w = (Inr (inbounds, outs, route, dns), w')" for i j
  proof -
    from two obtain c1 c2 w1 w2 w3 w4 m1 m2 where "inboundFromNodeConfig S c1 opts (defaultListen (ListenIP c1)) w1 = (Inr m1, w2)"
      and "inboundFromNodeConfig S c2 opts (defaultListen (ListenIP c2)) w3 = (Inr m2, w4)"
      and "mergeCustomRouting [c1, c2] = Inr (outs, route, dns)" and "inbounds = [JObject m1, JObject m2]"
      by (auto simp: two_nodes_def or_return_Inr case_return_Inr)
    with inbound_built_ok show ?thesis by (intro merged_config_ok) auto
  qed
  show "well_formed_config (singbox_root inbounds outs route dns)" "mode \<in> {''vless'', ''hy2'', ''ss'', ''both''}"
    using assms one two unfolding mode_parts_def by (auto simp: Let_def split: if_splits)
qed

section \<open>Properties\<close>

text \<open>
  C34: The generator writes well-formed documents only: when it returns a mode it has written the
  encoding of a document whose inbounds are ones the agent knows, each listening on a positive port,
  whose outbounds are typed and tagged, no two with the same tag, with \<open>direct\<close> and \<open>block\<close> among
  them, and whose route has a final outbound; and it has written the mode where asked.
\<close>

theorem generated_config_is_well_formed:
  assumes "generateXboardConfig S H opts w = (Inr mode, w')"
  shows "mode \<in> {''vless'', ''hy2'', ''ss'', ''both''}
    \<and> (\<exists>root data w1 w2. well_formed_config root \<and> MarshalIndent S (JObject root) = Inr data
        \<and> WriteFile S (Out opts) data w1 = (Inr (), w2)
        \<and> (if NodeTypeOutPath opts = [] then w' = w2
           else \<exists>w3. WriteFile S (NodeTypeOutPath opts) (mode @ [CHR 0x0A]) w3 = (Inr (), w')))"
proof -
  from assms obtain inbounds outs route dns wa where
    parts: "mode_parts S H opts (selected_mode opts) w = (Inr (inbounds, outs, route, dns), wa)"
    and "or_return (buildSingBoxConfigFromInbounds S inbounds (outs, route, dns), wa) (\<lambda>data w.
         or_return (MkdirAll S (filepath_Dir (Out opts)) w) (\<lambda>_ w.
         or_return (WriteFile S (Out opts) data w) (\<lambda>_ w.
           if NodeTypeOutPath opts \<noteq> [] then
             or_return (MkdirAll S (filepath_Dir (NodeTypeOutPath opts)) w) (\<lambda>_ w.
             or_return (WriteFile S (NodeTypeOutPath opts) (selected_mode opts @ [CHR 0x0A]) w) (\<lambda>_ w. (Inr (selected_mode opts), w)))
           else (Inr (selected_mode opts), w)))) = (Inr mode, w')"
    by (auto simp: generateXboardConfig_def Let_def or_return_Inr [of "mode_parts S H opts (selected_mode opts) w"])
  then obtain data w1 w2 where
    data: "buildSingBoxConfigFromInbounds S inbounds (outs, route, dns) = Inr data"
    and written: "WriteFile S (Out opts) data w1 = (Inr (), w2)"
    and mode: "mode = selected_mode opts"
    and rest: "if NodeTypeOutPath opts = [] then w' = w2
      else \<exists>w3. WriteFile S (NodeTypeOutPath opts) (mode @ [CHR 0x0A]) w3 = (Inr (), w')"
    by (cases "NodeTypeOutPath opts = []") (auto simp: or_return_Inr)
  have "MarshalIndent S (JObject (singbox_root inbounds outs route dns)) = Inr data"
    using data by (simp add: buildSingBoxConfigFromInbounds_def)
  moreover have "mode \<in> {''vless'', ''hy2'', ''ss'', ''both''}"
    unfolding mode by (rule mode_parts_ok(2) [OF parts])
  ultimately show ?thesis using mode_parts_ok(1) [OF parts] written rest by blast
qed

text \<open>A panel with one node and a host whose world is the list of the files written.\<close>

definition node_http :: "node_config \<Rightarrow> 'w http" where
  "node_http cfg =
     \<lparr>parse_url = (\<lambda>u. Inr (u, [])), new_request = (\<lambda>rq. None),
      send = (\<lambda>rq w. (Inr \<lparr>StatusCode = 200, Status = ''200 OK'', as_users = Inr \<lparr>ul_Users = [], ul_Data = []\<rparr>,
        as_raw = None, as_config = Inr cfg, as_wrapped_config = Inr zero_config, as_message = ([], [])\<rparr>, w)),
      range_rank = (\<lambda>w place i. i)\<rparr>"

definition file_host :: "(string, unit, int, (string \<times> string) list) host" where
  "file_host =
     \<lparr>Stat = (\<lambda>path w. if mget w path = None then Some (Extern ''not exist'') else None),
      MkdirAll = (\<lambda>path w. (Inr (), w)), WriteFile = (\<lambda>path data w. (Inr (), mput path data w)),
      OpenFile = (\<lambda>path w. (Inr path, mput path [] w)), CloseFile = (\<lambda>f w. (Inr (), w)),
      pem_Encode = (\<lambda>f kind bytes w. (Inr (), mput f kind w)), GenerateKey = (\<lambda>n w. (Inr (), w)),
      rand_Int = (\<lambda>n w. (Inr 7, w)), Now = (\<lambda>w. 0), time_Add = (\<lambda>d t. t + d), time_AddDate = (\<lambda>y m d t. t + y),
      CreateCertificate = (\<lambda>tpl k w. (Inr ''der'', w)), MarshalPKCS1PrivateKey = (\<lambda>k. ''key''),
      MarshalIndent = (\<lambda>j. Inr ''document'')\<rparr>"

definition hy2_options :: xboard_options where
  "hy2_options =
     \<lparr>PanelURL = ''https://panel.example'', PanelToken = ''t'', PanelNodeID = ''1'', PanelNodeType = [],
      NodeMode = '' Hysteria2'', VLESSNodeID = [], HY2NodeID = [], Out = ''/etc//agent/../config.json'',
      NodeTypeOutPath = ''mode'', CertPath = [], KeyPath = ''/k.pem''\<rparr>"

definition hy2_node :: node_config where
  "hy2_node = shouting_node\<lparr>Protocol := ''hysteria2'', ServerPort := 443, UpMbps := 100\<rparr>"

lemma hy2_generated:
  "generateXboardConfig file_host (node_http hy2_node) hy2_options []
   = (Inr ''hy2'', [(''/etc/cert.pem'', ''CERTIFICATE''), (''/k.pem'', ''RSA PRIVATE KEY''),
       (''/etc//agent/../config.json'', ''document''), (''mode'', ''hy2'' @ [CHR 0x0A])])"
  by code_simp

theorem generated_config_is_well_formed_witness:
  "\<exists>w'. generateXboardConfig file_host (node_http hy2_node) hy2_options [] = (Inr ''hy2'', w')
     \<and> (\<exists>root. well_formed_config root \<and> MarshalIndent file_host (JObject root) = Inr ''document'')"
  using hy2_generated generated_config_is_well_formed [OF hy2_generated] by (auto simp: file_host_def)

text \<open>
  Mode \<open>both\<close> does not check that the two nodes have the protocols it asked for: two VLESS nodes give
  two inbounds with one tag.
\<close>

lemma both_mode_can_repeat_a_tag:
  "(case mode_parts file_host (node_http (shouting_node\<lparr>ServerPort := 443, TLSSettings := zero_tls\<lparr>tls_PrivateKey := ''k''\<rparr>\<rparr>))
      (hy2_options\<lparr>NodeMode := ''both'', HY2NodeID := ''2''\<rparr>) ''both'' [] of
      (Inr (inbounds, _), w) \<Rightarrow> map (string_field ''tag'') inbounds | _ \<Rightarrow> []) = [''vless-in'', ''vless-in'']"
  by code_simp

end
