(* ===== verification/Go_Flags.thy ===== *)
theory Go_Flags
  imports Go_Text
begin

text \<open>
  Go's package \<open>flag\<close> for flags that hold a string: \<open>FlagSet.Parse\<close> with \<open>ContinueOnError\<close>, as far as
  \<open>cmd/star1ight-agent/xboard_config.go\<close> uses it. The values of the variables are a map that starts with
  the defaults; the names it has are the flags that are defined.
\<close>

section \<open>Parsing\<close>

type_synonym flag_values = "(string, string) gomap"

text \<open>A name with its value, split at the first \<open>=\<close> after the first character.\<close>

definition split_flag :: "string \<Rightarrow> string \<times> string option" where
  "split_flag s =
     (let name = takeWhile (\<lambda>c. c \<noteq> CHR ''='') s
      in if length name < length s then (name, Some (drop (Suc (length name)) s)) else (s, None))"

text \<open>What the first argument is: the end of the flags, or the text after its minus signs.\<close>

datatype flag_arg = NoFlag | Terminator | FlagText string

definition flag_arg :: "string \<Rightarrow> flag_arg" where
  "flag_arg s =
     (if length s < 2 \<or> hd s \<noteq> CHR ''-'' then NoFlag
      else if s ! 1 = CHR ''-'' then (if length s = 2 then Terminator else FlagText (drop 2 s))
      else FlagText (drop 1 s))"

definition bad_name :: "string \<Rightarrow> bool" where
  "bad_name name \<longleftrightarrow> name = [] \<or> hd name = CHR ''-'' \<or> hd name = CHR ''=''"

text \<open>The values after parsing and the arguments that are left, or the error \<open>Parse\<close> returns.\<close>

fun parse_flags :: "string list \<Rightarrow> flag_values \<Rightarrow> error + flag_values \<times> string list" where
  "parse_flags [] vals = Inr (vals, [])"
| "parse_flags (s # args) vals =
     (case flag_arg s of
        NoFlag \<Rightarrow> Inr (vals, s # args)
      | Terminator \<Rightarrow> Inr (vals, args)
      | FlagText txt \<Rightarrow>
          if bad_name txt then Inl (Errorf ''bad flag syntax: %s'' [s])
          else
            (case split_flag txt of (name, inline) \<Rightarrow>
               if mget vals name = None then
                 (if name = ''help'' \<or> name = ''h'' then Inl (Errorf ''flag: help requested'' [])
                  else Inl (Errorf ''flag provided but not defined: -%s'' [name]))
               else
                 (case inline of
                    Some value \<Rightarrow> parse_flags args (mput name value vals)
                  | None \<Rightarrow>
                      (case args of
                         [] \<Rightarrow> Inl (Errorf ''flag needs an argument: -%s'' [name])
                       | value # args \<Rightarrow> parse_flags args (mput name value vals)))))"

declare parse_flags.simps(2) [simp del]

section \<open>Writing a command line\<close>

text \<open>The two spellings of a flag, with one minus or two.\<close>

datatype spelling = Inline bool | Apart bool

fun spell :: "spelling \<Rightarrow> string \<Rightarrow> string \<Rightarrow> string list" where
  "spell (Inline two) name value = [(if two then ''--'' else ''-'') @ name @ ''='' @ value]"
| "spell (Apart two) name value = [(if two then ''--'' else ''-'') @ name, value]"

definition command_line :: "(spelling \<times> string \<times> string) list \<Rightarrow> string list" where
  "command_line fs = concat (map (\<lambda>(sp, name, value). spell sp name value) fs)"

definition good_name :: "string \<Rightarrow> bool" where
  "good_name name \<longleftrightarrow> name \<noteq> [] \<and> hd name \<noteq> CHR ''-'' \<and> CHR ''='' \<notin> set name"

lemma split_flag_simps:
  assumes "CHR ''='' \<notin> set name"
  shows "split_flag name = (name, None)" and "split_flag (name @ CHR ''='' # value) = (name, Some value)"
proof -
  have "takeWhile (\<lambda>c. c \<noteq> CHR ''='') name = name" using assms by (intro takeWhile_eq_all_conv [THEN iffD2]) auto
  then show "split_flag name = (name, None)" unfolding split_flag_def Let_def by (simp only: if_False less_irrefl)
  have "takeWhile (\<lambda>c. c \<noteq> CHR ''='') (name @ CHR ''='' # value) = name"
    using assms by (subst takeWhile_append2) auto
  then show "split_flag (name @ CHR ''='' # value) = (name, Some value)"
    unfolding split_flag_def Let_def by simp
qed

lemma flag_arg_spelled:
  assumes "good_name name"
  shows "flag_arg (CHR ''-'' # name @ rest) = FlagText (name @ rest)"
    and "flag_arg (CHR ''-'' # CHR ''-'' # name @ rest) = FlagText (name @ rest)"
  using assms by (cases name; simp add: flag_arg_def good_name_def)+

lemma bad_name_spelled: "good_name name \<Longrightarrow> \<not> bad_name (name @ rest)"
  by (cases name) (auto simp: bad_name_def good_name_def)

lemma parse_spelled:
  assumes "good_name name" and "mget vals name \<noteq> None"
  shows "parse_flags (spell sp name value @ args) vals = parse_flags args (mput name value vals)"
proof -
  note split = split_flag_simps [of name] and arg = flag_arg_spelled [OF assms(1)] and bad = bad_name_spelled [OF assms(1)]
  have eq: "CHR ''='' \<notin> set name" using assms(1) by (simp add: good_name_def)
  show ?thesis
    using assms(2) split [OF eq] arg [of "CHR ''='' # value"] arg [of "[]"] bad [of "CHR ''='' # value"] bad [of "[]"]
    by (cases sp) (auto simp: parse_flags.simps(2))
qed

text \<open>Each flag of a command line sets its variable; the last one wins.\<close>

lemma parse_command_line:
  assumes "\<forall>(sp, name, value) \<in> set fs. good_name name \<and> mget vals name \<noteq> None"
    and "rest = [] \<or> flag_arg (hd rest) = NoFlag"
  shows "parse_flags (command_line fs @ rest) vals = Inr (fold (\<lambda>(sp, name, value). mput name value) fs vals, rest)"
  using assms(1)
proof (induction fs arbitrary: vals)
  case Nil
  with assms(2) show ?case by (cases rest) (auto simp: command_line_def parse_flags.simps(2))
next
  case (Cons f fs)
  obtain sp name v where f: "f = (sp, name, v)" by (metis prod.exhaust)
  from Cons.prems have "\<forall>(sp, name, value) \<in> set fs. good_name name \<and> mget (mput (fst (snd f)) (snd (snd f)) vals) name \<noteq> None"
    by (auto simp: mget_mput)
  from Cons.IH [OF this] Cons.prems parse_spelled [of name vals sp v] show ?case
    by (simp add: f command_line_def)
qed

text \<open>The value of a flag after parsing: the last one given, else the one before.\<close>

lemma given_flag:
  "mget (fold (\<lambda>(sp, name, value). mput name value) fs vals) k
   = (case map_of (rev (map snd fs)) k of None \<Rightarrow> mget vals k | Some v \<Rightarrow> Some v)"
  by (induction fs arbitrary: vals) (auto simp: mget_mput map_add_def split: option.split)

lemma not_given:
  "name \<notin> set (map (\<lambda>(sp, name, value). name) fs) \<Longrightarrow>
   mget (fold (\<lambda>(sp, name, value). mput name value) fs vals) name = mget vals name"
  by (induction fs arbitrary: vals) (auto simp: mget_mput)

lemma flags_without:
  assumes "k \<noteq> d"
  shows "mget (fold (\<lambda>(sp, name, value). mput name value) (filter (\<lambda>(sp, name, value). name \<noteq> d) fs) vals) k
    = mget (fold (\<lambda>(sp, name, value). mput name value) fs vals) k"
proof -
  have "map_of (rev (map snd (filter (\<lambda>(sp, name, value). name \<noteq> d) fs))) k = map_of (rev (map snd fs)) k"
    using assms by (induction fs) (auto simp: map_add_def split: option.split)
  then show ?thesis by (simp add: given_flag)
qed

end
