(* ===== verification/Xboard_Command.thy ===== *)
theory Xboard_Command
  imports Xboard_Config Go_Flags
begin

text \<open>
  The command \<open>star1ight-agent xboard-generate-config\<close> from its arguments: the flags of
  \<open>runXboardGenerateConfig\<close> in \<open>cmd/star1ight-agent/xboard_config.go\<close>, parsed by \<open>Go_Flags\<close>, and the
  generator of \<open>Xboard_Config\<close>.
\<close>

section \<open>The flags of the command\<close>

definition xboard_flags :: flag_values where
  "xboard_flags =
     [(''panel-url'', []), (''panel-token'', []), (''panel-node-id'', []), (''panel-node-type'', []),
      (''node-mode'', ''vless''), (''vless-node-id'', []), (''hy2-node-id'', []), (''out'', ''config.generated.json''),
      (''node-type-out'', []), (''cert'', []), (''key'', [])]"

definition flag_options :: "flag_values \<Rightarrow> xboard_options" where
  "flag_options vals =
     \<lparr>PanelURL = mget_or [] vals ''panel-url'', PanelToken = mget_or [] vals ''panel-token'',
      PanelNodeID = mget_or [] vals ''panel-node-id'', PanelNodeType = mget_or [] vals ''panel-node-type'',
      NodeMode = mget_or [] vals ''node-mode'', VLESSNodeID = mget_or [] vals ''vless-node-id'',
      HY2NodeID = mget_or [] vals ''hy2-node-id'', Out = mget_or [] vals ''out'',
      NodeTypeOutPath = mget_or [] vals ''node-type-out'', CertPath = mget_or [] vals ''cert'', KeyPath = mget_or [] vals ''key''\<rparr>"

definition parsed_options :: "string list \<Rightarrow> xboard_options option" where
  "parsed_options args =
     (case parse_flags args xboard_flags of Inl err \<Rightarrow> None | Inr (vals, rest) \<Rightarrow> Some (flag_options vals))"

definition xboard_command :: "('f, 'k, 't, 'w) host \<Rightarrow> 'w http \<Rightarrow> string list \<Rightarrow> 'w \<Rightarrow> int \<times> 'w" where
  "xboard_command S H args w = runXboardGenerateConfig S H (parsed_options args) w"

text \<open>The start of \<open>main\<close>: with the name of the command first, the process is the command and exits with its code.\<close>

definition main_command :: "string list \<Rightarrow> string list option" where
  "main_command os_Args =
     (if 1 < length os_Args \<and> os_Args ! 1 = ''xboard-generate-config'' then Some (drop 2 os_Args) else None)"

text \<open>The command line that sets every option, the spelling chosen for each.\<close>

definition options_flags :: "(string \<Rightarrow> spelling) \<Rightarrow> xboard_options \<Rightarrow> (spelling \<times> string \<times> string) list" where
  "options_flags sp o' =
     map (\<lambda>(name, value). (sp name, name, value))
       [(''panel-url'', PanelURL o'), (''panel-token'', PanelToken o'), (''panel-node-id'', PanelNodeID o'),
        (''panel-node-type'', PanelNodeType o'), (''node-mode'', NodeMode o'), (''vless-node-id'', VLESSNodeID o'),
        (''hy2-node-id'', HY2NodeID o'), (''out'', Out o'), (''node-type-out'', NodeTypeOutPath o'),
        (''cert'', CertPath o'), (''key'', KeyPath o')]"

lemma xboard_names:
  "list_all good_name (mkeys xboard_flags)" "mget xboard_flags ''node-mode'' = Some ''vless''"
  by code_simp+

lemma defined_flag: "mget xboard_flags name \<noteq> None \<Longrightarrow> good_name name"
  using xboard_names(1) by (auto simp: list_all_iff mget_None_iff)

lemma options_flags_values:
  "fold (\<lambda>(sp, name, value). mput name value) (options_flags sp o') xboard_flags =
     [(''panel-url'', PanelURL o'), (''panel-token'', PanelToken o'), (''panel-node-id'', PanelNodeID o'),
      (''panel-node-type'', PanelNodeType o'), (''node-mode'', NodeMode o'), (''vless-node-id'', VLESSNodeID o'),
      (''hy2-node-id'', HY2NodeID o'), (''out'', Out o'), (''node-type-out'', NodeTypeOutPath o'),
      (''cert'', CertPath o'), (''key'', KeyPath o')]"
  by (simp add: options_flags_def xboard_flags_def mput_def)

section \<open>The deprecated flag\<close>

text \<open>The deprecated type is read only where the mode is empty or \<open>auto\<close>.\<close>

lemma without_type [simp]:
  "PanelURL (opts\<lparr>PanelNodeType := ty\<rparr>) = PanelURL opts" "PanelToken (opts\<lparr>PanelNodeType := ty\<rparr>) = PanelToken opts"
  "PanelNodeID (opts\<lparr>PanelNodeType := ty\<rparr>) = PanelNodeID opts" "NodeMode (opts\<lparr>PanelNodeType := ty\<rparr>) = NodeMode opts"
  "VLESSNodeID (opts\<lparr>PanelNodeType := ty\<rparr>) = VLESSNodeID opts" "HY2NodeID (opts\<lparr>PanelNodeType := ty\<rparr>) = HY2NodeID opts"
  "Out (opts\<lparr>PanelNodeType := ty\<rparr>) = Out opts" "NodeTypeOutPath (opts\<lparr>PanelNodeType := ty\<rparr>) = NodeTypeOutPath opts"
  "CertPath (opts\<lparr>PanelNodeType := ty\<rparr>) = CertPath opts" "KeyPath (opts\<lparr>PanelNodeType := ty\<rparr>) = KeyPath opts"
  by simp_all

lemma generate_without_type:
  assumes "normalizeNodeMode (NodeMode opts) \<notin> {[], ''auto''}"
  shows "generateXboardConfig S H (opts\<lparr>PanelNodeType := ty\<rparr>) w = generateXboardConfig S H opts w"
proof -
  have mode: "selected_mode (opts\<lparr>PanelNodeType := ty\<rparr>) = selected_mode opts"
    using assms by (simp add: selected_mode_def Let_def)
  have "hy2InboundFromNodeConfig S cfg (opts\<lparr>PanelNodeType := ty\<rparr>) l w = hy2InboundFromNodeConfig S cfg opts l w" for cfg l w
    unfolding hy2InboundFromNodeConfig_def without_type ..
  then have inbound: "inboundFromNodeConfig S cfg (opts\<lparr>PanelNodeType := ty\<rparr>) l w = inboundFromNodeConfig S cfg opts l w" for cfg l w
    unfolding inboundFromNodeConfig_def by (simp only:)
  have "one_node S H (opts\<lparr>PanelNodeType := ty\<rparr>) i nt w = one_node S H opts i nt w"
    "two_nodes S H (opts\<lparr>PanelNodeType := ty\<rparr>) i j w = two_nodes S H opts i j w" for i j nt w
    unfolding one_node_def two_nodes_def without_type inbound by (rule refl)+
  then have "mode_parts S H (opts\<lparr>PanelNodeType := ty\<rparr>) mode w = mode_parts S H opts mode w" for mode w
    unfolding mode_parts_def without_type by (simp only:)
  then show ?thesis unfolding generateXboardConfig_def without_type mode by (simp only:)
qed

lemma run_without_type:
  assumes "NodeMode opts = ''vless''"
  shows "runXboardGenerateConfig S H (Some (opts\<lparr>PanelNodeType := ty\<rparr>)) w = runXboardGenerateConfig S H (Some opts) w"
proof -
  have "normalizeNodeMode ''vless'' = ''vless''" by code_simp
  then have "generateXboardConfig S H (opts\<lparr>PanelNodeType := ty\<rparr>) w = generateXboardConfig S H opts w"
    by (intro generate_without_type) (simp add: assms)
  with assms show ?thesis by (simp add: runXboardGenerateConfig_def Let_def)
qed

section \<open>Properties\<close>

text \<open>
  C36: The options of the command are those of its arguments: whatever they are, however each flag is
  spelled and whatever follows the flags, parsing the command line that sets them gives them back.
\<close>

theorem command_line_roundtrip:
  assumes "rest = [] \<or> flag_arg (hd rest) = NoFlag"
  shows "parsed_options (command_line (options_flags sp o') @ rest) = Some o'"
proof -
  have "\<forall>(s, name, val) \<in> set (options_flags sp o'). mget xboard_flags name \<noteq> None"
    by (simp add: options_flags_def xboard_flags_def)
  then have "\<forall>(s, name, val) \<in> set (options_flags sp o'). good_name name \<and> mget xboard_flags name \<noteq> None"
    using defined_flag by blast
  from parse_command_line [OF this assms] show ?thesis
    by (simp add: parsed_options_def options_flags_values flag_options_def mget_or_def)
qed

definition some_options :: xboard_options where
  "some_options =
     \<lparr>PanelURL = ''https://panel.example'', PanelToken = ''a=b'', PanelNodeID = ''1'', PanelNodeType = [], NodeMode = ''--hy2'',
      VLESSNodeID = [], HY2NodeID = ''2'', Out = ''out.json'', NodeTypeOutPath = [], CertPath = ''-'', KeyPath = []\<rparr>"

theorem command_line_roundtrip_witness:
  "parsed_options (command_line (options_flags (\<lambda>name. if name = ''out'' then Apart False else Inline True) some_options) @ [''more''])
   = Some some_options"
  by (rule command_line_roundtrip) (simp add: flag_arg_def)

text \<open>
  The deprecated \<open>--panel-node-type\<close> is dead: unless \<open>--node-mode\<close> is given, the command does the
  same with and without it, because \<open>--node-mode\<close> has the default \<open>vless\<close> and is never empty, so the
  lines that would take the mode from the type are not reached.
\<close>

theorem deprecated_type_is_dead:
  assumes "\<forall>(sp, name, v) \<in> set fs. mget xboard_flags name \<noteq> None"
    and "''node-mode'' \<notin> set (map (\<lambda>(sp, name, v). name) fs)"
  shows "xboard_command S H (command_line fs) w
    = xboard_command S H (command_line (filter (\<lambda>(sp, name, v). name \<noteq> ''panel-node-type'') fs)) w"
proof -
  let ?fs = "filter (\<lambda>(sp, name, v). name \<noteq> ''panel-node-type'') fs"
  let ?vals = "\<lambda>fs. fold (\<lambda>(sp, name, value). mput name value) fs xboard_flags"
  have parsed: "parsed_options (command_line gs) = Some (flag_options (?vals gs))"
    if "\<forall>(sp, name, v) \<in> set gs. mget xboard_flags name \<noteq> None" for gs
  proof -
    from that defined_flag have "\<forall>(sp, name, v) \<in> set gs. good_name name \<and> mget xboard_flags name \<noteq> None" by blast
    from parse_command_line [OF this, of "[]"] show ?thesis by (simp add: parsed_options_def)
  qed
  have same: "mget (?vals ?fs) k = mget (?vals fs) k" if "k \<noteq> ''panel-node-type''" for k
    using that by (rule flags_without)
  then have opts: "flag_options (?vals ?fs) = (flag_options (?vals fs))\<lparr>PanelNodeType := mget_or [] (?vals ?fs) ''panel-node-type''\<rparr>"
    by (simp add: flag_options_def mget_or_def)
  have mode: "NodeMode (flag_options (?vals fs)) = ''vless''"
    using not_given [OF assms(2), of xboard_flags] xboard_names(2) by (simp add: flag_options_def mget_or_def)
  have rest: "\<forall>(sp, name, v) \<in> set ?fs. mget xboard_flags name \<noteq> None" using assms(1) by auto
  show ?thesis
    unfolding xboard_command_def parsed [OF assms(1)] parsed [OF rest] opts by (rule run_without_type [OF mode, symmetric])
qed

text \<open>A node installed as Hysteria2 by the deprecated flag alone gets the VLESS configuration.\<close>

definition old_style :: "(spelling \<times> string \<times> string) list" where
  "old_style =
     [(Apart False, ''panel-url'', ''https://panel.example''), (Apart False, ''panel-token'', ''t''),
      (Apart False, ''panel-node-id'', ''1''), (Apart False, ''panel-node-type'', ''hysteria2''), (Apart False, ''node-type-out'', ''mode'')]"

theorem deprecated_type_is_dead_witness:
  "xboard_command file_host (node_http hy2_node) (command_line old_style) []
     = xboard_command file_host (node_http hy2_node)
         (command_line (filter (\<lambda>(sp, name, v). name \<noteq> ''panel-node-type'') old_style)) []
   \<and> mget (snd (xboard_command file_host (node_http hy2_node) (command_line old_style) [])) ''mode'' = Some (''vless'' @ [CHR 0x0A])"
proof -
  have named: "\<forall>(sp, name, v) \<in> set old_style. mget xboard_flags name \<noteq> None"
    by (simp add: old_style_def xboard_flags_def)
  have "''node-mode'' \<notin> set (map (\<lambda>(sp, name, v). name) old_style)" by (simp add: old_style_def)
  note same = deprecated_type_is_dead [OF named this, of file_host "node_http hy2_node" "[]"]
  have "mget (snd (xboard_command file_host (node_http hy2_node) (command_line old_style) [])) ''mode'' = Some (''vless'' @ [CHR 0x0A])"
    by code_simp
  with same show ?thesis by (rule conjI)
qed

end
