(* ===== verification/Protocols.thy ===== *)
theory Protocols
  imports Xboard_Config
begin

text \<open>
  The protocols the agent is built with: the registries \<open>minimalContext\<close> of \<open>cmd/star1ight-agent/main.go\<close>
  makes, with the build variants of \<open>optional_inbounds_nodeonly.go\<close> and \<open>optional_inbounds_tun.go\<close>, and
  which types of a generated configuration they hold. \<open>Register\<close> belongs to sing-box: the name a package
  registers itself under is the parameter \<open>name_of\<close>. Whether sing-box loads a document depends on more than
  its types and is not modelled.
\<close>

section \<open>Registries\<close>

datatype protocol_package =
    pkg_vless | pkg_hysteria2 | pkg_shadowsocks | pkg_tun
  | pkg_direct | pkg_block | pkg_dns | pkg_socks | pkg_http | pkg_ssh | pkg_tuic
  | pkg_udp | pkg_tcp | pkg_tls | pkg_https | pkg_local | pkg_hosts

record registries =
  reg_inbounds :: "protocol_package list"
  reg_outbounds :: "protocol_package list"
  reg_dnsTransports :: "protocol_package list"

text \<open>The build tag \<open>tun\<close> chooses between the two variants.\<close>

definition registerOptionalInbounds_nodeonly :: "protocol_package list \<Rightarrow> protocol_package list" where
  "registerOptionalInbounds_nodeonly registry = registry"

definition registerOptionalInbounds_tun :: "protocol_package list \<Rightarrow> protocol_package list" where
  "registerOptionalInbounds_tun registry = registry @ [pkg_tun]"

definition registerOptionalInbounds :: "bool \<Rightarrow> protocol_package list \<Rightarrow> protocol_package list" where
  "registerOptionalInbounds tunBuild =
     (if tunBuild then registerOptionalInbounds_tun else registerOptionalInbounds_nodeonly)"

lemmas optional_inbounds = registerOptionalInbounds_def registerOptionalInbounds_tun_def registerOptionalInbounds_nodeonly_def

definition minimalContext :: "bool \<Rightarrow> registries" where
  "minimalContext tunBuild =
     (let inbounds = [pkg_vless, pkg_hysteria2, pkg_shadowsocks];
          inbounds = registerOptionalInbounds tunBuild inbounds;
          outbounds = [pkg_direct, pkg_block, pkg_dns, pkg_shadowsocks, pkg_socks, pkg_http, pkg_ssh, pkg_vless,
            pkg_hysteria2, pkg_tuic];
          dnsTransports = [pkg_udp, pkg_tcp, pkg_tls, pkg_https, pkg_local, pkg_hosts]
      in \<lparr>reg_inbounds = inbounds, reg_outbounds = outbounds, reg_dnsTransports = dnsTransports\<rparr>)"

definition inbound_types :: "(protocol_package \<Rightarrow> string) \<Rightarrow> registries \<Rightarrow> string set" where
  "inbound_types name_of R = name_of ` set (reg_inbounds R)"

definition outbound_types :: "(protocol_package \<Rightarrow> string) \<Rightarrow> registries \<Rightarrow> string set" where
  "outbound_types name_of R = name_of ` set (reg_outbounds R)"

text \<open>The entries of a list of the document.\<close>

definition entries :: "string \<Rightarrow> (string, json) gomap \<Rightarrow> json list" where
  "entries key root = (case mget root key of Some (JArray js) \<Rightarrow> js | _ \<Rightarrow> [])"

text \<open>The names of the packages the generator names itself, as sing-box documents them.\<close>

definition documented_names :: "(protocol_package \<Rightarrow> string) \<Rightarrow> bool" where
  "documented_names name_of \<longleftrightarrow>
     name_of pkg_vless = ''vless'' \<and> name_of pkg_hysteria2 = ''hysteria2'' \<and> name_of pkg_shadowsocks = ''shadowsocks''
     \<and> name_of pkg_direct = ''direct'' \<and> name_of pkg_block = ''block''"

section \<open>Types of the outbounds\<close>

text \<open>An outbound has the protocol the panel gives it, checked against nothing.\<close>

lemma customOutbound_type:
  assumes "customOutboundToSingBox raw = Inr (built, tag)"
  shows "string_field ''type'' (JObject built) = normalizeOutboundProtocol (ob_Protocol raw)"
  using assms
  by (auto simp: customOutboundToSingBox_def Let_def string_field_def obj_def mget_mput split: if_splits option.splits)

definition panel_types :: "node_config list \<Rightarrow> string set" where
  "panel_types cfgs = (\<lambda>raw. normalizeOutboundProtocol (ob_Protocol raw)) ` (\<Union>cfg \<in> set cfgs. set (CustomOutbounds cfg))"

definition types_within :: "string set \<Rightarrow> json list \<Rightarrow> bool" where
  "types_within T outs \<longleftrightarrow> string_field ''type'' ` set outs \<subseteq> T"

lemma merge_outbounds_types:
  "merge_outbounds raws m = Inr m' \<Longrightarrow> types_within T (mg_outbounds m) \<Longrightarrow>
   (\<lambda>raw. normalizeOutboundProtocol (ob_Protocol raw)) ` set raws \<subseteq> T \<Longrightarrow> types_within T (mg_outbounds m')"
proof (induction raws arbitrary: m)
  case (Cons raw raws)
  then obtain built tag where c: "customOutboundToSingBox raw = Inr (built, tag)" by (auto split: sum.splits)
  let ?m = "m\<lparr>mg_seen := mput (ToLower (TrimSpace tag)) () (mg_seen m), mg_outbounds := mg_outbounds m @ [JObject built]\<rparr>"
  have "types_within T (mg_outbounds ?m)"
    using Cons.prems(2,3) customOutbound_type [OF c] by (simp add: types_within_def)
  then show ?case
    using Cons.prems c Cons.IH [of m] Cons.IH [of ?m] by (simp add: Let_def split: if_splits)
qed simp

lemma merge_configs_types:
  "merge_configs cfgs m = Inr m' \<Longrightarrow> types_within T (mg_outbounds m) \<Longrightarrow> panel_types cfgs \<subseteq> T \<Longrightarrow>
   types_within T (mg_outbounds m')"
proof (induction cfgs arbitrary: m)
  case (Cons cfg cfgs)
  let ?m = "let m = (if mg_dns m = None \<and> 0 < length (CustomDNS cfg) then m\<lparr>mg_dns := cloneAnyMap (CustomDNS cfg)\<rparr> else m)
      in if mg_options m = None \<and> 0 < length (RouteOptions cfg) then m\<lparr>mg_options := cloneAnyMap (RouteOptions cfg)\<rparr> else m"
  from Cons.prems(1) obtain m1 where m1: "merge_outbounds (CustomOutbounds cfg) ?m = Inr m1"
    and rest: "merge_configs cfgs m1 = Inr m'"
    by (auto simp: Let_def split: sum.splits)
  have "types_within T (mg_outbounds ?m)" using Cons.prems(2) by (simp add: Let_def)
  moreover have "(\<lambda>raw. normalizeOutboundProtocol (ob_Protocol raw)) ` set (CustomOutbounds cfg) \<subseteq> T" "panel_types cfgs \<subseteq> T"
    using Cons.prems(3) by (auto simp: panel_types_def)
  ultimately show ?case using merge_outbounds_types [OF m1] Cons.IH [OF rest] by blast
qed simp

lemma merge_rules_outbounds: "merge_rules cfgs m = Inr m' \<Longrightarrow> mg_outbounds m' = mg_outbounds m"
proof (induction cfgs arbitrary: m)
  case (Cons cfg cfgs)
  have "mg_outbounds (fold merge_raw raws m) = mg_outbounds m" for raws m
    by (induction raws arbitrary: m) (auto simp: merge_raw_def split: option.split)
  with Cons show ?case by (fastforce split: sum.splits)
qed simp

lemma mergeCustomRouting_types:
  assumes "mergeCustomRouting cfgs = Inr (outs, route, dns)"
  shows "types_within (panel_types cfgs) outs"
proof -
  from assms obtain m1 m2 where "merge_configs cfgs merge_start = Inr m1" "merge_rules cfgs m1 = Inr m2"
    and "outs = mg_outbounds m2"
    by (auto simp: mergeCustomRouting_def merged_def Let_def split: sum.splits if_splits)
  with merge_configs_types [of cfgs merge_start m1 "panel_types cfgs"] merge_rules_outbounds show ?thesis
    by (auto simp: types_within_def merge_start_def)
qed

section \<open>Properties\<close>

lemma inbound_ok_type: "inbound_ok j \<Longrightarrow> string_field ''type'' j \<in> {''vless'', ''hysteria2'', ''shadowsocks''}"
  by (auto simp: inbound_ok_def)

lemma mode_parts_merged:
  "mode_parts S H opts mode w = (Inr (inbounds, outs, route, dns), w') \<Longrightarrow> \<exists>cfgs. mergeCustomRouting cfgs = Inr (outs, route, dns)"
  by (auto simp: mode_parts_def Let_def one_node_def two_nodes_def or_return_Inr case_return_Inr buildCustomRouting_def
      split: if_splits)

text \<open>
  C35: The types of a generated document. In every build variant the type of each inbound is one the agent
  has registered, and so is the type of each outbound, except of those the panel added: an outbound whose
  type the agent has not registered is one of the panel's, under the protocol the panel gave it, which the
  generator checks against nothing.
\<close>

theorem generated_types_are_registered:
  assumes "documented_names name_of"
    and "mode_parts S H opts mode w = (Inr (inbounds, outs, route, dns), w')"
  shows "entries ''inbounds'' (singbox_root inbounds outs route dns) = inbounds
    \<and> string_field ''type'' ` set inbounds \<subseteq> inbound_types name_of (minimalContext tunBuild)
    \<and> (\<exists>cfgs. mergeCustomRouting cfgs = Inr (outs, route, dns)
         \<and> (\<forall>j \<in> set (entries ''outbounds'' (singbox_root inbounds outs route dns)).
              string_field ''type'' j \<in> outbound_types name_of (minimalContext tunBuild)
              \<or> (j \<in> set outs \<and> string_field ''type'' j \<in> panel_types cfgs)))"
proof -
  let ?R = "minimalContext tunBuild" and ?root = "singbox_root inbounds outs route dns"
  have root: "mget ?root ''inbounds'' = Some (JArray inbounds)"
    "mget ?root ''outbounds'' = Some (JArray ([JObject [(''type'', JString ''direct''), (''tag'', JString ''direct'')],
         JObject [(''type'', JString ''block''), (''tag'', JString ''block'')]] @ outs))"
    by (simp_all add: singbox_root_def Let_def mget_mput split: option.split)
  have "list_all inbound_ok inbounds"
    using mode_parts_ok(1) [OF assms(2)] root by (auto simp: well_formed_config_def split: option.splits json.splits)
  then have "string_field ''type'' ` set inbounds \<subseteq> inbound_types name_of ?R"
    using assms(1) inbound_ok_type
    by (fastforce simp: list_all_iff documented_names_def minimalContext_def optional_inbounds inbound_types_def Let_def)
  moreover obtain cfgs where m: "mergeCustomRouting cfgs = Inr (outs, route, dns)" using mode_parts_merged [OF assms(2)] by blast
  have "string_field ''type'' j \<in> outbound_types name_of ?R \<or> (j \<in> set outs \<and> string_field ''type'' j \<in> panel_types cfgs)"
    if "j \<in> set (entries ''outbounds'' ?root)" for j
  proof (cases "j \<in> set outs")
    case True
    with mergeCustomRouting_types [OF m] show ?thesis by (auto simp: types_within_def)
  next
    case False
    with that have "string_field ''type'' j \<in> {''direct'', ''block''}"
      by (auto simp: entries_def root string_field_def obj_def)
    moreover have "{''direct'', ''block''} \<subseteq> outbound_types name_of ?R"
      using assms(1) by (auto simp: documented_names_def minimalContext_def outbound_types_def Let_def)
    ultimately show ?thesis by blast
  qed
  ultimately show ?thesis using m root by (auto simp: entries_def)
qed

text \<open>An outbound of a protocol the agent is built without: the command succeeds.\<close>

definition trojan_node :: node_config where
  "trojan_node = hy2_node\<lparr>CustomOutbounds := [\<lparr>ob_Tag = ''out'', ob_Protocol = ''trojan'',
     ob_Settings = [(''server'', JString ''h'')], ob_ProxyTag = []\<rparr>], CustomRouteRules := []\<rparr>"

definition known_name :: "protocol_package \<Rightarrow> string" where
  "known_name p =
     (case p of pkg_vless \<Rightarrow> ''vless'' | pkg_hysteria2 \<Rightarrow> ''hysteria2'' | pkg_shadowsocks \<Rightarrow> ''shadowsocks'' | pkg_tun \<Rightarrow> ''tun''
      | pkg_direct \<Rightarrow> ''direct'' | pkg_block \<Rightarrow> ''block'' | pkg_dns \<Rightarrow> ''dns'' | pkg_socks \<Rightarrow> ''socks'' | pkg_http \<Rightarrow> ''http''
      | pkg_ssh \<Rightarrow> ''ssh'' | pkg_tuic \<Rightarrow> ''tuic'' | pkg_udp \<Rightarrow> ''udp'' | pkg_tcp \<Rightarrow> ''tcp'' | pkg_tls \<Rightarrow> ''tls''
      | pkg_https \<Rightarrow> ''https'' | pkg_local \<Rightarrow> ''local'' | pkg_hosts \<Rightarrow> ''hosts'')"

definition outs_of :: "(error + json list \<times> routing) \<times> 'w \<Rightarrow> json list" where
  "outs_of r = (case r of (Inr (inbounds, outs, _), w) \<Rightarrow> outs | _ \<Rightarrow> [])"

lemma trojan_node_parts:
  "case mode_parts file_host (node_http trojan_node) hy2_options ''hy2'' [] of (Inr _, _) \<Rightarrow> True | _ \<Rightarrow> False"
  "map (string_field ''type'') (outs_of (mode_parts file_host (node_http trojan_node) hy2_options ''hy2'' [])) = [''trojan'']"
  by code_simp+

theorem generated_types_are_registered_witness:
  "\<exists>inbounds outs route dns w' cfgs.
     mode_parts file_host (node_http trojan_node) hy2_options ''hy2'' [] = (Inr (inbounds, outs, route, dns), w')
     \<and> map (string_field ''type'') outs = [''trojan''] \<and> ''trojan'' \<notin> outbound_types known_name (minimalContext True)
     \<and> mergeCustomRouting cfgs = Inr (outs, route, dns) \<and> ''trojan'' \<in> panel_types cfgs"
proof -
  from trojan_node_parts(1) obtain inbounds outs route dns w' where
    r: "mode_parts file_host (node_http trojan_node) hy2_options ''hy2'' [] = (Inr (inbounds, outs, route, dns), w')"
    by (auto split: prod.splits sum.splits)
  have names: "documented_names known_name" by (simp add: documented_names_def known_name_def)
  from trojan_node_parts(2) r have types: "map (string_field ''type'') outs = [''trojan'']" by (simp add: outs_of_def)
  then obtain j where j: "j \<in> set outs" "string_field ''type'' j = ''trojan''" by auto
  have no: "''trojan'' \<notin> outbound_types known_name (minimalContext True)"
    by (auto simp: outbound_types_def minimalContext_def known_name_def Let_def)
  have listed: "j \<in> set (entries ''outbounds'' (singbox_root inbounds outs route dns))"
    using j(1) by (auto simp: entries_def singbox_root_def Let_def mget_mput split: option.split)
  from generated_types_are_registered [OF names r, of True] listed j(2) no obtain cfgs where
    "mergeCustomRouting cfgs = Inr (outs, route, dns)" "''trojan'' \<in> panel_types cfgs" by metis
  with r types no show ?thesis
    by (intro exI [of _ inbounds] exI [of _ outs] exI [of _ route] exI [of _ dns] exI [of _ w'] exI [of _ cfgs]) simp
qed

end
