(* ===== verification/Spec2Isabelle.thy ===== *)
theory Spec2Isabelle
  imports Whole_Agent Concurrent_Counters Unwrapping Xboard_Command Protocols Runtime_Log
begin

text \<open>
  A model of the Star1ight agent, a node-side client of the Xboard panel around a sing-box core, with
  the theorems that make its parts correct.

  \<^bold>\<open>The program.\<close> sing-box accepts the connections of the node's users. Its router asks the agent's
  \<open>Hook\<close> (\<open>cmd/star1ight-agent/main.go\<close>) to wrap each of them: the wrapped connection counts the bytes
  of its user (\<open>counter/counter.go\<close>), waits for the token buckets of the node and the user
  (\<open>counter/ratelimit.go\<close>), and opens a device session after 32 KiB (\<open>session_tracker.go\<close>). Once a
  minute the \<open>Syncer\<close> (\<open>panelapi/sync.go\<close>) fetches the users and applies them to the core
  (\<open>user_manager.go\<close>), then pushes the devices and the traffic since the last accepted push to the
  panel: an HTTP client (\<open>panelapi/client.go\<close>), several of them (\<open>multi.go\<close>), one per traffic source
  (\<open>source_map.go\<close>, \<open>source_filter.go\<close>) or a local file (\<open>local.go\<close>). Beside that the agent reports the
  status of the machine (\<open>machine_reporter.go\<close>), writes diagnostics (\<open>runtime_debug.go\<close>), answers
  \<open>/stats\<close>, and generates a sing-box configuration from the panel's nodes (\<open>xboard_config.go\<close>).

  \<^bold>\<open>Prelude.\<close>
  \<^item> \<open>Go_Base\<close>: integers at their width, errors and outcomes (a panic is one), pairs of counters, which
    are an instance of the library's abelian groups.
  \<^item> \<open>Go_Maps\<close>: Go maps as association lists with the locale \<open>go_map\<close>, interpreted on them; a fact
    proved for every list holds for every iteration order, and a loop over a map the code has built itself
    runs in an order the runtime picks (\<open>ranged\<close>).
  \<^item> \<open>Go_Strings\<close>, \<open>Go_Text\<close>, \<open>Netip\<close>: \<open>strings\<close>, \<open>strconv\<close>, \<open>path/filepath\<close> and \<open>net/netip\<close>
    as far as the agent uses them.
  \<^item> \<open>Delta_Sync\<close>: the locale \<open>delta_source\<close>, the contract between the synchroniser and what it
    reports for: a snapshot is complete, an accepted and committed snapshot is reported exactly once,
    whatever happens in between.

  \<^bold>\<open>Counting.\<close> \<open>Traffic_Counter\<close> has \<open>TrafficCounter\<close> over a store of storages (connections keep
  pointers); \<open>Traffic_Accounting\<close> interprets \<open>delta_source\<close> on it, interleaving traffic with snapshots
  and commits, and shows what pruning keeps and loses. There an operation of the counter is one step;
  \<open>Concurrent_Counters\<close> takes \<open>SnapshotDelta\<close> and \<open>GetCounter\<close> apart into their atomic loads and stores,
  interleaves these with connections and with each other, and shows that still every byte is reported once
  and a user has one storage. \<open>Conn\<close> has the counting and limiting wrappers as
  functions on records of methods, with the contracts of \<open>io.Writer\<close> and \<open>io.Reader\<close> they keep and what
  a limited write pays; \<open>Unwrapping\<close> has what they expose of the connection inside and shows that sing-box's
  copy loops, taking wrappers off, bypass no limiter and no counter. \<open>Rate_Limiter\<close> has \<open>RateLimiter\<close> over
  the \<open>rate\<close> package; its waiting loop ends because each pass takes at least a byte off what is left. Other
  goroutines run before the snapshot of the limiter's fields and between it and the call of the bucket, so a
  change of the rate may catch a waiting caller with the wrong chunk: the theorems say when.

  \<^bold>\<open>Devices.\<close> \<open>Source_Tags\<close> has addresses, source labels and tags with their round trips.
  \<open>Session_Tracker\<close> has the reference counts as a refinement of a multiset of open sessions (locale
  \<open>refcounts\<close>). \<open>Session_Prepare\<close> runs \<open>activate\<close> and \<open>closePending\<close> as threads that interleave at every
  atomic action and shows by rule induction that closed connections leave nothing behind.
  \<open>Alive_Reporting\<close> shows that committed device deltas reproduce the devices.

  \<^bold>\<open>Users and panels.\<close> \<open>User_Manager\<close> has \<open>ApplyBox\<close> with its plan of additions and deletions and the
  invariant that limiters follow the users. \<open>Panel\<close>, \<open>Client\<close> and \<open>Node_Config\<close> have the panels, what a
  push bills, and the node configuration.

  \<^bold>\<open>The agent.\<close> \<open>Syncer\<close> has \<open>Run\<close> and its rounds; the record \<open>meanwhile\<close> says what the other goroutines do
  during each call, and \<open>kept_by\<close> lifts what a round keeps to whole runs. Two locales that extend
  \<open>delta_source\<close>, \<open>traffic_source\<close> there and \<open>device_source\<close> in \<open>Device_Books\<close>, carry the agreement of the
  panel's books with the agent's over a run. \<open>Hook\<close> has the hook over its stores, with its steps as an
  inductive relation and their invariant. \<open>Panel_Server\<close> says what is relied on of a panel (\<open>panel_bills\<close>,
  \<open>panel_shows\<close>) and proves it of the HTTP client of one inbound and of the source filter around it. Of the
  server it asks that a request answered with a success has been applied; one without such an answer may have
  been or not (\<open>server_logs\<close>), so the books of the two contracts are those of the answered requests, and the
  theorem over the whole program says what the others add. \<open>Agent\<close> and \<open>Agent_Devices\<close> interpret the two locales on the hook
  with the callbacks \<open>main\<close> wires: the agent bills what it counts and reports the devices, for users named by
  their identifiers. \<open>Routed_Connection\<close> composes session, counter and limiters into the connection the core
  uses. \<open>Startup\<close> has the choice of the panel, the options, what \<open>main\<close> starts and the statistics API, and
  \<open>Whole_Agent\<close> puts it all together: from the flags of a single-node agent without local users or a source
  map to the books of its panel. The machine reporter's own requests are not in that run; they carry neither
  traffic nor devices.

  \<^bold>\<open>Beside it.\<close> \<open>Custom_Routing\<close> and \<open>Xboard_Config\<close> have the configuration generator: its documents
  are well formed and its rules reach an outbound. \<open>Go_Flags\<close> has the package \<open>flag\<close> and \<open>Xboard_Command\<close>
  the generator as a command with its arguments; \<open>Protocols\<close> has the registries of \<open>minimalContext\<close> and which
  types of a generated document they hold. \<open>Machine_Reporter\<close> has the machine status and its bounds, \<open>Runtime_Debug\<close> a
  diagnostic sample (no index of which is out of range) and its CSV line, \<open>Runtime_Log\<close> the logger, whose file is a table.

  \<^bold>\<open>Parameters.\<close> The connection at the bottom, the inbounds of the core, the \<open>rate\<close> package, HTTP, the
  encoding of JSON, the file system, the clock and the random source are arguments of the definitions
  (records such as \<open>http\<close>, \<open>host\<close>, \<open>machine\<close>, \<open>platform\<close>, \<open>env\<close>); what a theorem needs of them is a
  hypothesis that states their documented behaviour, and its witness an instance.

  \<^bold>\<open>Bounds and fuel.\<close> Counters are 64-bit words that wrap; where an amount has to be positive the
  steps keep what is not yet reported below \<open>2^63\<close>, an amount no minute can carry. Memory in KiB stays
  below \<open>2^54\<close> so that its bytes fit in 64 bits. The loops of the source are structural or have a
  measure; a run of the synchroniser is a list of events of any length. A call of \<open>activate\<close> or
  \<open>closePending\<close> that runs alone needs at most ten actions.

  \<^bold>\<open>Not modelled.\<close> The HTTP server around \<open>/stats\<close> and its shutdown, signals, log lines and context
  timeouts, the parsing of the flags of \<open>main\<close> itself (their values are the record \<open>flags\<close>), the bodies of
  sing-box's packages behind the registries and what else its loader asks of a document, and the installer, image and workflows: all of it is the
  system's or a package's work. In \<open>Concurrent_Counters\<close> a snapshot visits the entries the map had when it
  began; \<open>sync.Map\<close> may also visit one stored meanwhile, which the next snapshot reports here.
\<close>

end
